(* ===== verification/Prelude.thy ===== *)
theory Prelude
  imports Main "HOL-Library.Word" "HOL-Library.Monad_Syntax"
begin

text \<open>
  Shared vocabulary of the development: the C integer types as words, the collections of
  simplification rules the component theories fill, and the generic facts on lists and
  options that their proofs share.

  Conventions. A C function that may fail to return normally is modelled in the option
  type: \<open>None\<close> stands for a call that does not return (a lock that is never released, a
  polling loop that never ends) or whose behaviour C leaves undefined (a null pointer, an
  access outside a buffer). An error that the code itself reports is a value, the C
  return code.
\<close>

unbundle bit_operations_syntax

type_synonym byte = "8 word"
type_synonym u16 = "16 word"
type_synonym u32 = "32 word"
type_synonym u64 = "64 word"

named_theorems model_defs "definitions unfolded to compute the model"

subsection \<open>Buffers: reads and writes that stay inside their array\<close>

definition buf_write :: "'a list \<Rightarrow> nat \<Rightarrow> 'a \<Rightarrow> 'a list option" where
  "buf_write b i v = (if i < length b then Some (b[i := v]) else None)"

definition buf_read :: "'a list \<Rightarrow> nat \<Rightarrow> 'a option" where
  "buf_read b i = (if i < length b then Some (b ! i) else None)"

definition buf_copy :: "'a list \<Rightarrow> nat \<Rightarrow> 'a list \<Rightarrow> 'a list option" where
  "buf_copy b i vs =
     (if i + length vs \<le> length b
      then Some (take i b @ vs @ drop (i + length vs) b) else None)"

lemma buf_write_in [simp]: "i < length b \<Longrightarrow> buf_write b i v = Some (b[i := v])"
  by (simp add: buf_write_def)

lemma buf_read_in [simp]: "i < length b \<Longrightarrow> buf_read b i = Some (b ! i)"
  by (simp add: buf_read_def)

lemma buf_copy_in [simp]:
  "i + length vs \<le> length b \<Longrightarrow>
   buf_copy b i vs = Some (take i b @ vs @ drop (i + length vs) b)"
  by (simp add: buf_copy_def)

lemma buf_copy_out [simp]: "length b < i + length vs \<Longrightarrow> buf_copy b i vs = None"
  by (simp add: buf_copy_def)

lemma buf_copy_length: "buf_copy b i vs = Some b' \<Longrightarrow> length b' = length b"
  by (auto simp: buf_copy_def split: if_splits)

subsection \<open>Words bit by bit\<close>

text \<open>
  An equation between words of a fixed width is proved by listing the bits: \<open>bit_simps\<close>
  then turns each of them into a propositional formula over the bits of the operands.
\<close>

lemma bit_ge: "n < 2 ^ k \<Longrightarrow> k \<le> i \<Longrightarrow> \<not> bit (n :: 'a::len word) i"
  by (metis bit_take_bit_iff leD less_mask_eq take_bit_eq_mask)

lemma word_bits_eqI: "list_all (\<lambda>n. bit a n \<longleftrightarrow> bit b n) [0..<LENGTH('a)] \<Longrightarrow> (a :: 'a::len word) = b"
  by (auto intro!: bit_word_eqI simp: list_all_iff)

lemma bit_beyond: "LENGTH('a) \<le> n \<Longrightarrow> \<not> bit (a :: 'a::len word) n"
  using bit_imp_le_length leD by blast

lemma bit_times_2: "bit (w * 2 :: 'a::len word) n \<longleftrightarrow> n < LENGTH('a) \<and> n \<noteq> 0 \<and> bit w (n - 1)"
  using bit_push_bit_iff [of 1 w n] by (auto simp: push_bit_eq_mult possible_bit_word mult.commute)

lemma bit_if: "bit (if c then a else b) k \<longleftrightarrow> (if c then bit a k else bit b k)"
  by simp

lemma and_bit_tests:
  fixes i :: byte
  shows "i AND 1 = 0 \<longleftrightarrow> \<not> bit i 0" "i AND 2 = 0 \<longleftrightarrow> \<not> bit i 1" "i AND 4 = 0 \<longleftrightarrow> \<not> bit i 2" "i AND 8 = 0 \<longleftrightarrow> \<not> bit i 3"
    "i AND 0x10 = 0 \<longleftrightarrow> \<not> bit i 4" "i AND 0x20 = 0 \<longleftrightarrow> \<not> bit i 5" "i AND 0x40 = 0 \<longleftrightarrow> \<not> bit i 6"
    "i AND 0x80 = 0 \<longleftrightarrow> \<not> bit i 7"
  using and_exp_eq_0_iff_not_bit [of i 0] and_exp_eq_0_iff_not_bit [of i 1] and_exp_eq_0_iff_not_bit [of i 2]
    and_exp_eq_0_iff_not_bit [of i 3] and_exp_eq_0_iff_not_bit [of i 4] and_exp_eq_0_iff_not_bit [of i 5]
    and_exp_eq_0_iff_not_bit [of i 6] and_exp_eq_0_iff_not_bit [of i 7] by simp_all

lemma upt_word_bits:
  "[0..<4] = [0, 1, 2, 3]"
  "[0..<8] = [0, 1, 2, 3, 4, 5, 6, 7]"
  "[0..<16] = [0, 1, 2, 3, 4, 5, 6, 7, 8, 9, 10, 11, 12, 13, 14, 15]"
  "[0..<29] = [0, 1, 2, 3, 4, 5, 6, 7, 8, 9, 10, 11, 12, 13, 14, 15, 16, 17, 18, 19,
     20, 21, 22, 23, 24, 25, 26, 27, 28]"
  "[0..<32] = [0, 1, 2, 3, 4, 5, 6, 7, 8, 9, 10, 11, 12, 13, 14, 15, 16, 17, 18, 19,
     20, 21, 22, 23, 24, 25, 26, 27, 28, 29, 30, 31]"
  "[0..<64] = [0, 1, 2, 3, 4, 5, 6, 7, 8, 9, 10, 11, 12, 13, 14, 15, 16, 17, 18, 19,
     20, 21, 22, 23, 24, 25, 26, 27, 28, 29, 30, 31, 32, 33, 34, 35, 36, 37, 38, 39,
     40, 41, 42, 43, 44, 45, 46, 47, 48, 49, 50, 51, 52, 53, 54, 55, 56, 57, 58, 59, 60, 61, 62, 63]"
  "[0..<128] = [0, 1, 2, 3, 4, 5, 6, 7, 8, 9, 10, 11, 12, 13, 14, 15, 16, 17, 18, 19,
     20, 21, 22, 23, 24, 25, 26, 27, 28, 29, 30, 31, 32, 33, 34, 35, 36, 37, 38, 39,
     40, 41, 42, 43, 44, 45, 46, 47, 48, 49, 50, 51, 52, 53, 54, 55, 56, 57, 58, 59,
     60, 61, 62, 63, 64, 65, 66, 67, 68, 69, 70, 71, 72, 73, 74, 75, 76, 77, 78, 79,
     80, 81, 82, 83, 84, 85, 86, 87, 88, 89, 90, 91, 92, 93, 94, 95, 96, 97, 98, 99,
     100, 101, 102, 103, 104, 105, 106, 107, 108, 109, 110, 111, 112, 113, 114, 115,
     116, 117, 118, 119, 120, 121, 122, 123, 124, 125, 126, 127]"
  by code_simp+

lemma upt_256:
  "[0..<256] = [0, 1, 2, 3, 4, 5, 6, 7, 8, 9, 10, 11, 12, 13, 14, 15, 16, 17, 18, 19, 20, 21, 22, 23, 24, 25,
     26, 27, 28, 29, 30, 31, 32, 33, 34, 35, 36, 37, 38, 39, 40, 41, 42, 43, 44, 45, 46, 47, 48, 49, 50, 51,
     52, 53, 54, 55, 56, 57, 58, 59, 60, 61, 62, 63, 64, 65, 66, 67, 68, 69, 70, 71, 72, 73, 74, 75, 76, 77,
     78, 79, 80, 81, 82, 83, 84, 85, 86, 87, 88, 89, 90, 91, 92, 93, 94, 95, 96, 97, 98, 99, 100, 101, 102,
     103, 104, 105, 106, 107, 108, 109, 110, 111, 112, 113, 114, 115, 116, 117, 118, 119, 120, 121, 122, 123,
     124, 125, 126, 127, 128, 129, 130, 131, 132, 133, 134, 135, 136, 137, 138, 139, 140, 141, 142, 143, 144,
     145, 146, 147, 148, 149, 150, 151, 152, 153, 154, 155, 156, 157, 158, 159, 160, 161, 162, 163, 164, 165,
     166, 167, 168, 169, 170, 171, 172, 173, 174, 175, 176, 177, 178, 179, 180, 181, 182, 183, 184, 185, 186,
     187, 188, 189, 190, 191, 192, 193, 194, 195, 196, 197, 198, 199, 200, 201, 202, 203, 204, 205, 206, 207,
     208, 209, 210, 211, 212, 213, 214, 215, 216, 217, 218, 219, 220, 221, 222, 223, 224, 225, 226, 227, 228,
     229, 230, 231, 232, 233, 234, 235, 236, 237, 238, 239, 240, 241, 242, 243, 244, 245, 246, 247, 248, 249,
     250, 251, 252, 253, 254, 255]"
  by code_simp

subsection \<open>Loops that fill an array\<close>

lemma foldl_update_length [simp]: "length (foldl (\<lambda>t j. t[g j := h j]) t js) = length t"
  by (induction js arbitrary: t) simp_all

lemma foldl_update_nth:
  "c < length u \<Longrightarrow> foldl (\<lambda>t j. t[j := f j]) u js ! c = (if c \<in> set js then f c else u ! c)"
proof (induction js rule: rev_induct)
  case (snoc j js)
  have "length (foldl (\<lambda>t j. t[j := f j]) u js) = length u" by (induction js rule: rev_induct) simp_all
  with snoc show ?case by (cases "c = j") auto
qed simp

lemma foldl_update_at:
  "i \<in> set js \<Longrightarrow> inj_on g (set js) \<Longrightarrow> g i < length t \<Longrightarrow> foldl (\<lambda>t j. t[g j := h j]) t js ! g i = h i"
proof (induction js rule: rev_induct)
  case (snoc j js)
  then show ?case by (cases "i = j") (auto simp: nth_list_update_neq inj_on_def)
qed simp

subsection \<open>Spinlocks\<close>

text \<open>
  \<open>sync_spinlock_lock\<close> of the platform library spins until the lock is free and takes
  it; in a sequential run a lock that is held is never freed, so the call does not return.
\<close>

definition sync_spinlock_lock :: "bool \<Rightarrow> bool option" where
  "sync_spinlock_lock l = (if l then None else Some True)"

lemma sync_spinlock_lock_simps [simp]:
  "sync_spinlock_lock False = Some True" "sync_spinlock_lock True = None"
  by (simp_all add: sync_spinlock_lock_def)

subsection \<open>Modular arithmetic of ring indices\<close>

lemma ring_count_cases:
  fixes h t n :: nat
  assumes "h < n" "t < n"
  shows "(t + n - h) mod n = (if h \<le> t then t - h else t + n - h)"
proof (cases "h \<le> t")
  case True
  then have "t + n - h = (t - h) + n" by simp
  then show ?thesis using True assms by (simp only: mod_add_self2) simp
next
  case False
  then show ?thesis using assms by simp
qed

lemma ring_Suc_cases:
  fixes t n :: nat
  assumes "t < n"
  shows "Suc t mod n = (if Suc t = n then 0 else Suc t)"
  using assms by auto

lemma ring_succ_count:
  fixes h t n :: nat
  assumes "h < n" "t < n" "Suc t mod n \<noteq> h"
  shows "(Suc t mod n + n - h) mod n = Suc ((t + n - h) mod n)"
  using assms ring_count_cases [of h n "Suc t mod n"]
  by (auto simp: ring_count_cases ring_Suc_cases split: if_splits)

lemma ring_pred_count:
  fixes h t n :: nat
  assumes "h < n" "t < n" "h \<noteq> t"
  shows "Suc ((t + n - Suc h mod n) mod n) = (t + n - h) mod n"
  using assms ring_count_cases [of "Suc h mod n" n t]
  by (auto simp: ring_count_cases ring_Suc_cases split: if_splits)

lemma ring_count_full:
  fixes h t n :: nat
  assumes "h < n" "t < n"
  shows "Suc t mod n = h \<longleftrightarrow> Suc ((t + n - h) mod n) = n"
  using assms by (auto simp: ring_count_cases ring_Suc_cases split: if_splits)

lemma ring_count_empty:
  fixes h t n :: nat
  assumes "h < n" "t < n"
  shows "(t + n - h) mod n = 0 \<longleftrightarrow> t = h"
  using assms by (auto simp: ring_count_cases split: if_splits)

lemma ring_end:
  fixes h t n :: nat
  assumes "h < n" "t < n"
  shows "(h + (t + n - h) mod n) mod n = t"
  using assms by (auto simp: ring_count_cases split: if_splits)

lemma ring_inj_le:
  fixes h i j n :: nat
  assumes "i \<le> j" "j < n" "(h + i) mod n = (h + j) mod n"
  shows "i = j"
proof -
  have "n dvd h + j - (h + i)" using assms(1,3) by (subst mod_eq_dvd_iff_nat [symmetric]) auto
  then have "n dvd j - i" by simp
  then show ?thesis using assms(1,2) by (cases "i = j") (auto dest: dvd_imp_le)
qed

lemma ring_inj:
  fixes h i j n :: nat
  assumes "i < n" "j < n" "(h + i) mod n = (h + j) mod n"
  shows "i = j"
  using assms ring_inj_le [of i j n h] ring_inj_le [of j i n h] by linarith

lemma less_3_cases: "i < (3 :: nat) \<Longrightarrow> i = 0 \<or> i = 1 \<or> i = 2"
  by auto

end
