(* ===== verification/Can_Types.thy ===== *)
theory Can_Types
  imports Prelude
begin

text \<open>
  The data types of the CAN component's interface, \<open>include/can_inf.h\<close>: the arbitration
  field and the frame. A bit-field of width \<open>w\<close> is a \<open>w word\<close>, so that an assignment
  from a wider expression truncates as the C assignment does (\<open>ucast\<close>). The payload
  is the array \<open>data[CAN_MAX_DLC]\<close>; \<open>frame_ok\<close> says that it has that length.
\<close>

definition CAN_SID_BITS :: nat where "CAN_SID_BITS = 11"
definition CAN_EID_BITS :: nat where "CAN_EID_BITS = 18"
definition CAN_EID_MASK :: u32 where "CAN_EID_MASK = 0x3FFFF"
definition CAN_MAX_DLC :: nat where "CAN_MAX_DLC = 8"

record can_id =
  id_num :: "29 word"
  exide :: "1 word"
  rtr :: "1 word"
  err :: "1 word"

record can_frame =
  ident :: can_id
  prio :: "2 word"
  dlc :: "4 word"
  data :: "byte list"

definition frame_ok :: "can_frame \<Rightarrow> bool" where
  "frame_ok f \<longleftrightarrow> length (data f) = CAN_MAX_DLC"

lemmas can_consts [model_defs] =
  CAN_SID_BITS_def CAN_EID_BITS_def CAN_EID_MASK_def CAN_MAX_DLC_def

end
