(* ===== verification/Fifo.thy ===== *)
theory Fifo
  imports Prelude
begin

text \<open>
  The contract of a bounded first-in first-out queue, as the CAN component's clients use
  it: a push that returns 0 or -1 and a pop that returns a message or nothing. The laws
  are stated over the list of messages held; the facts proved inside the locale hold for
  every queue that obeys them.
\<close>

datatype 'a qop = Push 'a | Pop

text \<open>
  The law of each operation also says what it keeps: \<open>rest\<close> is the part of the state
  that belongs to somebody else.
\<close>

locale bounded_fifo =
  fixes push :: "'a \<Rightarrow> 's \<Rightarrow> (int \<times> 's) option"
    and pop :: "'s \<Rightarrow> ('a option \<times> 's) option"
    and contents :: "'s \<Rightarrow> 'a list"
    and invar :: "'s \<Rightarrow> bool"
    and cap :: "'s \<Rightarrow> nat"
    and rest :: "'s \<Rightarrow> 'o"
  assumes push_room: "invar s \<Longrightarrow> length (contents s) < cap s \<Longrightarrow>
      \<exists>s'. push x s = Some (0, s') \<and> invar s' \<and> contents s' = contents s @ [x] \<and>
        cap s' = cap s \<and> rest s' = rest s"
    and push_full: "invar s \<Longrightarrow> cap s \<le> length (contents s) \<Longrightarrow> push x s = Some (-1, s)"
    and pop_empty: "invar s \<Longrightarrow> contents s = [] \<Longrightarrow> pop s = Some (None, s)"
    and pop_cons: "invar s \<Longrightarrow> contents s = x # xs \<Longrightarrow>
      \<exists>s'. pop s = Some (Some x, s') \<and> invar s' \<and> contents s' = xs \<and>
        cap s' = cap s \<and> rest s' = rest s"
    and contents_cap: "invar s \<Longrightarrow> length (contents s) \<le> cap s"
begin

lemma push_cases:
  assumes "invar s"
  obtains (room) s' where "push x s = Some (0, s')" "invar s'" "contents s' = contents s @ [x]"
      "cap s' = cap s" "rest s' = rest s" "length (contents s) < cap s"
    | (full) "push x s = Some (-1, s)" "cap s \<le> length (contents s)"
  using push_room [OF assms, of x] push_full [OF assms, of x] by (meson not_less)

lemma pop_cases:
  assumes "invar s"
  obtains (empty) "pop s = Some (None, s)" "contents s = []"
    | (message) x s' where "pop s = Some (Some x, s')" "invar s'" "contents s = x # contents s'"
      "cap s' = cap s" "rest s' = rest s"
proof (cases "contents s")
  case Nil
  with assms pop_empty empty show ?thesis by blast
next
  case (Cons x xs)
  with assms pop_cons message show ?thesis by metis
qed

end

text \<open>
  Two queues over one state, each the rest of the other: a sequence of calls on both, in
  any interleaving, conserves the messages of each.
\<close>

datatype 'a qcall = On1 "'a qop" | On2 "'a qop"

type_synonym 'a qio = "'a list \<times> 'a list"

definition do_op :: "('a \<Rightarrow> 's \<Rightarrow> (int \<times> 's) option) \<Rightarrow> ('s \<Rightarrow> ('a option \<times> 's) option) \<Rightarrow>
    'a qop \<Rightarrow> 's \<Rightarrow> ('a qio \<times> 's) option" where
  "do_op push pop op s = (case op of
     Push x \<Rightarrow> do { (r, s') \<leftarrow> push x s; Some ((if r = 0 then [x] else [], []), s') }
   | Pop \<Rightarrow> do { (r, s') \<leftarrow> pop s; Some (([], case r of None \<Rightarrow> [] | Some x \<Rightarrow> [x]), s') })"

fun run_calls :: "('a qop \<Rightarrow> 's \<Rightarrow> ('a qio \<times> 's) option) \<Rightarrow> ('a qop \<Rightarrow> 's \<Rightarrow> ('a qio \<times> 's) option) \<Rightarrow>
    'a qcall list \<Rightarrow> 's \<Rightarrow> ('a qio \<times> 'a qio \<times> 's) option" where
  "run_calls d1 d2 [] s = Some (([], []), ([], []), s)"
| "run_calls d1 d2 (On1 op # cs) s = do {
     ((a, d), s1) \<leftarrow> d1 op s;
     ((a1, o1), io2, s2) \<leftarrow> run_calls d1 d2 cs s1;
     Some ((a @ a1, d @ o1), io2, s2) }"
| "run_calls d1 d2 (On2 op # cs) s = do {
     ((a, d), s1) \<leftarrow> d2 op s;
     (io1, (a2, o2), s2) \<leftarrow> run_calls d1 d2 cs s1;
     Some (io1, (a @ a2, d @ o2), s2) }"

context bounded_fifo
begin

lemma do_op_conserves:
  assumes "invar s"
  shows "\<exists>acc out s'. do_op push pop op s = Some ((acc, out), s') \<and> invar s' \<and> cap s' = cap s \<and>
    rest s' = rest s \<and> contents s @ acc = out @ contents s'"
proof (cases op)
  case (Push x)
  from assms show ?thesis by (cases rule: push_cases [where x = x]) (auto simp: Push do_op_def assms)
next
  case Pop
  from assms show ?thesis by (cases rule: pop_cases) (auto simp: Pop do_op_def assms)
qed

end

locale two_fifos =
  q1: bounded_fifo push1 pop1 contents1 invar cap1 rest1 +
  q2: bounded_fifo push2 pop2 contents2 invar cap2 rest2
  for push1 :: "'a \<Rightarrow> 's \<Rightarrow> (int \<times> 's) option" and pop1 contents1 invar cap1 and rest1 :: "'s \<Rightarrow> 'o"
    and push2 :: "'a \<Rightarrow> 's \<Rightarrow> (int \<times> 's) option" and pop2 contents2 cap2 and rest2 :: "'s \<Rightarrow> 'p" +
  assumes rest1_keeps: "rest1 s' = rest1 s \<Longrightarrow> contents2 s' = contents2 s \<and> cap2 s' = cap2 s"
    and rest2_keeps: "rest2 s' = rest2 s \<Longrightarrow> contents1 s' = contents1 s \<and> cap1 s' = cap1 s"
begin

lemma run_calls_conserves:
  assumes "invar s"
  shows "\<exists>a1 o1 a2 o2 s'.
    run_calls (do_op push1 pop1) (do_op push2 pop2) cs s = Some ((a1, o1), (a2, o2), s') \<and>
    invar s' \<and> cap1 s' = cap1 s \<and> cap2 s' = cap2 s \<and>
    contents1 s @ a1 = o1 @ contents1 s' \<and> contents2 s @ a2 = o2 @ contents2 s'"
  using assms
proof (induction cs arbitrary: s)
  case Nil
  then show ?case by simp
next
  case (Cons c cs)
  show ?case
  proof (cases c)
    case (On1 op)
    from q1.do_op_conserves [OF Cons.prems, of op] obtain a d s1 where
      s1: "do_op push1 pop1 op s = Some ((a, d), s1)" "invar s1" "cap1 s1 = cap1 s"
        "rest1 s1 = rest1 s" "contents1 s @ a = d @ contents1 s1" by blast
    with Cons.IH [of s1] rest1_keeps [of s1 s] show ?thesis
      by (clarsimp simp: On1) (metis append.assoc)
  next
    case (On2 op)
    from q2.do_op_conserves [OF Cons.prems, of op] obtain a d s1 where
      s1: "do_op push2 pop2 op s = Some ((a, d), s1)" "invar s1" "cap2 s1 = cap2 s"
        "rest2 s1 = rest2 s" "contents2 s @ a = d @ contents2 s1" by blast
    with Cons.IH [of s1] rest2_keeps [of s1 s] show ?thesis
      by (clarsimp simp: On2) (metis append.assoc)
  qed
qed

end

end
