(* ===== verification/Can_Queue.thy ===== *)
theory Can_Queue
  imports Can_Types Fifo
begin

text \<open>
  The TX and RX message queues of the CAN component, \<open>components/can/src/queue.c\<close>: two
  circular buffers cut out of one allocation. \<open>mq_frames\<close> is the offset of a queue's
  first slot in that allocation (the C pointer \<open>cb->frames\<close>), so that the two queues
  share the array \<open>pool\<close> as the code's do. A queue pointer that is null, or that
  dangles after a failed \<open>mq_init\<close>, is \<open>None\<close>.
\<close>

subsection \<open>Model\<close>

record mq_cb =
  mq_frames :: nat
  mq_head :: nat
  mq_tail :: nat
  mq_size :: nat
  mq_lock :: bool

record mq_state =
  txq :: "mq_cb option"
  rxq :: "mq_cb option"
  pool :: "can_frame list"

definition mq_is_full :: "mq_cb \<Rightarrow> bool" where
  "mq_is_full cb \<longleftrightarrow> (mq_tail cb + 1) mod mq_size cb = mq_head cb"

definition mq_is_empty :: "mq_cb \<Rightarrow> bool" where
  "mq_is_empty cb \<longleftrightarrow> mq_tail cb = mq_head cb"

definition mq_append_msg ::
  "mq_cb \<Rightarrow> can_frame \<Rightarrow> can_frame list \<Rightarrow> (mq_cb \<times> can_frame list) option" where
  "mq_append_msg cb frame p = do {
     p' \<leftarrow> buf_write p (mq_frames cb + mq_tail cb) frame;
     Some (cb\<lparr>mq_tail := (mq_tail cb + 1) mod mq_size cb\<rparr>, p') }"

definition mq_remove_msg ::
  "mq_cb \<Rightarrow> can_frame list \<Rightarrow> (can_frame \<times> mq_cb) option" where
  "mq_remove_msg cb p = do {
     frame \<leftarrow> buf_read p (mq_frames cb + mq_head cb);
     Some (frame, cb\<lparr>mq_head := (mq_head cb + 1) mod mq_size cb\<rparr>) }"

text \<open>
  \<open>mq_init\<close>: the two calls of \<open>malloc\<close> succeed or fail (\<open>m1\<close>, \<open>m2\<close>); the memory
  they return holds arbitrary frames (\<open>garbage\<close>).
\<close>

definition mq_init ::
  "bool \<Rightarrow> bool \<Rightarrow> (nat \<Rightarrow> can_frame) \<Rightarrow> nat \<Rightarrow> mq_state" where
  "mq_init m1 m2 garbage n =
     (if \<not> m1 then \<lparr>txq = None, rxq = None, pool = []\<rparr>
      else if \<not> m2 then \<lparr>txq = None, rxq = None, pool = []\<rparr>
      else \<lparr>txq = Some \<lparr>mq_frames = 0, mq_head = 0, mq_tail = 0, mq_size = n, mq_lock = False\<rparr>,
            rxq = Some \<lparr>mq_frames = n, mq_head = 0, mq_tail = 0, mq_size = n, mq_lock = False\<rparr>,
            pool = map garbage [0..<2 * n]\<rparr>)"

definition tx_queue_push :: "can_frame \<Rightarrow> mq_state \<Rightarrow> (int \<times> mq_state) option" where
  "tx_queue_push frame s = do {
     cb \<leftarrow> txq s;
     if \<not> mq_is_full cb then do {
       l \<leftarrow> sync_spinlock_lock (mq_lock cb);
       (cb', p) \<leftarrow> mq_append_msg (cb\<lparr>mq_lock := l\<rparr>) frame (pool s);
       Some (0, s\<lparr>txq := Some (cb'\<lparr>mq_lock := False\<rparr>), pool := p\<rparr>) }
     else Some (-1, s) }"

definition tx_queue_pop :: "mq_state \<Rightarrow> (can_frame option \<times> mq_state) option" where
  "tx_queue_pop s = do {
     cb \<leftarrow> txq s;
     if \<not> mq_is_empty cb then do {
       l \<leftarrow> sync_spinlock_lock (mq_lock cb);
       (frame, cb') \<leftarrow> mq_remove_msg (cb\<lparr>mq_lock := l\<rparr>) (pool s);
       Some (Some frame, s\<lparr>txq := Some (cb'\<lparr>mq_lock := False\<rparr>)\<rparr>) }
     else Some (None, s) }"

definition rx_queue_push :: "can_frame \<Rightarrow> mq_state \<Rightarrow> (int \<times> mq_state) option" where
  "rx_queue_push frame s = do {
     cb \<leftarrow> rxq s;
     if \<not> mq_is_full cb then do {
       l \<leftarrow> sync_spinlock_lock (mq_lock cb);
       (cb', p) \<leftarrow> mq_append_msg (cb\<lparr>mq_lock := l\<rparr>) frame (pool s);
       Some (0, s\<lparr>rxq := Some (cb'\<lparr>mq_lock := False\<rparr>), pool := p\<rparr>) }
     else Some (-1, s) }"

definition rx_queue_pop :: "mq_state \<Rightarrow> (can_frame option \<times> mq_state) option" where
  "rx_queue_pop s = do {
     cb \<leftarrow> rxq s;
     if \<not> mq_is_empty cb then do {
       l \<leftarrow> sync_spinlock_lock (mq_lock cb);
       (frame, cb') \<leftarrow> mq_remove_msg (cb\<lparr>mq_lock := l\<rparr>) (pool s);
       Some (Some frame, s\<lparr>rxq := Some (cb'\<lparr>mq_lock := False\<rparr>)\<rparr>) }
     else Some (None, s) }"

subsection \<open>Invariant and abstraction\<close>

definition mq_wf :: "mq_cb \<Rightarrow> can_frame list \<Rightarrow> bool" where
  "mq_wf cb p \<longleftrightarrow> mq_head cb < mq_size cb \<and> mq_tail cb < mq_size cb \<and>
     mq_frames cb + mq_size cb \<le> length p \<and> \<not> mq_lock cb"

definition mq_count :: "mq_cb \<Rightarrow> nat" where
  "mq_count cb = (mq_tail cb + mq_size cb - mq_head cb) mod mq_size cb"

definition mq_slot :: "mq_cb \<Rightarrow> nat \<Rightarrow> nat" where
  "mq_slot cb i = mq_frames cb + (mq_head cb + i) mod mq_size cb"

definition mq_list :: "mq_cb \<Rightarrow> can_frame list \<Rightarrow> can_frame list" where
  "mq_list cb p = map (\<lambda>i. p ! mq_slot cb i) [0..<mq_count cb]"

definition mq_inv :: "mq_state \<Rightarrow> bool" where
  "mq_inv s \<longleftrightarrow> (\<exists>t r. txq s = Some t \<and> rxq s = Some r \<and> mq_wf t (pool s) \<and> mq_wf r (pool s) \<and>
     mq_frames t + mq_size t \<le> mq_frames r)"

definition tx_list :: "mq_state \<Rightarrow> can_frame list" where
  "tx_list s = (case txq s of None \<Rightarrow> [] | Some cb \<Rightarrow> mq_list cb (pool s))"

definition rx_list :: "mq_state \<Rightarrow> can_frame list" where
  "rx_list s = (case rxq s of None \<Rightarrow> [] | Some cb \<Rightarrow> mq_list cb (pool s))"

definition tx_cap :: "mq_state \<Rightarrow> nat" where
  "tx_cap s = (case txq s of None \<Rightarrow> 0 | Some cb \<Rightarrow> mq_size cb - 1)"

definition rx_cap :: "mq_state \<Rightarrow> nat" where
  "rx_cap s = (case rxq s of None \<Rightarrow> 0 | Some cb \<Rightarrow> mq_size cb - 1)"

subsection \<open>One circular buffer\<close>

lemma mq_lock_irrelevant [simp]:
  "mq_slot (cb\<lparr>mq_lock := l\<rparr>) = mq_slot cb"
  "mq_count (cb\<lparr>mq_lock := l\<rparr>) = mq_count cb"
  "mq_list (cb\<lparr>mq_lock := l\<rparr>) p = mq_list cb p"
  "mq_list (cb\<lparr>mq_lock := l, mq_tail := t\<rparr>) p = mq_list (cb\<lparr>mq_tail := t\<rparr>) p"
  "mq_list (cb\<lparr>mq_lock := l, mq_head := h\<rparr>) p = mq_list (cb\<lparr>mq_head := h\<rparr>) p"
  by (auto simp: mq_slot_def mq_count_def mq_list_def)

lemma mq_count_less: "mq_wf cb p \<Longrightarrow> mq_count cb < mq_size cb"
  by (simp add: mq_wf_def mq_count_def)

lemma mq_wf_unlocked: "mq_wf cb p \<Longrightarrow> \<not> mq_lock cb"
  by (simp add: mq_wf_def)

lemma mq_slot_bounds:
  "mq_wf cb p \<Longrightarrow> mq_frames cb \<le> mq_slot cb i \<and> mq_slot cb i < mq_frames cb + mq_size cb"
  by (simp add: mq_wf_def mq_slot_def)

lemma mq_is_empty_iff: "mq_wf cb p \<Longrightarrow> mq_is_empty cb \<longleftrightarrow> mq_count cb = 0"
  by (simp add: mq_wf_def mq_is_empty_def mq_count_def ring_count_empty)

lemma mq_is_full_iff: "mq_wf cb p \<Longrightarrow> mq_is_full cb \<longleftrightarrow> Suc (mq_count cb) = mq_size cb"
  by (simp add: mq_wf_def mq_is_full_def mq_count_def ring_count_full)

lemma mq_list_length: "length (mq_list cb p) = mq_count cb"
  by (simp add: mq_list_def)

text \<open>The slot after the last message is the one at the tail, and it is none of theirs.\<close>

lemma mq_slot_tail: "mq_wf cb p \<Longrightarrow> mq_slot cb (mq_count cb) = mq_frames cb + mq_tail cb"
  by (simp add: mq_wf_def mq_slot_def mq_count_def ring_end)

lemma mq_slot_fresh: "mq_wf cb p \<Longrightarrow> i < mq_count cb \<Longrightarrow> mq_slot cb i \<noteq> mq_frames cb + mq_tail cb"
  using mq_slot_tail [of cb p] mq_count_less [of cb p]
    ring_inj [of i "mq_size cb" "mq_count cb" "mq_head cb"]
  by (auto simp: mq_slot_def)

lemma mq_append_msg_list:
  assumes "mq_wf cb p" "\<not> mq_is_full cb"
  shows "\<exists>cb' p'. mq_append_msg (cb\<lparr>mq_lock := l\<rparr>) f p = Some (cb', p') \<and>
           mq_wf (cb'\<lparr>mq_lock := False\<rparr>) p' \<and>
           mq_list (cb'\<lparr>mq_lock := False\<rparr>) p' = mq_list cb p @ [f] \<and>
           mq_size cb' = mq_size cb \<and> mq_frames cb' = mq_frames cb \<and>
           p' = p[mq_frames cb + mq_tail cb := f]"
proof -
  let ?k = "mq_frames cb + mq_tail cb"
  let ?cb' = "cb\<lparr>mq_tail := Suc (mq_tail cb) mod mq_size cb\<rparr>"
  have k: "?k < length p" using assms(1) by (auto simp: mq_wf_def)
  have cnt: "mq_count ?cb' = Suc (mq_count cb)"
    using assms by (auto simp: mq_wf_def mq_is_full_def mq_count_def ring_succ_count)
  have slot: "mq_slot ?cb' = mq_slot cb" by (rule ext) (simp add: mq_slot_def)
  have "mq_list ?cb' (p[?k := f]) = map (\<lambda>i. p[?k := f] ! mq_slot cb i) [0..<mq_count cb] @ [f]"
    unfolding mq_list_def cnt slot using k assms(1) by (simp add: mq_slot_tail)
  also have "\<dots> = mq_list cb p @ [f]"
    using assms(1) by (auto simp: mq_list_def dest: mq_slot_fresh)
  finally have "mq_list ?cb' (p[?k := f]) = mq_list cb p @ [f]" .
  then have "mq_list (?cb'\<lparr>mq_lock := l\<rparr>) (p[?k := f]) = mq_list cb p @ [f]" for l by simp
  then show ?thesis using k assms(1)
    by (auto simp: mq_append_msg_def mq_wf_def)
qed

lemma mq_remove_msg_list:
  assumes "mq_wf cb p" "\<not> mq_is_empty cb"
  shows "\<exists>f cb'. mq_remove_msg (cb\<lparr>mq_lock := l\<rparr>) p = Some (f, cb') \<and>
           mq_wf (cb'\<lparr>mq_lock := False\<rparr>) p \<and>
           mq_list cb p = f # mq_list (cb'\<lparr>mq_lock := False\<rparr>) p \<and>
           mq_size cb' = mq_size cb \<and> mq_frames cb' = mq_frames cb"
proof -
  let ?k = "mq_frames cb + mq_head cb"
  let ?cb' = "cb\<lparr>mq_head := Suc (mq_head cb) mod mq_size cb\<rparr>"
  have k: "?k < length p" using assms(1) by (auto simp: mq_wf_def)
  have cnt: "mq_count cb = Suc (mq_count ?cb')"
    using assms ring_pred_count [of "mq_head cb" "mq_size cb" "mq_tail cb"]
    by (auto simp: mq_wf_def mq_is_empty_def mq_count_def)
  have slot: "mq_slot cb (Suc i) = mq_slot ?cb' i" for i
    by (simp add: mq_slot_def mod_add_left_eq mod_Suc_eq)
  have hd: "mq_slot cb 0 = ?k" using assms(1) by (simp add: mq_slot_def mq_wf_def)
  have "mq_list cb p = p ! ?k # map (\<lambda>i. p ! mq_slot cb (Suc i)) [0..<mq_count ?cb']"
    unfolding mq_list_def cnt by (simp add: upt_conv_Cons map_Suc_upt [symmetric] hd del: upt_Suc)
  also have "\<dots> = p ! ?k # mq_list ?cb' p" by (simp add: mq_list_def slot)
  finally have "mq_list cb p = p ! ?k # mq_list (?cb'\<lparr>mq_lock := l\<rparr>) p" for l by simp
  then show ?thesis using k assms(1)
    by (auto simp: mq_remove_msg_def mq_wf_def)
qed

text \<open>Writing outside a queue's slots leaves its contents alone.\<close>

lemma mq_list_frame:
  assumes "mq_wf cb p" "k < mq_frames cb \<or> mq_frames cb + mq_size cb \<le> k"
  shows "mq_list cb (p[k := f]) = mq_list cb p"
proof -
  have "mq_slot cb i \<noteq> k" for i using assms(2) mq_slot_bounds [OF assms(1), of i] by auto
  then have "p[k := f] ! mq_slot cb i = p ! mq_slot cb i" for i by (metis nth_list_update_neq)
  then show ?thesis by (simp add: mq_list_def)
qed

lemma mq_wf_update [simp]: "mq_wf cb (p[k := f]) = mq_wf cb p"
  by (simp add: mq_wf_def)

subsection \<open>The two queues as bounded FIFOs\<close>

lemma mq_full_cap: "mq_wf cb p \<Longrightarrow> mq_is_full cb \<longleftrightarrow> mq_size cb - 1 \<le> length (mq_list cb p)"
  using mq_count_less [of cb p] mq_is_full_iff [of cb p] by (auto simp: mq_list_length)

lemma mq_empty_list: "mq_wf cb p \<Longrightarrow> mq_is_empty cb \<longleftrightarrow> mq_list cb p = []"
  using mq_is_empty_iff [of cb p] by (simp add: mq_list_def)

lemma mq_list_cap: "mq_wf cb p \<Longrightarrow> length (mq_list cb p) \<le> mq_size cb - 1"
  using mq_count_less [of cb p] by (auto simp: mq_list_length)

lemma tx_queue_push_room:
  assumes "mq_inv s" "length (tx_list s) < tx_cap s"
  shows "\<exists>s'. tx_queue_push f s = Some (0, s') \<and> mq_inv s' \<and> tx_list s' = tx_list s @ [f] \<and>
    tx_cap s' = tx_cap s \<and> rx_list s' = rx_list s \<and> rx_cap s' = rx_cap s"
proof -
  from assms(1) obtain t r where s: "txq s = Some t" "rxq s = Some r" "mq_wf t (pool s)"
    "mq_wf r (pool s)" "mq_frames t + mq_size t \<le> mq_frames r" by (auto simp: mq_inv_def)
  with assms(2) have nf: "\<not> mq_is_full t" by (simp add: mq_full_cap tx_list_def tx_cap_def)
  from mq_append_msg_list [OF s(3) nf, of True f] obtain t' p' where
    app: "mq_append_msg (t\<lparr>mq_lock := True\<rparr>) f (pool s) = Some (t', p')"
      "mq_wf (t'\<lparr>mq_lock := False\<rparr>) p'" "mq_list t' p' = mq_list t (pool s) @ [f]"
      "mq_size t' = mq_size t" "mq_frames t' = mq_frames t"
      and p': "p' = (pool s)[mq_frames t + mq_tail t := f]" by auto
  have "mq_list r p' = mq_list r (pool s)"
    unfolding p' using s by (intro mq_list_frame) (auto simp: mq_wf_def)
  with s nf app p' show ?thesis
    by (auto simp: tx_queue_push_def mq_inv_def mq_wf_def tx_list_def rx_list_def tx_cap_def rx_cap_def)
qed

lemma tx_queue_push_full:
  "mq_inv s \<Longrightarrow> tx_cap s \<le> length (tx_list s) \<Longrightarrow> tx_queue_push f s = Some (-1, s)"
  by (auto simp: mq_inv_def tx_queue_push_def tx_list_def tx_cap_def mq_full_cap)

lemma tx_queue_pop_empty: "mq_inv s \<Longrightarrow> tx_list s = [] \<Longrightarrow> tx_queue_pop s = Some (None, s)"
  by (auto simp: mq_inv_def tx_queue_pop_def tx_list_def mq_empty_list)

lemma tx_queue_pop_cons:
  assumes "mq_inv s" "tx_list s = f # fs"
  shows "\<exists>s'. tx_queue_pop s = Some (Some f, s') \<and> mq_inv s' \<and> tx_list s' = fs \<and>
    tx_cap s' = tx_cap s \<and> rx_list s' = rx_list s \<and> rx_cap s' = rx_cap s"
proof -
  from assms(1) obtain t r where s: "txq s = Some t" "rxq s = Some r" "mq_wf t (pool s)"
    "mq_wf r (pool s)" "mq_frames t + mq_size t \<le> mq_frames r" by (auto simp: mq_inv_def)
  with assms(2) have ne: "\<not> mq_is_empty t" by (simp add: mq_empty_list tx_list_def)
  from mq_remove_msg_list [OF s(3) ne, of True] s assms(2) ne show ?thesis
    by (auto simp: tx_queue_pop_def mq_inv_def tx_list_def rx_list_def tx_cap_def rx_cap_def
        dest: mq_wf_unlocked)
qed

lemma rx_queue_push_room:
  assumes "mq_inv s" "length (rx_list s) < rx_cap s"
  shows "\<exists>s'. rx_queue_push f s = Some (0, s') \<and> mq_inv s' \<and> rx_list s' = rx_list s @ [f] \<and>
    rx_cap s' = rx_cap s \<and> tx_list s' = tx_list s \<and> tx_cap s' = tx_cap s"
proof -
  from assms(1) obtain t r where s: "txq s = Some t" "rxq s = Some r" "mq_wf t (pool s)"
    "mq_wf r (pool s)" "mq_frames t + mq_size t \<le> mq_frames r" by (auto simp: mq_inv_def)
  with assms(2) have nf: "\<not> mq_is_full r" by (simp add: mq_full_cap rx_list_def rx_cap_def)
  from mq_append_msg_list [OF s(4) nf, of True f] obtain r' p' where
    app: "mq_append_msg (r\<lparr>mq_lock := True\<rparr>) f (pool s) = Some (r', p')"
      "mq_wf (r'\<lparr>mq_lock := False\<rparr>) p'" "mq_list r' p' = mq_list r (pool s) @ [f]"
      "mq_size r' = mq_size r" "mq_frames r' = mq_frames r"
      and p': "p' = (pool s)[mq_frames r + mq_tail r := f]" by auto
  have "mq_list t p' = mq_list t (pool s)"
    unfolding p' using s by (intro mq_list_frame) (auto simp: mq_wf_def)
  with s nf app p' show ?thesis
    by (auto simp: rx_queue_push_def mq_inv_def mq_wf_def tx_list_def rx_list_def tx_cap_def rx_cap_def)
qed

lemma rx_queue_push_full:
  "mq_inv s \<Longrightarrow> rx_cap s \<le> length (rx_list s) \<Longrightarrow> rx_queue_push f s = Some (-1, s)"
  by (auto simp: mq_inv_def rx_queue_push_def rx_list_def rx_cap_def mq_full_cap)

lemma rx_queue_pop_empty: "mq_inv s \<Longrightarrow> rx_list s = [] \<Longrightarrow> rx_queue_pop s = Some (None, s)"
  by (auto simp: mq_inv_def rx_queue_pop_def rx_list_def mq_empty_list)

lemma rx_queue_pop_cons:
  assumes "mq_inv s" "rx_list s = f # fs"
  shows "\<exists>s'. rx_queue_pop s = Some (Some f, s') \<and> mq_inv s' \<and> rx_list s' = fs \<and>
    rx_cap s' = rx_cap s \<and> tx_list s' = tx_list s \<and> tx_cap s' = tx_cap s"
proof -
  from assms(1) obtain t r where s: "txq s = Some t" "rxq s = Some r" "mq_wf t (pool s)"
    "mq_wf r (pool s)" "mq_frames t + mq_size t \<le> mq_frames r" by (auto simp: mq_inv_def)
  with assms(2) have ne: "\<not> mq_is_empty r" by (simp add: mq_empty_list rx_list_def)
  from mq_remove_msg_list [OF s(4) ne, of True] s assms(2) ne show ?thesis
    by (auto simp: rx_queue_pop_def mq_inv_def tx_list_def rx_list_def tx_cap_def rx_cap_def
        dest: mq_wf_unlocked)
qed

lemma mq_inv_caps:
  "mq_inv s \<Longrightarrow> length (tx_list s) \<le> tx_cap s"
  "mq_inv s \<Longrightarrow> length (rx_list s) \<le> rx_cap s"
  by (auto simp: mq_inv_def tx_list_def tx_cap_def rx_list_def rx_cap_def dest: mq_list_cap)

interpretation tx_fifo: bounded_fifo tx_queue_push tx_queue_pop tx_list mq_inv tx_cap
    "\<lambda>s. (rx_list s, rx_cap s)"
  using tx_queue_push_room tx_queue_push_full tx_queue_pop_empty tx_queue_pop_cons mq_inv_caps(1)
  by unfold_locales (simp; blast)+

interpretation rx_fifo: bounded_fifo rx_queue_push rx_queue_pop rx_list mq_inv rx_cap
    "\<lambda>s. (tx_list s, tx_cap s)"
  using rx_queue_push_room rx_queue_push_full rx_queue_pop_empty rx_queue_pop_cons mq_inv_caps(2)
  by unfold_locales (simp; blast)+

interpretation can_queues: two_fifos tx_queue_push tx_queue_pop tx_list mq_inv tx_cap
    "\<lambda>s. (rx_list s, rx_cap s)" rx_queue_push rx_queue_pop rx_list rx_cap "\<lambda>s. (tx_list s, tx_cap s)"
  by unfold_locales auto

subsection \<open>Properties\<close>

lemma mq_init_inv:
  assumes "0 < n"
  shows "mq_inv (mq_init True True g n)" "tx_list (mq_init True True g n) = []"
    "rx_list (mq_init True True g n) = []"
    "tx_cap (mq_init True True g n) = n - 1" "rx_cap (mq_init True True g n) = n - 1"
  using assms by (auto simp: mq_init_def mq_inv_def mq_wf_def tx_list_def rx_list_def mq_list_def
      mq_count_def tx_cap_def rx_cap_def)

text \<open>
  C11. From any well-formed state of the queues, every sequence of \<open>tx_queue_push\<close>,
  \<open>tx_queue_pop\<close>, \<open>rx_queue_push\<close> and \<open>rx_queue_pop\<close> calls, in any
  interleaving, returns. For each queue the messages held before followed by the messages
  accepted are exactly the messages delivered followed by the messages held after, in
  order: nothing is lost, duplicated, reordered or moved from one queue into the other.
\<close>

theorem queues_fifo:
  assumes "mq_inv s"
  shows "\<exists>ta tout ra rout s'.
    run_calls (do_op tx_queue_push tx_queue_pop) (do_op rx_queue_push rx_queue_pop) cs s =
      Some ((ta, tout), (ra, rout), s') \<and> mq_inv s' \<and>
    tx_list s @ ta = tout @ tx_list s' \<and> rx_list s @ ra = rout @ rx_list s'"
  using can_queues.run_calls_conserves [OF assms] by blast

definition sample_frame :: "29 word \<Rightarrow> can_frame" where
  "sample_frame i = \<lparr>ident = \<lparr>id_num = i, exide = 0, rtr = 0, err = 0\<rparr>, prio = 0, dlc = 8,
     data = [8, 7, 6, 5, 4, 3, 2, 1]\<rparr>"

theorem queues_fifo_witness:
  "\<exists>ta tout ra rout s'.
    run_calls (do_op tx_queue_push tx_queue_pop) (do_op rx_queue_push rx_queue_pop)
        [On1 (Push (sample_frame 1)), On2 (Push (sample_frame 2)), On1 Pop, On2 Pop, On2 Pop]
        (mq_init True True (\<lambda>_. sample_frame 0) 4) = Some ((ta, tout), (ra, rout), s') \<and> mq_inv s' \<and>
    tx_list (mq_init True True (\<lambda>_. sample_frame 0) 4) @ ta = tout @ tx_list s' \<and>
    rx_list (mq_init True True (\<lambda>_. sample_frame 0) 4) @ ra = rout @ rx_list s'"
  by (rule queues_fifo) (simp add: mq_init_inv)

text \<open>
  \<open>tx_queue_push\<close> refuses a message (returns -1 and changes nothing) exactly when
  the queue already holds its size less one messages, and otherwise returns 0 with the
  message appended; a queue made by a successful \<open>mq_init\<close> of size \<open>n\<close> therefore holds
  \<open>n - 1\<close> messages.
\<close>

lemma tx_queue_push_result:
  assumes "mq_inv s"
  shows "\<exists>r s'. tx_queue_push f s = Some (r, s') \<and>
    (if length (tx_list s) = tx_cap s then r = -1 \<and> s' = s
     else r = 0 \<and> tx_list s' = tx_list s @ [f]) \<and>
    (0 < n \<longrightarrow> tx_cap (mq_init True True g n) = n - 1)"
  using assms mq_init_inv(4) [of n g] mq_inv_caps(1) [OF assms]
  by (cases rule: tx_fifo.push_cases [where x = f]) auto

lemma tx_queue_push_result_witness:
  "\<exists>r s'. tx_queue_push (sample_frame 7) (mq_init True True (\<lambda>_. sample_frame 0) 128) = Some (r, s') \<and>
    (if length (tx_list (mq_init True True (\<lambda>_. sample_frame 0) 128)) =
        tx_cap (mq_init True True (\<lambda>_. sample_frame 0) 128)
     then r = -1 \<and> s' = mq_init True True (\<lambda>_. sample_frame 0) 128
     else r = 0 \<and> tx_list s' = tx_list (mq_init True True (\<lambda>_. sample_frame 0) 128) @ [sample_frame 7]) \<and>
    ((0::nat) < 128 \<longrightarrow> tx_cap (mq_init True True (\<lambda>_. sample_frame 0) 128) = 128 - 1)"
  by (rule tx_queue_push_result) (simp add: mq_init_inv)

end
