(* ===== verification/Can_Queue_Conc.thy ===== *)
theory Can_Queue_Conc
  imports Can_Queue
begin

text \<open>
  One of the CAN queues shared by threads, at the grain of the memory accesses of
  \<open>components/can/src/queue.c\<close>: a push is the test of \<open>mq_is_full\<close> without the lock,
  the lock, the copy of the frame into the slot, the advance of \<open>tail\<close> and the
  unlock; a pop likewise. Steps of different threads interleave in any order (sequential
  consistency is assumed). \<open>pushed\<close> and \<open>popped\<close> record the frames in the order of the
  index updates; the code has no such variables.

  With one producer and one consumer, which is how the CAN component uses each queue, the
  tests outside the lock do no harm; with two producers they do.
\<close>

subsection \<open>Model\<close>

datatype producer = PIdle | PTested can_frame | PLocked can_frame | PCopied can_frame | PMoved

datatype consumer = CIdle | CTested | CLocked | CCopied can_frame | CMoved can_frame

record shared_queue =
  qcb :: mq_cb
  slots :: "can_frame list"
  producers :: "nat \<Rightarrow> producer"
  consumer_pc :: consumer
  pushed :: "can_frame list"
  popped :: "can_frame list"

text \<open>The body of \<open>mq_append_msg\<close> and of \<open>mq_remove_msg\<close>, one memory access at a time.\<close>

definition append_copy :: "mq_cb \<Rightarrow> can_frame \<Rightarrow> can_frame list \<Rightarrow> can_frame list option" where
  "append_copy q f p = buf_write p (mq_frames q + mq_tail q) f"

definition append_move :: "mq_cb \<Rightarrow> mq_cb" where
  "append_move q = q\<lparr>mq_tail := (mq_tail q + 1) mod mq_size q\<rparr>"

definition remove_copy :: "mq_cb \<Rightarrow> can_frame list \<Rightarrow> can_frame option" where
  "remove_copy q p = buf_read p (mq_frames q + mq_head q)"

definition remove_move :: "mq_cb \<Rightarrow> mq_cb" where
  "remove_move q = q\<lparr>mq_head := (mq_head q + 1) mod mq_size q\<rparr>"

inductive qstep :: "nat \<Rightarrow> shared_queue \<Rightarrow> shared_queue \<Rightarrow> bool" for n where
  p_test: "i < n \<Longrightarrow> producers s i = PIdle \<Longrightarrow> \<not> mq_is_full (qcb s) \<Longrightarrow>
    qstep n s (s\<lparr>producers := (producers s)(i := PTested f)\<rparr>)"
| p_lock: "i < n \<Longrightarrow> producers s i = PTested f \<Longrightarrow> \<not> mq_lock (qcb s) \<Longrightarrow>
    qstep n s (s\<lparr>qcb := (qcb s)\<lparr>mq_lock := True\<rparr>, producers := (producers s)(i := PLocked f)\<rparr>)"
| p_copy: "i < n \<Longrightarrow> producers s i = PLocked f \<Longrightarrow> append_copy (qcb s) f (slots s) = Some p \<Longrightarrow>
    qstep n s (s\<lparr>slots := p, producers := (producers s)(i := PCopied f)\<rparr>)"
| p_move: "i < n \<Longrightarrow> producers s i = PCopied f \<Longrightarrow>
    qstep n s (s\<lparr>qcb := append_move (qcb s), producers := (producers s)(i := PMoved),
                 pushed := pushed s @ [f]\<rparr>)"
| p_unlock: "i < n \<Longrightarrow> producers s i = PMoved \<Longrightarrow>
    qstep n s (s\<lparr>qcb := (qcb s)\<lparr>mq_lock := False\<rparr>, producers := (producers s)(i := PIdle)\<rparr>)"
| c_test: "consumer_pc s = CIdle \<Longrightarrow> \<not> mq_is_empty (qcb s) \<Longrightarrow>
    qstep n s (s\<lparr>consumer_pc := CTested\<rparr>)"
| c_lock: "consumer_pc s = CTested \<Longrightarrow> \<not> mq_lock (qcb s) \<Longrightarrow>
    qstep n s (s\<lparr>qcb := (qcb s)\<lparr>mq_lock := True\<rparr>, consumer_pc := CLocked\<rparr>)"
| c_copy: "consumer_pc s = CLocked \<Longrightarrow> remove_copy (qcb s) (slots s) = Some f \<Longrightarrow>
    qstep n s (s\<lparr>consumer_pc := CCopied f\<rparr>)"
| c_move: "consumer_pc s = CCopied f \<Longrightarrow>
    qstep n s (s\<lparr>qcb := remove_move (qcb s), consumer_pc := CMoved f, popped := popped s @ [f]\<rparr>)"
| c_unlock: "consumer_pc s = CMoved f \<Longrightarrow>
    qstep n s (s\<lparr>qcb := (qcb s)\<lparr>mq_lock := False\<rparr>, consumer_pc := CIdle\<rparr>)"

text \<open>The queue as \<open>mq_init\<close> leaves it, with no call in progress.\<close>

definition start_queue :: "nat \<Rightarrow> can_frame list \<Rightarrow> shared_queue" where
  "start_queue n p = \<lparr>qcb = \<lparr>mq_frames = 0, mq_head = 0, mq_tail = 0, mq_size = n, mq_lock = False\<rparr>,
     slots = p, producers = \<lambda>_. PIdle, consumer_pc = CIdle, pushed = [], popped = []\<rparr>"

text \<open>Within the lock the two accesses make up the sequential operation.\<close>

lemma append_steps:
  "mq_append_msg q f p = do { p' \<leftarrow> append_copy q f p; Some (append_move q, p') }"
  by (simp add: mq_append_msg_def append_copy_def append_move_def)

lemma remove_steps:
  "mq_remove_msg q p = do { f \<leftarrow> remove_copy q p; Some (f, remove_move q) }"
  by (simp add: mq_remove_msg_def remove_copy_def remove_move_def)

subsection \<open>One producer and one consumer\<close>

fun p_holds :: "producer \<Rightarrow> bool" where
  "p_holds (PLocked _) = True"
| "p_holds (PCopied _) = True"
| "p_holds PMoved = True"
| "p_holds _ = False"

fun c_holds :: "consumer \<Rightarrow> bool" where
  "c_holds CLocked = True"
| "c_holds (CCopied _) = True"
| "c_holds (CMoved _) = True"
| "c_holds _ = False"

text \<open>What each program counter has established.\<close>

fun p_ok :: "shared_queue \<Rightarrow> producer \<Rightarrow> bool" where
  "p_ok s (PTested f) \<longleftrightarrow> \<not> mq_is_full (qcb s)"
| "p_ok s (PLocked f) \<longleftrightarrow> \<not> mq_is_full (qcb s)"
| "p_ok s (PCopied f) \<longleftrightarrow> \<not> mq_is_full (qcb s) \<and> slots s ! (mq_frames (qcb s) + mq_tail (qcb s)) = f"
| "p_ok s _ \<longleftrightarrow> True"

fun c_ok :: "shared_queue \<Rightarrow> consumer \<Rightarrow> bool" where
  "c_ok s CTested \<longleftrightarrow> \<not> mq_is_empty (qcb s)"
| "c_ok s CLocked \<longleftrightarrow> \<not> mq_is_empty (qcb s)"
| "c_ok s (CCopied f) \<longleftrightarrow> \<not> mq_is_empty (qcb s) \<and> slots s ! (mq_frames (qcb s) + mq_head (qcb s)) = f"
| "c_ok s _ \<longleftrightarrow> True"

definition q_inv :: "shared_queue \<Rightarrow> bool" where
  "q_inv s \<longleftrightarrow> mq_wf ((qcb s)\<lparr>mq_lock := False\<rparr>) (slots s) \<and>
     (mq_lock (qcb s) \<longleftrightarrow> p_holds (producers s 0) \<or> c_holds (consumer_pc s)) \<and>
     \<not> (p_holds (producers s 0) \<and> c_holds (consumer_pc s)) \<and>
     p_ok s (producers s 0) \<and> c_ok s (consumer_pc s) \<and>
     pushed s = popped s @ mq_list (qcb s) (slots s)"

lemma mq_lock_tests [simp]:
  "mq_is_full (q\<lparr>mq_lock := l\<rparr>) = mq_is_full q" "mq_is_empty (q\<lparr>mq_lock := l\<rparr>) = mq_is_empty q"
  "mq_list (append_move (q\<lparr>mq_lock := l\<rparr>)) p = mq_list (append_move q) p"
  "mq_list (remove_move (q\<lparr>mq_lock := l\<rparr>)) p = mq_list (remove_move q) p"
  by (simp_all add: mq_is_full_def mq_is_empty_def append_move_def remove_move_def)

abbreviation mq_wfl :: "mq_cb \<Rightarrow> can_frame list \<Rightarrow> bool" where
  "mq_wfl q p \<equiv> mq_wf (q\<lparr>mq_lock := False\<rparr>) p"

lemma append_copy_keeps:
  assumes "mq_wfl q p" "append_copy q f p = Some p'"
  shows "mq_wfl q p'" "mq_list q p' = mq_list q p" "p' ! (mq_frames q + mq_tail q) = f"
    "\<not> mq_is_empty q \<Longrightarrow> p' ! (mq_frames q + mq_head q) = p ! (mq_frames q + mq_head q)"
proof -
  from assms have p': "p' = p[mq_frames q + mq_tail q := f]" "mq_frames q + mq_tail q < length p"
    by (auto simp: append_copy_def buf_write_def split: if_splits)
  show "mq_wfl q p'" "p' ! (mq_frames q + mq_tail q) = f" using assms p' by auto
  have "mq_slot q i \<noteq> mq_frames q + mq_tail q" if "i < mq_count q" for i
    using mq_slot_fresh [OF assms(1), of i] that by simp
  then show "mq_list q p' = mq_list q p" by (auto simp: mq_list_def p') (metis nth_list_update_neq)
  show "p' ! (mq_frames q + mq_head q) = p ! (mq_frames q + mq_head q)" if "\<not> mq_is_empty q"
    using that by (simp add: p' mq_is_empty_def)
qed

lemma append_move_list:
  assumes "mq_wfl q p" "\<not> mq_is_full q"
  shows "mq_wfl (append_move q) p"
    "mq_list (append_move q) p = mq_list q p @ [p ! (mq_frames q + mq_tail q)]"
    "mq_lock (append_move q) = mq_lock q" "\<not> mq_is_empty (append_move q)"
    "mq_head (append_move q) = mq_head q" "mq_frames (append_move q) = mq_frames q"
  using assms mq_append_msg_list [of "q\<lparr>mq_lock := False\<rparr>" p True "p ! (mq_frames q + mq_tail q)"]
  by (auto simp: append_steps append_copy_def append_move_def mq_wf_def mq_is_empty_def mq_is_full_def)

lemma remove_move_list:
  assumes "mq_wfl q p" "\<not> mq_is_empty q"
  shows "mq_wfl (remove_move q) p"
    "mq_list q p = p ! (mq_frames q + mq_head q) # mq_list (remove_move q) p"
    "mq_lock (remove_move q) = mq_lock q"
    "mq_tail (remove_move q) = mq_tail q" "mq_frames (remove_move q) = mq_frames q"
  using assms mq_remove_msg_list [of "q\<lparr>mq_lock := False\<rparr>" p True]
  by (auto simp: remove_steps remove_copy_def remove_move_def mq_wf_def)

lemma remove_not_full:
  assumes "mq_wfl q p" "\<not> mq_is_empty q"
  shows "\<not> mq_is_full (remove_move q)"
proof -
  have "length (mq_list (remove_move q) p) < length (mq_list q p)"
    using remove_move_list(2) [OF assms] by simp
  moreover have "mq_size (remove_move q) = mq_size q" by (simp add: remove_move_def)
  ultimately show ?thesis
    using mq_full_cap [OF remove_move_list(1) [OF assms]] mq_list_cap [OF assms(1)] by auto
qed

lemmas ring_moves = append_move_list remove_move_list remove_not_full append_copy_keeps

lemma p_ok_pc [simp]: "p_ok (s\<lparr>producers := a\<rparr>) = p_ok s" "p_ok (s\<lparr>consumer_pc := c\<rparr>) = p_ok s"
  "p_ok (s\<lparr>pushed := u\<rparr>) = p_ok s" "p_ok (s\<lparr>popped := u\<rparr>) = p_ok s"
  "c_ok (s\<lparr>producers := a\<rparr>) = c_ok s" "c_ok (s\<lparr>consumer_pc := c\<rparr>) = c_ok s"
  "c_ok (s\<lparr>pushed := u\<rparr>) = c_ok s" "c_ok (s\<lparr>popped := u\<rparr>) = c_ok s"
  by (rule ext, rename_tac x, case_tac x; simp)+

lemma q_inv_step:
  assumes "qstep 1 s s'" "q_inv s"
  shows "q_inv s'"
  using assms
proof (cases rule: qstep.cases)
  case (p_copy i f p)
  with assms(2) show ?thesis
    by (cases "consumer_pc s") (auto simp: q_inv_def append_copy_keeps)
next
  case (p_move i f)
  with assms(2) show ?thesis
    by (cases "consumer_pc s") (auto simp: q_inv_def append_move_list)
next
  case (c_move f)
  with assms(2) show ?thesis
    by (cases "producers s 0") (auto simp: q_inv_def remove_move_list remove_not_full)
next
  case (p_lock i f)
  with assms(2) show ?thesis by (cases "consumer_pc s") (auto simp: q_inv_def)
next
  case (p_unlock i)
  with assms(2) show ?thesis by (cases "consumer_pc s") (auto simp: q_inv_def)
next
  case c_lock
  with assms(2) show ?thesis by (cases "producers s 0") (auto simp: q_inv_def)
next
  case (c_unlock f)
  with assms(2) show ?thesis by (cases "producers s 0") (auto simp: q_inv_def)
next
  case (c_copy f)
  with assms(2) show ?thesis
    by (auto simp: q_inv_def remove_copy_def buf_read_def split: if_splits)
qed (auto simp: q_inv_def)

lemma q_inv_start: "0 < n \<Longrightarrow> n \<le> length p \<Longrightarrow> q_inv (start_queue n p)"
  by (simp add: q_inv_def start_queue_def mq_wf_def mq_list_def mq_count_def)

lemma q_inv_reachable:
  assumes "(qstep 1)\<^sup>*\<^sup>* (start_queue n p) s" "0 < n" "n \<le> length p"
  shows "q_inv s"
  using assms(1) by induction (auto simp: q_inv_start assms q_inv_step)

text \<open>The steps a call in progress still has to make.\<close>

fun p_left :: "producer \<Rightarrow> nat" where
  "p_left PIdle = 0"
| "p_left (PTested _) = 4"
| "p_left (PLocked _) = 3"
| "p_left (PCopied _) = 2"
| "p_left PMoved = 1"

fun c_left :: "consumer \<Rightarrow> nat" where
  "c_left CIdle = 0"
| "c_left CTested = 4"
| "c_left CLocked = 3"
| "c_left (CCopied _) = 2"
| "c_left (CMoved _) = 1"

definition steps_left :: "shared_queue \<Rightarrow> nat" where
  "steps_left s = p_left (producers s 0) + c_left (consumer_pc s)"

lemma producer_progress:
  assumes "q_inv s" "p_holds (producers s 0) \<or> \<not> mq_lock (qcb s) \<and> producers s 0 \<noteq> PIdle"
  shows "\<exists>s'. qstep 1 s s' \<and> steps_left s' < steps_left s"
proof (cases "producers s 0")
  case (PLocked f)
  moreover from assms(1) obtain p where "append_copy (qcb s) f (slots s) = Some p"
    by (auto simp: q_inv_def append_copy_def mq_wf_def)
  ultimately show ?thesis by (auto intro!: exI p_copy [of 0] simp: steps_left_def)
qed (use assms in \<open>auto intro!: exI qstep.p_lock [of 0] p_move [of 0] p_unlock [of 0] simp: steps_left_def\<close>)

lemma consumer_progress:
  assumes "q_inv s" "c_holds (consumer_pc s) \<or> \<not> mq_lock (qcb s) \<and> consumer_pc s \<noteq> CIdle"
  shows "\<exists>s'. qstep 1 s s' \<and> steps_left s' < steps_left s"
proof (cases "consumer_pc s")
  case CLocked
  moreover from assms(1) obtain f where "remove_copy (qcb s) (slots s) = Some f"
    by (auto simp: q_inv_def remove_copy_def mq_wf_def)
  ultimately show ?thesis by (auto intro!: exI c_copy simp: steps_left_def)
qed (use assms in \<open>auto intro!: exI c_lock c_move c_unlock simp: steps_left_def\<close>)

lemma calls_finish:
  assumes "q_inv s"
  shows "\<exists>s'. (qstep 1)\<^sup>*\<^sup>* s s' \<and> producers s' 0 = PIdle \<and> consumer_pc s' = CIdle"
  using assms
proof (induction "steps_left s" arbitrary: s rule: less_induct)
  case less
  show ?case
  proof (cases "producers s 0 = PIdle \<and> consumer_pc s = CIdle")
    case False
    then have "\<exists>s'. qstep 1 s s' \<and> steps_left s' < steps_left s"
      using producer_progress [OF less.prems] consumer_progress [OF less.prems] less.prems
      by (auto simp: q_inv_def)
    then show ?thesis
      using less by (meson converse_rtranclp_into_rtranclp q_inv_step)
  qed blast
qed

subsection \<open>Properties\<close>

text \<open>
  C13. In every interleaving of one producer and one consumer on a queue, from its
  initialisation on, the frames appended so far are exactly the frames removed so far
  followed by the frames the queue holds, the lock is held by at most one of them, and the
  calls in progress can run to their end: although the full and empty tests are made
  outside the lock, no frame is lost or overwritten and nobody deadlocks.
\<close>

theorem spsc_queue_correct:
  assumes "(qstep 1)\<^sup>*\<^sup>* (start_queue n p) s" "0 < n" "n \<le> length p"
  shows "pushed s = popped s @ mq_list (qcb s) (slots s) \<and>
    \<not> (p_holds (producers s 0) \<and> c_holds (consumer_pc s)) \<and>
    (\<exists>s'. (qstep 1)\<^sup>*\<^sup>* s s' \<and> producers s' 0 = PIdle \<and> consumer_pc s' = CIdle)"
  using q_inv_reachable [OF assms] calls_finish by (auto simp: q_inv_def)

theorem spsc_queue_correct_witness:
  "(let s = (start_queue 2 [sample_frame 0, sample_frame 0])\<lparr>producers := (\<lambda>_. PIdle)(0 := PTested (sample_frame 5))\<rparr>
    in pushed s = popped s @ mq_list (qcb s) (slots s) \<and>
       (\<exists>s'. (qstep 1)\<^sup>*\<^sup>* s s' \<and> producers s' 0 = PIdle \<and> consumer_pc s' = CIdle))"
proof -
  have "qstep 1 (start_queue 2 [sample_frame 0, sample_frame 0])
      ((start_queue 2 [sample_frame 0, sample_frame 0])\<lparr>producers := (\<lambda>_. PIdle)(0 := PTested (sample_frame 5))\<rparr>)"
    using p_test [of 0 1 "start_queue 2 [sample_frame 0, sample_frame 0]" "sample_frame 5"]
    by (simp add: start_queue_def mq_is_full_def)
  from spsc_queue_correct [OF r_into_rtranclp [of "qstep 1", OF this]] show ?thesis
    by (simp add: Let_def)
qed

text \<open>
  C35. With two producers the unlocked full test loses messages: on a queue with room for
  one frame both producers can see the free slot, and after both have completed their push
  two frames have been accepted, none has been removed, and the queue is empty.
\<close>

theorem two_producers_lose_messages:
  "\<exists>s. (qstep 2)\<^sup>*\<^sup>* (start_queue 2 [a, b]) s \<and> pushed s = [f, g] \<and> popped s = [] \<and>
     producers s 0 = PIdle \<and> producers s 1 = PIdle \<and> mq_list (qcb s) (slots s) = []"
proof -
  note step = converse_rtranclp_into_rtranclp [of "qstep 2"]
  note defs = start_queue_def mq_is_full_def append_copy_def append_move_def
  show ?thesis
    apply (intro exI conjI)
         apply (rule step [OF p_test [where i = 0 and f = f]]; (simp add: defs)?)
         apply (rule step [OF p_test [where i = 1 and f = g]]; (simp add: defs)?)
         apply (rule step [OF qstep.p_lock [where i = 0 and f = f]]; (simp add: defs)?)
         apply (rule step [OF p_copy [where i = 0 and f = f]]; (simp add: defs)?)
         apply (rule step [OF p_move [where i = 0 and f = f]]; (simp add: defs)?)
         apply (rule step [OF p_unlock [where i = 0]]; (simp add: defs)?)
         apply (rule step [OF qstep.p_lock [where i = 1 and f = g]]; (simp add: defs)?)
         apply (rule step [OF p_copy [where i = 1 and f = g]]; (simp add: defs)?)
         apply (rule step [OF p_move [where i = 1 and f = g]]; (simp add: defs)?)
         apply (rule step [OF p_unlock [where i = 1]]; (simp add: defs)?)
         apply (rule rtranclp.rtrancl_refl)
    by (simp_all add: mq_list_def mq_count_def)
qed

end
