(* ===== verification/Spi_Bus.thy ===== *)
theory Spi_Bus
  imports Prelude
begin

text \<open>
  The SPI component, \<open>components/spi/src/spi.c\<close>, with the chip-select functions it calls
  in the GPIO component (\<open>CS_FUNC\<close> of \<open>components/gpio/src/gpio.c\<close>) and the shared
  port of \<open>include/spi_inf.h\<close>.

  The platform library is not part of the repository: \<open>spi_xfer\<close>,
  \<open>spi_prepare_transfer\<close>, \<open>gpio_set\<close> and \<open>gpio_clr\<close> are the fields of the record
  \<open>platform\<close>, which every operation takes as an argument, over a type \<open>'hw\<close> of
  hardware states. \<open>spi_xfer\<close> returns its own return code, the status its completion
  callback is given (\<open>None\<close> when the callback is never called), the receive buffer and
  the hardware state after it. \<open>ndebug\<close> says whether assertions are compiled out. The
  delay of \<open>chip_select\<close> has no effect on the modelled state.
\<close>

subsection \<open>Model\<close>

definition SPI_TRANS_MAX_SIZE :: nat where "SPI_TRANS_MAX_SIZE = 255"
definition CAN_APP_ID :: int where "CAN_APP_ID = 1"

text \<open>The shared port; the \<open>lock\<close> field it also declares is read and written by no code.\<close>

record spi_dev_port =
  txbuf :: "byte list"
  rxbuf :: "byte list"

datatype cs_line = spi_can_nss | spi_mpu_nss | spi_acc_mag_nss | spi_gyro_nss | spi_baro_nss | spi_ext_nss

record spi_slave_config =
  speed_hz :: nat
  nss_udelay :: nat
  fb_delay :: nat

text \<open>\<open>slave_port\<close> is whether the entry names a data port; the only one is \<open>spi1_can\<close>.\<close>

record spi_slave =
  slave_id :: int
  slave_port :: bool
  slave_cs :: cs_line
  slave_cfg :: spi_slave_config

record 'hw platform =
  spi_xfer :: "byte list \<Rightarrow> nat \<Rightarrow> byte list \<Rightarrow> nat \<Rightarrow> 'hw \<Rightarrow> int \<times> int option \<times> byte list \<times> 'hw"
  spi_prepare_transfer :: "spi_slave_config \<Rightarrow> 'hw \<Rightarrow> 'hw"
  gpio_set :: "cs_line \<Rightarrow> 'hw \<Rightarrow> 'hw"
  gpio_clr :: "cs_line \<Rightarrow> 'hw \<Rightarrow> 'hw"
  ndebug :: bool

text \<open>
  The component's state: the slave the bus was last configured for, the semaphore the
  transferring thread waits on, the status word the callback stores through its token
  (\<open>None\<close> while it is uninitialised) and the hardware.
\<close>

record 'hw spi_state =
  cur_slave_id :: int
  bus_sem :: nat
  xfer_status :: "int option"
  hw :: 'hw

definition SLAVE_PARAMS :: "int \<Rightarrow> bool \<Rightarrow> nat \<Rightarrow> nat \<Rightarrow> nat \<Rightarrow> cs_line \<Rightarrow> spi_slave" where
  "SLAVE_PARAMS i p s d f g = \<lparr>slave_id = i, slave_port = p, slave_cs = g,
     slave_cfg = \<lparr>speed_hz = s, nss_udelay = d, fb_delay = f\<rparr>\<rparr>"

definition slave_params :: "spi_slave list" where
  "slave_params =
    [SLAVE_PARAMS CAN_APP_ID True 10000000 10 1 spi_can_nss,
     SLAVE_PARAMS (-1) False 0 0 0 spi_mpu_nss,
     SLAVE_PARAMS (-1) False 0 0 0 spi_acc_mag_nss,
     SLAVE_PARAMS (-1) False 0 0 0 spi_gyro_nss,
     SLAVE_PARAMS (-1) False 0 0 0 spi_baro_nss,
     SLAVE_PARAMS (-1) False 0 0 0 spi_ext_nss]"

definition get_slave :: "int \<Rightarrow> spi_slave option" where
  "get_slave i = find (\<lambda>s. slave_id s = i) slave_params"

definition SPI_CS_RELEASE :: int where "SPI_CS_RELEASE = 1"
definition SPI_CS_ASSERT :: int where "SPI_CS_ASSERT = 0"

text \<open>The function \<open>CS_FUNC\<close> defines for a line.\<close>

definition cs_func :: "'hw platform \<Rightarrow> cs_line \<Rightarrow> int \<Rightarrow> 'hw \<Rightarrow> 'hw" where
  "cs_func pf line level h = (if level \<noteq> 0 then gpio_set pf line h else gpio_clr pf line h)"

definition chip_select :: "'hw platform \<Rightarrow> spi_slave \<Rightarrow> int \<Rightarrow> 'hw spi_state \<Rightarrow> 'hw spi_state" where
  "chip_select pf slave level st = st\<lparr>hw := cs_func pf (slave_cs slave) level (hw st)\<rparr>"

definition spi_complete_callback :: "int \<Rightarrow> 'hw spi_state \<Rightarrow> 'hw spi_state" where
  "spi_complete_callback status st = st\<lparr>xfer_status := Some status, bus_sem := bus_sem st + 1\<rparr>"

definition bus_sem_wait :: "'hw spi_state \<Rightarrow> 'hw spi_state option" where
  "bus_sem_wait st = (if bus_sem st = 0 then None else Some (st\<lparr>bus_sem := bus_sem st - 1\<rparr>))"

text \<open>The component after \<open>spi__init\<close>: its semaphore, created with one permit, has been primed.\<close>

definition spi_comp_init :: "'hw \<Rightarrow> 'hw spi_state option" where
  "spi_comp_init h = bus_sem_wait \<lparr>cur_slave_id = -1, bus_sem = 1, xfer_status = None, hw = h\<rparr>"

definition do_spi_transfer ::
  "'hw platform \<Rightarrow> spi_slave \<Rightarrow> byte list \<Rightarrow> nat \<Rightarrow> byte list \<Rightarrow> nat \<Rightarrow> 'hw spi_state \<Rightarrow>
    (int \<times> byte list \<times> 'hw spi_state) option" where
  "do_spi_transfer pf slave tx wcount rx rcount st0 = do {
     let st = (if cur_slave_id st0 \<noteq> slave_id slave
               then st0\<lparr>hw := spi_prepare_transfer pf (slave_cfg slave) (hw st0), cur_slave_id := slave_id slave\<rparr>
               else st0);
     let st = (chip_select pf slave SPI_CS_ASSERT st)\<lparr>xfer_status := None\<rparr>;
     let (ret, fin, rx', h) = spi_xfer pf tx wcount rx rcount (hw st);
     let st = st\<lparr>hw := h\<rparr>;
     let st = (case fin of None \<Rightarrow> st | Some status \<Rightarrow> spi_complete_callback status st);
     (ret, st) \<leftarrow> (if ret \<ge> 0 then do {
         st \<leftarrow> bus_sem_wait st;
         status \<leftarrow> xfer_status st;
         Some (status, st) }
       else Some (ret, st));
     Some (ret, rx', chip_select pf slave SPI_CS_RELEASE st) }"

definition spi_transfer ::
  "'hw platform \<Rightarrow> int \<Rightarrow> nat \<Rightarrow> nat \<Rightarrow> spi_dev_port \<Rightarrow> 'hw spi_state \<Rightarrow>
    (int \<times> spi_dev_port \<times> 'hw spi_state) option" where
  "spi_transfer pf i wcount rcount p st = (case get_slave i of
     None \<Rightarrow> if ndebug pf then Some (-1, p, st) else None
   | Some slave \<Rightarrow>
       if slave_port slave then do {
         (ret, rx, st) \<leftarrow> do_spi_transfer pf slave (txbuf p) wcount (rxbuf p) rcount st;
         Some (ret, p\<lparr>rxbuf := rx\<rparr>, st) }
       else None)"

text \<open>
  \<open>spi_transfer_byte\<close> sends its argument and returns the second byte of a two-byte
  buffer on its stack, which starts out as \<open>garbage\<close> (a \<open>char\<close> is unsigned on ARM).
\<close>

definition spi_transfer_byte ::
  "'hw platform \<Rightarrow> byte list \<Rightarrow> int \<Rightarrow> byte \<Rightarrow> 'hw spi_state \<Rightarrow> (int \<times> 'hw spi_state) option" where
  "spi_transfer_byte pf garbage i b st = (case get_slave i of
     None \<Rightarrow> if ndebug pf then Some (-1, st) else None
   | Some slave \<Rightarrow> do {
       (ret, data, st) \<leftarrow> do_spi_transfer pf slave [b] 1 garbage 1 st;
       if ret < 0 then Some (ret, st)
       else do { v \<leftarrow> buf_read data 1; Some (uint v, st) } })"

subsection \<open>What the platform promises\<close>

text \<open>
  The pins: \<open>level h line\<close> is the level of a chip-select line. \<open>gpio_set\<close> drives a line
  high, \<open>gpio_clr\<close> drives it low, and the bus functions leave the lines alone.
\<close>

definition pins_ok :: "'hw platform \<Rightarrow> ('hw \<Rightarrow> cs_line \<Rightarrow> bool) \<Rightarrow> bool" where
  "pins_ok pf level \<longleftrightarrow>
     (\<forall>l h. level (gpio_set pf l h) = (level h)(l := True)) \<and>
     (\<forall>l h. level (gpio_clr pf l h) = (level h)(l := False)) \<and>
     (\<forall>c h. level (spi_prepare_transfer pf c h) = level h) \<and>
     (\<forall>tx w rx r h. level (snd (snd (snd (spi_xfer pf tx w rx r h)))) = level h)"

text \<open>No device is selected; only one is.\<close>

definition released :: "cs_line \<Rightarrow> bool" where
  "released = (\<lambda>_. True)"

definition selected :: "cs_line \<Rightarrow> cs_line \<Rightarrow> bool" where
  "selected l = released(l := False)"

subsection \<open>Lemmas\<close>

lemma pins_okD:
  assumes "pins_ok pf level"
  shows "level (gpio_set pf l h) = (level h)(l := True)"
    "level (gpio_clr pf l h) = (level h)(l := False)"
    "level (spi_prepare_transfer pf c h) = level h"
    "spi_xfer pf tx w rx r h = (ret, fin, rx', h') \<Longrightarrow> level h' = level h"
  using assms by (simp_all add: pins_ok_def) (metis snd_conv)

lemma selected_release [simp]: "(selected l)(l := True) = released" "released(l := False) = selected l"
  by (auto simp: selected_def released_def)

definition can_slave :: spi_slave where
  "can_slave = SLAVE_PARAMS CAN_APP_ID True 10000000 10 1 spi_can_nss"

lemma get_slave_simps [simp]:
  "get_slave CAN_APP_ID = Some can_slave"
  "get_slave (-1) = Some (SLAVE_PARAMS (-1) False 0 0 0 spi_mpu_nss)"
  "i \<noteq> 1 \<Longrightarrow> i \<noteq> -1 \<Longrightarrow> get_slave i = None"
  by (simp_all add: get_slave_def slave_params_def SLAVE_PARAMS_def CAN_APP_ID_def can_slave_def)

lemma SLAVE_PARAMS_sel [simp]:
  "slave_id (SLAVE_PARAMS i p s d f g) = i" "slave_port (SLAVE_PARAMS i p s d f g) = p"
  "slave_cs (SLAVE_PARAMS i p s d f g) = g"
  "slave_id can_slave = CAN_APP_ID" "slave_port can_slave" "slave_cs can_slave = spi_can_nss"
  by (simp_all add: SLAVE_PARAMS_def can_slave_def)

text \<open>The hardware state in which the transfer takes place.\<close>

definition bus_ready :: "'hw platform \<Rightarrow> spi_slave \<Rightarrow> 'hw spi_state \<Rightarrow> 'hw" where
  "bus_ready pf slave st = gpio_clr pf (slave_cs slave)
     (if cur_slave_id st \<noteq> slave_id slave then spi_prepare_transfer pf (slave_cfg slave) (hw st) else hw st)"

lemma bus_ready_level:
  "pins_ok pf level \<Longrightarrow> level (hw st) = released \<Longrightarrow> level (bus_ready pf slave st) = selected (slave_cs slave)"
  by (auto simp: bus_ready_def pins_okD selected_def released_def)

lemma do_spi_transfer_complete:
  assumes "spi_xfer pf tx w rx r (bus_ready pf slave st) = (ret, Some status, rx', h)" "0 \<le> ret"
  shows "do_spi_transfer pf slave tx w rx r st = Some (status, rx',
    st\<lparr>cur_slave_id := slave_id slave, xfer_status := Some status, hw := gpio_set pf (slave_cs slave) h\<rparr>)"
  using assms by (auto simp: do_spi_transfer_def bus_ready_def chip_select_def cs_func_def bus_sem_wait_def
      spi_complete_callback_def SPI_CS_ASSERT_def SPI_CS_RELEASE_def Let_def)

lemma do_spi_transfer_refused:
  assumes "spi_xfer pf tx w rx r (bus_ready pf slave st) = (ret, None, rx', h)" "ret < 0"
  shows "do_spi_transfer pf slave tx w rx r st = Some (ret, rx',
    st\<lparr>cur_slave_id := slave_id slave, xfer_status := None, hw := gpio_set pf (slave_cs slave) h\<rparr>)"
  using assms by (auto simp: do_spi_transfer_def bus_ready_def chip_select_def cs_func_def bus_sem_wait_def
      spi_complete_callback_def SPI_CS_ASSERT_def SPI_CS_RELEASE_def Let_def)

text \<open>What any call that returns has fin.\<close>

lemma do_spi_transfer_cases:
  assumes "do_spi_transfer pf slave tx w rx r st = Some (ret, rx', st')"
  obtains ret0 fin h where "spi_xfer pf tx w rx r (bus_ready pf slave st) = (ret0, fin, rx', h)"
    "hw st' = gpio_set pf (slave_cs slave) h" "cur_slave_id st' = slave_id slave"
    "ret0 < 0 \<and> ret = ret0 \<or> 0 \<le> ret0 \<and> fin = Some ret"
  using assms
  by (cases "spi_xfer pf tx w rx r (bus_ready pf slave st)")
    (auto simp: do_spi_transfer_def bus_ready_def chip_select_def cs_func_def bus_sem_wait_def
      spi_complete_callback_def SPI_CS_ASSERT_def SPI_CS_RELEASE_def Let_def
      split: option.splits if_splits bind_splits)

lemma spi_transfer_can:
  "spi_transfer pf CAN_APP_ID w r p st = do {
     (ret, rx, st) \<leftarrow> do_spi_transfer pf can_slave (txbuf p) w (rxbuf p) r st;
     Some (ret, p\<lparr>rxbuf := rx\<rparr>, st) }"
  by (simp add: spi_transfer_def)

subsection \<open>Properties\<close>

text \<open>
  C40. Chip-select discipline. If no device on the SPI bus is selected and a transfer on
  behalf of the CAN component returns, then the bytes were exchanged while the CAN
  controller, and no other device, was selected; the result is the platform's error or the
  status the completion callback stored; the caller's transmit buffer is untouched; and
  every chip-select line is high again, on the error paths too.
\<close>

theorem spi_transfer_chip_select:
  assumes "pins_ok pf level" "level (hw st) = released"
    and "spi_transfer pf CAN_APP_ID w r p st = Some (ret, p', st')"
  shows "level (hw st') = released \<and> txbuf p' = txbuf p \<and>
    (\<exists>h ret0 fin h'. level h = selected spi_can_nss \<and>
      spi_xfer pf (txbuf p) w (rxbuf p) r h = (ret0, fin, rxbuf p', h') \<and>
      (if ret0 < 0 then ret = ret0 else fin = Some ret))"
proof -
  from assms(3) obtain rx' where d: "do_spi_transfer pf can_slave (txbuf p) w (rxbuf p) r st = Some (ret, rx', st')"
    and p': "p' = p\<lparr>rxbuf := rx'\<rparr>" by (auto simp: spi_transfer_can split: bind_splits)
  from d obtain ret0 fin h where x: "spi_xfer pf (txbuf p) w (rxbuf p) r (bus_ready pf can_slave st) = (ret0, fin, rx', h)"
    "hw st' = gpio_set pf spi_can_nss h" "ret0 < 0 \<and> ret = ret0 \<or> 0 \<le> ret0 \<and> fin = Some ret"
    by (rule do_spi_transfer_cases) auto
  from bus_ready_level [OF assms(1,2), of can_slave] have sel: "level (bus_ready pf can_slave st) = selected spi_can_nss"
    by simp
  with x assms(1) have "level (hw st') = released" by (simp add: pins_okD(1,4))
  moreover have "if ret0 < 0 then ret = ret0 else fin = Some ret" using x(3) by auto
  ultimately show ?thesis using sel x(1) p'
    by (intro conjI exI [of _ "bus_ready pf can_slave st"] exI [of _ ret0] exI [of _ fin] exI [of _ h]) simp_all
qed

definition quiet_platform :: "(cs_line \<Rightarrow> bool) platform" where
  "quiet_platform = \<lparr>spi_xfer = \<lambda>tx w rx r h. (0, Some 0, rx, h),
     spi_prepare_transfer = \<lambda>c h. h, gpio_set = \<lambda>l h. h(l := True), gpio_clr = \<lambda>l h. h(l := False),
     ndebug = True\<rparr>"

theorem spi_transfer_chip_select_witness:
  "\<exists>ret p' st'.
    spi_transfer quiet_platform CAN_APP_ID 1 0 \<lparr>txbuf = [1], rxbuf = [0]\<rparr>
      \<lparr>cur_slave_id = -1, bus_sem = 0, xfer_status = None, hw = released\<rparr> = Some (ret, p', st') \<and>
    hw st' = released \<and> txbuf p' = [1]"
proof -
  let ?p = "\<lparr>txbuf = [1], rxbuf = [0]\<rparr> :: spi_dev_port"
  let ?st = "\<lparr>cur_slave_id = -1, bus_sem = 0, xfer_status = None, hw = released\<rparr>"
  have "pins_ok quiet_platform (\<lambda>h. h)" by (simp add: pins_ok_def quiet_platform_def)
  moreover have "\<exists>ret p' st'. spi_transfer quiet_platform CAN_APP_ID 1 0 ?p ?st = Some (ret, p', st')"
    by (simp add: spi_transfer_can do_spi_transfer_complete quiet_platform_def)
  ultimately show ?thesis
    using spi_transfer_chip_select [of quiet_platform "\<lambda>h. h" ?st 1 0 ?p] by auto
qed

end
