(* ===== verification/Mcp2515_Spi.thy ===== *)
theory Mcp2515_Spi
  imports Spi_Bus
begin

text \<open>
  The register map of the MCP2515 CAN controller (\<open>components/can/include/mcp2515.h\<close>)
  and its SPI instruction set as the CAN component issues it
  (\<open>components/can/src/spi_cmd.c\<close>). The instructions run through the SPI component of
  \<open>Spi_Bus\<close>; \<open>spi_cmd.c\<close> drops the return code of \<open>spi_transfer\<close>, and so does the
  model. The controller chip itself is not part of the repository: the last section
  states, as a predicate on the platform, what its data sheet promises of the
  instructions the driver uses.
\<close>

subsection \<open>Register map\<close>

definition BIT :: "nat \<Rightarrow> byte" where "BIT n = push_bit n 1"

definition TXBCTRL :: "nat \<Rightarrow> byte" where "TXBCTRL n = push_bit 4 (of_nat n + 0x3)"
definition TXBSIDH :: "nat \<Rightarrow> byte" where "TXBSIDH n = TXBCTRL n + 0x1"
definition TXBCTRL_TXREQ :: byte where "TXBCTRL_TXREQ = BIT 3"
definition RXBCTRL :: "nat \<Rightarrow> byte" where "RXBCTRL n = push_bit 4 (of_nat n + 0x6)"
definition RXBSIDH :: "nat \<Rightarrow> byte" where "RXBSIDH n = RXBCTRL n + 0x1"
definition RXFSIDH :: "nat \<Rightarrow> byte" where "RXFSIDH n = push_bit 2 (of_nat n)"
definition RXMSIDH :: "nat \<Rightarrow> byte" where "RXMSIDH n = push_bit 2 (of_nat n) + 0x20"

definition CANSTAT :: byte where "CANSTAT = 0xE"
definition CANCTRL :: byte where "CANCTRL = 0xF"
definition CANINTE :: byte where "CANINTE = 0x2B"
definition CANINTF :: byte where "CANINTF = 0x2C"
definition CANSTAT_OPMOD_SHF :: nat where "CANSTAT_OPMOD_SHF = 5"
definition CANCTRL_REQOP_MASK :: byte where "CANCTRL_REQOP_MASK = 0xE0"
definition CANCTRL_REQOP_SHF :: nat where "CANCTRL_REQOP_SHF = 5"

definition CANINTE_MERRE :: byte where "CANINTE_MERRE = BIT 7"
definition CANINTE_ERRIE :: byte where "CANINTE_ERRIE = BIT 5"
definition CANINTE_TX2IE :: byte where "CANINTE_TX2IE = BIT 4"
definition CANINTE_TX1IE :: byte where "CANINTE_TX1IE = BIT 3"
definition CANINTE_TX0IE :: byte where "CANINTE_TX0IE = BIT 2"
definition CANINTE_RX1IE :: byte where "CANINTE_RX1IE = BIT 1"
definition CANINTE_RX0IE :: byte where "CANINTE_RX0IE = BIT 0"

definition CANINTF_MERRF :: byte where "CANINTF_MERRF = BIT 7"
definition CANINTF_WAKIF :: byte where "CANINTF_WAKIF = BIT 6"
definition CANINTF_ERRIF :: byte where "CANINTF_ERRIF = BIT 5"
definition CANINTF_TX2IF :: byte where "CANINTF_TX2IF = BIT 4"
definition CANINTF_TX1IF :: byte where "CANINTF_TX1IF = BIT 3"
definition CANINTF_TX0IF :: byte where "CANINTF_TX0IF = BIT 2"
definition CANINTF_RX1IF :: byte where "CANINTF_RX1IF = BIT 1"
definition CANINTF_RX0IF :: byte where "CANINTF_RX0IF = BIT 0"

definition EFLG :: byte where "EFLG = 0x2D"
definition EFLG_RX1OVR :: byte where "EFLG_RX1OVR = BIT 7"
definition EFLG_RX0OVR :: byte where "EFLG_RX0OVR = BIT 6"

definition CNF3 :: byte where "CNF3 = 0x28"
definition CNF1_SJW_SHF :: nat where "CNF1_SJW_SHF = 6"
definition CNF2_BTLMODE :: byte where "CNF2_BTLMODE = BIT 7"
definition CNF2_PHSEG1_SHF :: nat where "CNF2_PHSEG1_SHF = 3"

definition CMD_RESET :: byte where "CMD_RESET = 0xC0"
definition CMD_READ :: byte where "CMD_READ = 0x03"
definition CMD_READ_RXB :: byte where "CMD_READ_RXB = 0x90"
definition CMD_WRITE :: byte where "CMD_WRITE = 0x02"
definition CMD_LOAD_TXB :: byte where "CMD_LOAD_TXB = 0x40"
definition CMD_RTS :: byte where "CMD_RTS = 0x80"
definition CMD_READ_STATUS :: byte where "CMD_READ_STATUS = 0xA0"
definition CMD_RX_STATUS :: byte where "CMD_RX_STATUS = 0xB0"
definition CMD_BIT_MODIFY :: byte where "CMD_BIT_MODIFY = 0x05"

datatype op_mode = REQOP_NORMAL | REQOP_SLEEP | REQOP_LOOP | REQOP_LISTEN | REQOP_CONFIG

primrec mode_code :: "op_mode \<Rightarrow> byte" where
  "mode_code REQOP_NORMAL = 0"
| "mode_code REQOP_SLEEP = 1"
| "mode_code REQOP_LOOP = 2"
| "mode_code REQOP_LISTEN = 3"
| "mode_code REQOP_CONFIG = 4"

lemmas mcp_consts [model_defs] = BIT_def TXBCTRL_def TXBSIDH_def TXBCTRL_TXREQ_def RXBCTRL_def RXBSIDH_def
  RXFSIDH_def RXMSIDH_def CANSTAT_def CANCTRL_def CANINTE_def CANINTF_def CANSTAT_OPMOD_SHF_def
  CANCTRL_REQOP_MASK_def CANCTRL_REQOP_SHF_def CANINTE_MERRE_def CANINTE_ERRIE_def CANINTE_TX2IE_def
  CANINTE_TX1IE_def CANINTE_TX0IE_def CANINTE_RX1IE_def CANINTE_RX0IE_def CANINTF_MERRF_def CANINTF_WAKIF_def
  CANINTF_ERRIF_def CANINTF_TX2IF_def CANINTF_TX1IF_def CANINTF_TX0IF_def CANINTF_RX1IF_def CANINTF_RX0IF_def
  EFLG_def EFLG_RX1OVR_def EFLG_RX0OVR_def CNF3_def CNF1_SJW_SHF_def CNF2_BTLMODE_def CNF2_PHSEG1_SHF_def

lemmas mcp_cmds [model_defs] = CMD_RESET_def CMD_READ_def CMD_READ_RXB_def CMD_WRITE_def CMD_LOAD_TXB_def
  CMD_RTS_def CMD_READ_STATUS_def CMD_RX_STATUS_def CMD_BIT_MODIFY_def

subsection \<open>SPI commands\<close>

text \<open>
  The state of \<open>spi_cmd.c\<close>: whether \<open>spi_dev\<close> points at the data port, the lock that
  makes a command one transaction, the data port and the SPI component behind it. The
  record is extended by the other files of the CAN component.
\<close>

record 'hw spi_client =
  spi_dev :: bool
  spi_lock :: bool
  spi_can :: spi_dev_port
  spi_srv :: "'hw spi_state"

definition spi__init :: "('hw, 'z) spi_client_scheme \<Rightarrow> ('hw, 'z) spi_client_scheme" where
  "spi__init s = s\<lparr>spi_dev := True, spi_lock := False\<rparr>"

definition lock_spi :: "('hw, 'z) spi_client_scheme \<Rightarrow> ('hw, 'z) spi_client_scheme option" where
  "lock_spi s = do { l \<leftarrow> sync_spinlock_lock (spi_lock s); Some (s\<lparr>spi_lock := l\<rparr>) }"

definition unlock_spi :: "('hw, 'z) spi_client_scheme \<Rightarrow> ('hw, 'z) spi_client_scheme" where
  "unlock_spi s = s\<lparr>spi_lock := False\<rparr>"

text \<open>Stores to \<open>spi_dev->txbuf\<close> from an index on, loads from \<open>spi_dev->rxbuf\<close>, and the call of the SPI component.\<close>

definition put_tx :: "nat \<Rightarrow> byte list \<Rightarrow> ('hw, 'z) spi_client_scheme \<Rightarrow> ('hw, 'z) spi_client_scheme option" where
  "put_tx i bs s = (if spi_dev s then do {
     b \<leftarrow> buf_copy (txbuf (spi_can s)) i bs;
     Some (s\<lparr>spi_can := (spi_can s)\<lparr>txbuf := b\<rparr>\<rparr>) } else None)"

definition get_rx :: "nat \<Rightarrow> nat \<Rightarrow> ('hw, 'z) spi_client_scheme \<Rightarrow> byte list option" where
  "get_rx i n s = (if spi_dev s \<and> i + n \<le> length (rxbuf (spi_can s))
     then Some (take n (drop i (rxbuf (spi_can s)))) else None)"

definition transfer :: "'hw platform \<Rightarrow> nat \<Rightarrow> nat \<Rightarrow> ('hw, 'z) spi_client_scheme \<Rightarrow> ('hw, 'z) spi_client_scheme option" where
  "transfer pf wcount rcount s = do {
     (_, p, st) \<leftarrow> spi_transfer pf CAN_APP_ID wcount rcount (spi_can s) (spi_srv s);
     Some (s\<lparr>spi_can := p, spi_srv := st\<rparr>) }"

definition mcp2515_reset :: "'hw platform \<Rightarrow> ('hw, 'z) spi_client_scheme \<Rightarrow> ('hw, 'z) spi_client_scheme option" where
  "mcp2515_reset pf s = do {
     s \<leftarrow> lock_spi s;
     s \<leftarrow> put_tx 0 [CMD_RESET] s;
     s \<leftarrow> transfer pf 1 0 s;
     Some (unlock_spi s) }"

definition mcp2515_read_reg ::
  "'hw platform \<Rightarrow> byte \<Rightarrow> ('hw, 'z) spi_client_scheme \<Rightarrow> (byte \<times> ('hw, 'z) spi_client_scheme) option" where
  "mcp2515_read_reg pf reg s = do {
     s \<leftarrow> lock_spi s;
     s \<leftarrow> put_tx 0 [CMD_READ, reg] s;
     s \<leftarrow> transfer pf 2 1 s;
     ret \<leftarrow> get_rx 2 1 s;
     Some (hd ret, unlock_spi s) }"

text \<open>A null buffer is \<open>None\<close>; the calls that fill a buffer return it updated.\<close>

definition mcp2515_read_nregs ::
  "'hw platform \<Rightarrow> byte \<Rightarrow> nat \<Rightarrow> byte list option \<Rightarrow> ('hw, 'z) spi_client_scheme \<Rightarrow>
    (byte list option \<times> ('hw, 'z) spi_client_scheme) option" where
  "mcp2515_read_nregs pf reg count buf s = (case buf of None \<Rightarrow> Some (None, s) | Some b \<Rightarrow> do {
     s \<leftarrow> lock_spi s;
     s \<leftarrow> put_tx 0 [CMD_READ, reg] s;
     s \<leftarrow> transfer pf 2 count s;
     bs \<leftarrow> get_rx 2 count s;
     b \<leftarrow> buf_copy b 0 bs;
     Some (Some b, unlock_spi s) })"

definition mcp2515_write_reg ::
  "'hw platform \<Rightarrow> byte \<Rightarrow> byte \<Rightarrow> ('hw, 'z) spi_client_scheme \<Rightarrow> ('hw, 'z) spi_client_scheme option" where
  "mcp2515_write_reg pf reg val s = do {
     s \<leftarrow> lock_spi s;
     s \<leftarrow> put_tx 0 [CMD_WRITE, reg, val] s;
     s \<leftarrow> transfer pf 3 0 s;
     Some (unlock_spi s) }"

definition mcp2515_write_nregs ::
  "'hw platform \<Rightarrow> byte \<Rightarrow> byte list option \<Rightarrow> nat \<Rightarrow> ('hw, 'z) spi_client_scheme \<Rightarrow>
    ('hw, 'z) spi_client_scheme option" where
  "mcp2515_write_nregs pf reg buf count s = (case buf of None \<Rightarrow> Some s | Some b \<Rightarrow> do {
     s \<leftarrow> lock_spi s;
     s \<leftarrow> put_tx 0 [CMD_WRITE, reg] s;
     s \<leftarrow> (if count \<le> length b then put_tx 2 (take count b) s else None);
     s \<leftarrow> transfer pf (2 + count) 0 s;
     Some (unlock_spi s) })"

definition mcp2515_bit_modify ::
  "'hw platform \<Rightarrow> byte \<Rightarrow> byte \<Rightarrow> byte \<Rightarrow> ('hw, 'z) spi_client_scheme \<Rightarrow> ('hw, 'z) spi_client_scheme option" where
  "mcp2515_bit_modify pf reg msk val s = do {
     s \<leftarrow> lock_spi s;
     s \<leftarrow> put_tx 0 [CMD_BIT_MODIFY, reg, msk, val] s;
     s \<leftarrow> transfer pf 4 0 s;
     Some (unlock_spi s) }"

definition mcp2515_read_status ::
  "'hw platform \<Rightarrow> ('hw, 'z) spi_client_scheme \<Rightarrow> (byte \<times> ('hw, 'z) spi_client_scheme) option" where
  "mcp2515_read_status pf s = do {
     s \<leftarrow> lock_spi s;
     s \<leftarrow> put_tx 0 [CMD_READ_STATUS] s;
     s \<leftarrow> transfer pf 1 1 s;
     ret \<leftarrow> get_rx 1 1 s;
     Some (hd ret, unlock_spi s) }"

definition mcp2515_rx_status ::
  "'hw platform \<Rightarrow> ('hw, 'z) spi_client_scheme \<Rightarrow> (byte \<times> ('hw, 'z) spi_client_scheme) option" where
  "mcp2515_rx_status pf s = do {
     s \<leftarrow> lock_spi s;
     s \<leftarrow> put_tx 0 [CMD_RX_STATUS] s;
     s \<leftarrow> transfer pf 1 1 s;
     ret \<leftarrow> get_rx 1 1 s;
     Some (hd ret, unlock_spi s) }"

definition mcp2515_rts ::
  "'hw platform \<Rightarrow> byte \<Rightarrow> ('hw, 'z) spi_client_scheme \<Rightarrow> ('hw, 'z) spi_client_scheme option" where
  "mcp2515_rts pf msk s = do {
     s \<leftarrow> lock_spi s;
     s \<leftarrow> put_tx 0 [CMD_RTS OR msk] s;
     s \<leftarrow> transfer pf 1 0 s;
     Some (unlock_spi s) }"

definition mcp2515_load_txb ::
  "'hw platform \<Rightarrow> byte list \<Rightarrow> byte \<Rightarrow> byte \<Rightarrow> byte \<Rightarrow> ('hw, 'z) spi_client_scheme \<Rightarrow>
    ('hw, 'z) spi_client_scheme option" where
  "mcp2515_load_txb pf buf len idx flag s = do {
     let msk = (idx * 2) OR flag;
     s \<leftarrow> lock_spi s;
     s \<leftarrow> put_tx 0 [CMD_LOAD_TXB OR msk] s;
     s \<leftarrow> (if unat len \<le> length buf then put_tx 1 (take (unat len) buf) s else None);
     s \<leftarrow> transfer pf (unat len + 1) 0 s;
     Some (unlock_spi s) }"

definition mcp2515_read_rxb ::
  "'hw platform \<Rightarrow> byte list \<Rightarrow> byte \<Rightarrow> byte \<Rightarrow> byte \<Rightarrow> ('hw, 'z) spi_client_scheme \<Rightarrow>
    (byte list \<times> ('hw, 'z) spi_client_scheme) option" where
  "mcp2515_read_rxb pf buf len idx flag s = do {
     let msk = (idx * 2) OR flag;
     s \<leftarrow> lock_spi s;
     s \<leftarrow> put_tx 0 [CMD_READ_RXB OR msk] s;
     s \<leftarrow> transfer pf 1 (unat len) s;
     bs \<leftarrow> get_rx 1 (unat len) s;
     buf \<leftarrow> buf_copy buf 0 bs;
     Some (buf, unlock_spi s) }"

subsection \<open>What the controller promises\<close>

text \<open>
  The controller as a register file: writing and reading consecutive registers, changing
  the bits of a register under a mask, and the first register of the transmit and receive
  buffer that the low bits of the two buffer instructions select.
\<close>

definition wr_regs :: "(byte \<Rightarrow> byte) \<Rightarrow> byte \<Rightarrow> byte list \<Rightarrow> byte \<Rightarrow> byte" where
  "wr_regs R a bs x = (let i = unat (x - a) in if i < length bs then bs ! i else R x)"

definition bit_mod :: "(byte \<Rightarrow> byte) \<Rightarrow> byte \<Rightarrow> byte \<Rightarrow> byte \<Rightarrow> byte \<Rightarrow> byte" where
  "bit_mod R a msk v = R(a := (R a AND NOT msk) OR (v AND msk))"

definition txb_start :: "byte \<Rightarrow> byte" where
  "txb_start m = 0x31 + 0x10 * drop_bit 1 m + 5 * (m AND 1)"

definition rxb_start :: "byte \<Rightarrow> byte" where
  "rxb_start m = 0x61 + 0x10 * (drop_bit 2 m AND 1) + 5 * (drop_bit 1 m AND 1)"

text \<open>
  What a transaction that sends the given bytes does to the registers, and the register
  from which its reply is read. Instructions not listed store nothing in a plain register.
\<close>

fun instr_effect :: "byte list \<Rightarrow> (byte \<Rightarrow> byte) \<Rightarrow> byte \<Rightarrow> byte" where
  "instr_effect (c # a # bs) R =
    (if c = CMD_WRITE then wr_regs R a bs
     else if c = CMD_BIT_MODIFY then (case bs of [m, v] \<Rightarrow> bit_mod R a m v | _ \<Rightarrow> R)
     else if c AND 0xF8 = CMD_LOAD_TXB then wr_regs R (txb_start (c AND 7)) (a # bs)
     else R)"
| "instr_effect _ R = R"

fun instr_reply :: "byte list \<Rightarrow> byte option" where
  "instr_reply [c, a] = (if c = CMD_READ then Some a else None)"
| "instr_reply [c] = (if c AND 0xF9 = CMD_READ_RXB then Some (rxb_start (c AND 6)) else None)"
| "instr_reply _ = None"

text \<open>
  \<open>regs h a\<close> is the value of register \<open>a\<close>; \<open>A\<close> is a set of registers that hold what the
  driver last stored in them (the controller changes none of them on its own). While the
  controller alone is selected every transaction completes and acts on \<open>A\<close> as the
  instruction set says, apart from \<open>CMD_RESET\<close>, which resets them.
\<close>

definition chip_ok ::
  "'hw platform \<Rightarrow> ('hw \<Rightarrow> cs_line \<Rightarrow> bool) \<Rightarrow> ('hw \<Rightarrow> byte \<Rightarrow> byte) \<Rightarrow> byte set \<Rightarrow> bool" where
  "chip_ok pf level regs A \<longleftrightarrow> pins_ok pf level \<and>
     (\<forall>l h. regs (gpio_set pf l h) = regs h \<and> regs (gpio_clr pf l h) = regs h) \<and>
     (\<forall>c h. regs (spi_prepare_transfer pf c h) = regs h) \<and>
     (\<forall>tx rx r h. level h = selected spi_can_nss \<longrightarrow> tx \<noteq> [] \<longrightarrow> hd tx \<noteq> CMD_RESET \<longrightarrow>
        length tx + r \<le> length rx \<longrightarrow>
        (\<forall>junk. \<exists>ret status rx' h'. spi_xfer pf (tx @ junk) (length tx) rx r h = (ret, Some status, rx', h') \<and>
           0 \<le> ret \<and> length rx' = length rx \<and> (\<forall>x\<in>A. regs h' x = instr_effect tx (regs h) x) \<and>
           (\<forall>a i. instr_reply tx = Some a \<longrightarrow> i < r \<longrightarrow> a + of_nat i \<in> A \<longrightarrow>
              rx' ! (length tx + i) = regs h (a + of_nat i))))"

subsection \<open>The commands on a working controller\<close>

definition link_ready :: "('hw \<Rightarrow> cs_line \<Rightarrow> bool) \<Rightarrow> ('hw, 'z) spi_client_scheme \<Rightarrow> bool" where
  "link_ready level s \<longleftrightarrow> spi_dev s \<and> \<not> spi_lock s \<and> length (txbuf (spi_can s)) = SPI_TRANS_MAX_SIZE \<and>
     length (rxbuf (spi_can s)) = SPI_TRANS_MAX_SIZE \<and> level (hw (spi_srv s)) = released"

text \<open>The driver may go on, and nothing but the link has changed.\<close>

definition kept :: "('hw \<Rightarrow> cs_line \<Rightarrow> bool) \<Rightarrow> ('hw, 'z) spi_client_scheme \<Rightarrow> ('hw, 'z) spi_client_scheme \<Rightarrow> bool" where
  "kept level s s' \<longleftrightarrow> link_ready level s' \<and> spi_client.more s' = spi_client.more s"

abbreviation creg :: "('hw \<Rightarrow> byte \<Rightarrow> byte) \<Rightarrow> ('hw, 'z) spi_client_scheme \<Rightarrow> byte \<Rightarrow> byte" where
  "creg regs s \<equiv> regs (hw (spi_srv s))"

lemma kept_ready: "kept level s s' \<Longrightarrow> link_ready level s'"
  by (simp add: kept_def)

lemma kept_trans [trans]: "kept level s s' \<Longrightarrow> kept level s' s'' \<Longrightarrow> kept level s s''"
  by (simp add: kept_def)

lemma chip_okD:
  assumes "chip_ok pf level regs A"
  shows "pins_ok pf level" "regs (gpio_set pf l h) = regs h" "regs (gpio_clr pf l h) = regs h"
    "regs (spi_prepare_transfer pf c h) = regs h"
    "level h = selected spi_can_nss \<Longrightarrow> tx \<noteq> [] \<Longrightarrow> hd tx \<noteq> CMD_RESET \<Longrightarrow> length tx + r \<le> length rx \<Longrightarrow>
      \<exists>ret status rx' h'. spi_xfer pf (tx @ junk) (length tx) rx r h = (ret, Some status, rx', h') \<and>
        0 \<le> ret \<and> length rx' = length rx \<and> (\<forall>x\<in>A. regs h' x = instr_effect tx (regs h) x) \<and>
        (\<forall>a i. instr_reply tx = Some a \<longrightarrow> i < r \<longrightarrow> a + of_nat i \<in> A \<longrightarrow>
              rx' ! (length tx + i) = regs h (a + of_nat i))"
  using assms unfolding chip_ok_def by blast+

lemma transfer_ok:
  assumes ok: "chip_ok pf level regs A"
    and s: "length (rxbuf (spi_can s)) = SPI_TRANS_MAX_SIZE" "level (hw (spi_srv s)) = released"
    and tx: "txbuf (spi_can s) = tx @ junk" "tx \<noteq> []" "hd tx \<noteq> CMD_RESET" "length tx + r \<le> SPI_TRANS_MAX_SIZE"
  shows "\<exists>p st. transfer pf (length tx) r s = Some (s\<lparr>spi_can := p, spi_srv := st\<rparr>) \<and>
     txbuf p = txbuf (spi_can s) \<and> length (rxbuf p) = SPI_TRANS_MAX_SIZE \<and> level (hw st) = released \<and>
     (\<forall>x\<in>A. regs (hw st) x = instr_effect tx (creg regs s) x) \<and>
     (\<forall>a i. instr_reply tx = Some a \<longrightarrow> i < r \<longrightarrow> a + of_nat i \<in> A \<longrightarrow>
        rxbuf p ! (length tx + i) = creg regs s (a + of_nat i))"
proof -
  let ?h = "bus_ready pf can_slave (spi_srv s)"
  note pins = chip_okD(1) [OF ok]
  have sel: "level ?h = selected spi_can_nss" using bus_ready_level [OF pins s(2), of can_slave] by simp
  have reg: "regs ?h = creg regs s" by (simp add: bus_ready_def chip_okD(2-4) [OF ok])
  from chip_okD(5) [OF ok sel tx(2,3), of r "rxbuf (spi_can s)" junk] tx(4) s(1)
  obtain ret status rx' h' where
    x: "spi_xfer pf (tx @ junk) (length tx) (rxbuf (spi_can s)) r ?h = (ret, Some status, rx', h')" "0 \<le> ret"
      "length rx' = SPI_TRANS_MAX_SIZE" "\<forall>x\<in>A. regs h' x = instr_effect tx (creg regs s) x"
      "\<forall>a i. instr_reply tx = Some a \<longrightarrow> i < r \<longrightarrow> a + of_nat i \<in> A \<longrightarrow>
         rx' ! (length tx + i) = creg regs s (a + of_nat i)"
    by (auto simp: reg)
  have "level h' = selected spi_can_nss" using pins_okD(4) [OF pins x(1)] sel by simp
  then have "level (gpio_set pf spi_can_nss h') = released" by (simp add: pins_okD(1) [OF pins])
  with x(3-5) show ?thesis
    by (intro exI [of _ "(spi_can s)\<lparr>rxbuf := rx'\<rparr>"] exI [of _ "(spi_srv s)\<lparr>cur_slave_id := CAN_APP_ID,
          xfer_status := Some status, hw := gpio_set pf spi_can_nss h'\<rparr>"])
      (simp add: transfer_def spi_transfer_can do_spi_transfer_complete [OF x(1,2)] tx(1) chip_okD(2) [OF ok])
qed

lemma put_tx_ready:
  assumes "link_ready level s" "i + length bs \<le> SPI_TRANS_MAX_SIZE"
  shows "put_tx i bs (s\<lparr>spi_lock := l\<rparr>) = Some (s\<lparr>spi_lock := l, spi_can := (spi_can s)\<lparr>txbuf :=
     take i (txbuf (spi_can s)) @ bs @ drop (i + length bs) (txbuf (spi_can s))\<rparr>\<rparr>)"
  using assms by (simp add: put_tx_def link_ready_def)

text \<open>
  A whole command: with the lock taken and the bytes stored, the transfer leaves a state
  that is ready again once it is unlocked.
\<close>

lemma command_ok:
  assumes ok: "chip_ok pf level regs A" and s: "link_ready level s"
    and tx: "tx \<noteq> []" "hd tx \<noteq> CMD_RESET" "w + r \<le> SPI_TRANS_MAX_SIZE" and w: "w = length tx"
    and t: "txb = tx @ drop w (txbuf (spi_can s))"
  shows "\<exists>s'. transfer pf w r (s\<lparr>spi_lock := True, spi_can := (spi_can s)\<lparr>txbuf := txb\<rparr>\<rparr>) = Some s' \<and>
     kept level s (unlock_spi s') \<and> spi_dev s' \<and> length (rxbuf (spi_can s')) = SPI_TRANS_MAX_SIZE \<and>
     (\<forall>x\<in>A. creg regs s' x = instr_effect tx (creg regs s) x) \<and>
     (\<forall>a i. instr_reply tx = Some a \<longrightarrow> i < r \<longrightarrow> a + of_nat i \<in> A \<longrightarrow>
        rxbuf (spi_can s') ! (w + i) = creg regs s (a + of_nat i))"
proof -
  let ?s = "s\<lparr>spi_lock := True, spi_can := (spi_can s)\<lparr>txbuf := txb\<rparr>\<rparr>"
  have "length (rxbuf (spi_can ?s)) = SPI_TRANS_MAX_SIZE" "level (hw (spi_srv ?s)) = released"
    "txbuf (spi_can ?s) = tx @ drop w (txbuf (spi_can s))" "length tx + r \<le> SPI_TRANS_MAX_SIZE"
    using s t tx(3) w by (simp_all add: link_ready_def)
  from transfer_ok [OF ok this(1-3) tx(1,2) this(4)] show ?thesis
    using s t tx(3) by (auto simp: w kept_def link_ready_def unlock_spi_def SPI_TRANS_MAX_SIZE_def)
qed

lemma unlock_spi_reg [simp]: "spi_srv (unlock_spi s) = spi_srv s"
  by (simp add: unlock_spi_def)

lemma command_run:
  assumes ok: "chip_ok pf level regs A" and s: "link_ready level s"
    and tx: "tx \<noteq> []" "hd tx \<noteq> CMD_RESET" "w + r \<le> SPI_TRANS_MAX_SIZE" and w: "w = length tx"
  shows "\<exists>s1 s2 s'. lock_spi s = Some s1 \<and> put_tx 0 tx s1 = Some s2 \<and> transfer pf w r s2 = Some s' \<and>
     kept level s (unlock_spi s') \<and> spi_dev s' \<and> length (rxbuf (spi_can s')) = SPI_TRANS_MAX_SIZE \<and>
     (\<forall>x\<in>A. creg regs s' x = instr_effect tx (creg regs s) x) \<and>
     (\<forall>a i. instr_reply tx = Some a \<longrightarrow> i < r \<longrightarrow> a + of_nat i \<in> A \<longrightarrow>
        rxbuf (spi_can s') ! (w + i) = creg regs s (a + of_nat i))"
proof -
  have "lock_spi s = Some (s\<lparr>spi_lock := True\<rparr>)" using s by (simp add: lock_spi_def link_ready_def)
  moreover have "put_tx 0 tx (s\<lparr>spi_lock := True\<rparr>) =
      Some (s\<lparr>spi_lock := True, spi_can := (spi_can s)\<lparr>txbuf := tx @ drop w (txbuf (spi_can s))\<rparr>\<rparr>)"
    using put_tx_ready [OF s, of 0 tx] tx(3) w by simp
  ultimately show ?thesis using command_ok [OF ok s tx w refl] by auto
qed

text \<open>Storing the bytes of a command in two parts.\<close>

lemma put_tx_two:
  assumes "i = length us"
  shows "(put_tx 0 us s \<bind> (\<lambda>s. put_tx i vs s \<bind> k)) = (put_tx 0 (us @ vs) s \<bind> k)"
  using assms by (auto simp: put_tx_def buf_copy_def add.commute split: if_splits)

lemma instr_simps:
  "instr_effect (CMD_READ # a # bs) R = R" "instr_reply [CMD_READ, a] = Some a"
  "instr_effect (CMD_WRITE # a # bs) R = wr_regs R a bs"
  "instr_effect [CMD_BIT_MODIFY, a, m, v] R = bit_mod R a m v"
  "CMD_READ \<noteq> CMD_RESET" "CMD_WRITE \<noteq> CMD_RESET" "CMD_BIT_MODIFY \<noteq> CMD_RESET"
  by (simp_all add: mcp_cmds)

declare instr_effect.simps [simp del] instr_reply.simps [simp del] instr_simps [simp]

text \<open>The register-level meaning of each command.\<close>

lemma mcp2515_read_reg_ok:
  assumes ok: "chip_ok pf level regs A" and s: "link_ready level s"
  shows "\<exists>v s'. mcp2515_read_reg pf a s = Some (v, s') \<and> kept level s s' \<and>
    (\<forall>x\<in>A. creg regs s' x = creg regs s x) \<and> (a \<in> A \<longrightarrow> v = creg regs s a)"
  using command_run [OF ok s, of "[CMD_READ, a]" 2 1]
  by (auto simp: mcp2515_read_reg_def get_rx_def SPI_TRANS_MAX_SIZE_def hd_drop_conv_nth all_conj_distrib)

lemma mcp2515_write_reg_ok:
  assumes ok: "chip_ok pf level regs A" and s: "link_ready level s"
  shows "\<exists>s'. mcp2515_write_reg pf a v s = Some s' \<and> kept level s s' \<and>
    (\<forall>x\<in>A. creg regs s' x = wr_regs (creg regs s) a [v] x)"
  using command_run [OF ok s, of "[CMD_WRITE, a, v]" 3 0]
  by (auto simp: mcp2515_write_reg_def SPI_TRANS_MAX_SIZE_def)

lemma mcp2515_bit_modify_ok:
  assumes ok: "chip_ok pf level regs A" and s: "link_ready level s"
  shows "\<exists>s'. mcp2515_bit_modify pf a m v s = Some s' \<and> kept level s s' \<and>
    (\<forall>x\<in>A. creg regs s' x = bit_mod (creg regs s) a m v x)"
  using command_run [OF ok s, of "[CMD_BIT_MODIFY, a, m, v]" 4 0]
  by (auto simp: mcp2515_bit_modify_def SPI_TRANS_MAX_SIZE_def)

lemma mcp2515_read_nregs_ok:
  assumes ok: "chip_ok pf level regs A" and s: "link_ready level s"
    and n: "n \<le> length b" "n + 2 \<le> SPI_TRANS_MAX_SIZE"
  shows "\<exists>bs s'. mcp2515_read_nregs pf a n (Some b) s = Some (Some (bs @ drop n b), s') \<and> kept level s s' \<and>
    length bs = n \<and> (\<forall>x\<in>A. creg regs s' x = creg regs s x) \<and>
    (\<forall>i<n. a + of_nat i \<in> A \<longrightarrow> bs ! i = creg regs s (a + of_nat i))"
  using n command_run [OF ok s, of "[CMD_READ, a]" 2 n]
  by (auto simp: mcp2515_read_nregs_def get_rx_def SPI_TRANS_MAX_SIZE_def all_conj_distrib)

lemma mcp2515_write_nregs_ok:
  assumes ok: "chip_ok pf level regs A" and s: "link_ready level s"
    and n: "n \<le> length b" "n + 2 \<le> SPI_TRANS_MAX_SIZE"
  shows "\<exists>s'. mcp2515_write_nregs pf a (Some b) n s = Some s' \<and> kept level s s' \<and>
    (\<forall>x\<in>A. creg regs s' x = wr_regs (creg regs s) a (take n b) x)"
  using n command_run [OF ok s, of "CMD_WRITE # a # take n b" "2 + n" 0]
  by (auto simp: mcp2515_write_nregs_def SPI_TRANS_MAX_SIZE_def put_tx_two)

lemma mcp2515_load_txb_ok:
  assumes ok: "chip_ok pf level regs A" and s: "link_ready level s"
    and n: "0 < unat n" "unat n \<le> length b" "unat n + 1 \<le> SPI_TRANS_MAX_SIZE" and i: "i < 3"
  shows "\<exists>s'. mcp2515_load_txb pf b n (of_nat i) 0 s = Some s' \<and> kept level s s' \<and>
    (\<forall>x\<in>A. creg regs s' x = wr_regs (creg regs s) (TXBSIDH i) (take (unat n) b) x)"
proof -
  let ?c = "CMD_LOAD_TXB OR (of_nat i * 2 :: byte)"
  have i: "i = 0 \<or> i = 1 \<or> i = 2" using i by auto
  have c: "?c \<noteq> CMD_RESET" "?c \<noteq> CMD_WRITE" "?c \<noteq> CMD_BIT_MODIFY" "?c AND 0xF8 = CMD_LOAD_TXB"
    "txb_start (?c AND 7) = TXBSIDH i"
    using i by (auto simp: mcp_cmds txb_start_def mcp_consts)
  from n obtain v vs where b: "take (unat n) b = v # vs" "length (v # vs) = unat n"
    by (cases "take (unat n) b") (auto, metis length_Cons length_take min_absorb2)
  then show ?thesis using n c command_run [OF ok s, of "?c # v # vs" "unat n + 1" 0]
    by (auto simp: mcp2515_load_txb_def SPI_TRANS_MAX_SIZE_def put_tx_two instr_effect.simps)
qed

lemma mcp2515_read_rxb_ok:
  assumes ok: "chip_ok pf level regs A" and s: "link_ready level s"
    and n: "unat n = length b" "unat n + 1 \<le> SPI_TRANS_MAX_SIZE"
  shows "\<exists>bs s'. mcp2515_read_rxb pf b n 0 0 s = Some (bs, s') \<and> kept level s s' \<and>
    length bs = unat n \<and> (\<forall>x\<in>A. creg regs s' x = creg regs s x) \<and>
    (\<forall>j<unat n. RXBSIDH 0 + of_nat j \<in> A \<longrightarrow> bs ! j = creg regs s (RXBSIDH 0 + of_nat j))"
proof -
  have "instr_effect [CMD_READ_RXB] R = R" for R by (simp add: instr_effect.simps)
  moreover have "instr_reply [CMD_READ_RXB] = Some (RXBSIDH 0)" "CMD_READ_RXB \<noteq> CMD_RESET"
    by (simp_all add: instr_reply.simps mcp_cmds rxb_start_def mcp_consts)
  ultimately show ?thesis using n command_run [OF ok s, of "[CMD_READ_RXB]" 1 "unat n"]
    by (auto simp: mcp2515_read_rxb_def get_rx_def SPI_TRANS_MAX_SIZE_def all_conj_distrib)
qed

subsection \<open>A controller that keeps the promise\<close>

text \<open>
  A platform whose controller is nothing but a register file; it shows that the
  hypothesis \<open>chip_ok\<close> can hold, for the set of all registers.
\<close>

type_synonym reg_chip = "(cs_line \<Rightarrow> bool) \<times> (byte \<Rightarrow> byte)"

definition chip_reply :: "byte list \<Rightarrow> nat \<Rightarrow> (byte \<Rightarrow> byte) \<Rightarrow> byte list" where
  "chip_reply tx r R = (case instr_reply tx of None \<Rightarrow> replicate r 0
     | Some a \<Rightarrow> map (\<lambda>i. R (a + of_nat i)) [0..<r])"

definition chip_platform :: "reg_chip platform" where
  "chip_platform = \<lparr>spi_xfer = \<lambda>tx w rx r (l, R).
       (0, Some 0, take w rx @ chip_reply (take w tx) r R @ drop (w + r) rx, (l, instr_effect (take w tx) R)),
     spi_prepare_transfer = \<lambda>c h. h, gpio_set = \<lambda>x (l, R). (l(x := True), R),
     gpio_clr = \<lambda>x (l, R). (l(x := False), R), ndebug = True\<rparr>"

definition link_state :: "(byte \<Rightarrow> byte) \<Rightarrow> reg_chip spi_client" where
  "link_state R = \<lparr>spi_dev = True, spi_lock = False,
     spi_can = \<lparr>txbuf = replicate SPI_TRANS_MAX_SIZE 0, rxbuf = replicate SPI_TRANS_MAX_SIZE 0\<rparr>,
     spi_srv = \<lparr>cur_slave_id = -1, bus_sem = 0, xfer_status = None, hw = (released, R)\<rparr>\<rparr>"

lemma chip_reply_length [simp]: "length (chip_reply tx r R) = r"
  by (simp add: chip_reply_def split: option.split)

lemma chip_platform_ok: "chip_ok chip_platform fst snd A"
  by (auto simp: chip_ok_def pins_ok_def chip_platform_def case_prod_beta nth_append chip_reply_def
      split: option.split)

lemma link_state_reg [simp]: "creg snd (link_state R) = R"
  by (simp add: link_state_def)

lemma link_state_ready: "link_ready fst (link_state R)"
  by (simp add: link_ready_def link_state_def)

end
