(* ===== verification/Mcp2515_Controller.thy ===== *)
theory Mcp2515_Controller
  imports Can_Types Mcp2515_Spi
begin

text \<open>
  The MCP2515 driver proper, \<open>components/can/src/controller.c\<close>: bit timing, operation
  mode, acceptance filters, and the transmit and receive buffers. Every function is a
  sequence of the SPI commands of \<open>Mcp2515_Spi\<close>, as in the source.

  \<open>DIV_ROUND\<close> comes from the utility library, which is not part of the repository; it is
  the parameter \<open>div_round\<close> of the bit-timing calculation.
\<close>

subsection \<open>Constants\<close>

definition SIDH_SHF :: nat where "SIDH_SHF = 3"
definition SIDL_SHF :: nat where "SIDL_SHF = 5"
definition EXIDE_SHF :: nat where "EXIDE_SHF = 3"
definition SIDL_EID_SHF :: nat where "SIDL_EID_SHF = 16"
definition EID8_SHF :: nat where "EID8_SHF = 8"
definition RTR_SHF :: nat where "RTR_SHF = 6"
definition BYTE_MASK :: u32 where "BYTE_MASK = 0xFF"
definition MAX_BUF_LEN :: nat where "MAX_BUF_LEN = 13"
definition FILTER_BYTES :: nat where "FILTER_BYTES = 4"
definition NUM_OF_MASKS :: nat where "NUM_OF_MASKS = 2"
definition FILTS_OF_MASK0 :: nat where "FILTS_OF_MASK0 = 2"
definition FILTS_OF_MASK1 :: nat where "FILTS_OF_MASK1 = 4"

text \<open>\<open>enum can_buf_regs\<close>: offsets in a buffer of the controller.\<close>

definition SIDH :: nat where "SIDH = 0"
definition SIDL :: nat where "SIDL = 1"
definition EID8 :: nat where "EID8 = 2"
definition EID0 :: nat where "EID0 = 3"
definition DLC :: nat where "DLC = 4"
definition DAT :: nat where "DAT = 5"

definition OSC_FREQ :: u32 where "OSC_FREQ = 20000000"
definition NS_IN_SEC :: u32 where "NS_IN_SEC = 1000000000"
definition MIN_TQ_NUM :: nat where "MIN_TQ_NUM = 8"
definition MAX_TQ_NUM :: nat where "MAX_TQ_NUM = 25"
definition SAMPLE_POINT :: nat where "SAMPLE_POINT = 30"

lemmas ctrl_consts [model_defs] = SIDH_SHF_def SIDL_SHF_def EXIDE_SHF_def SIDL_EID_SHF_def EID8_SHF_def
  RTR_SHF_def BYTE_MASK_def MAX_BUF_LEN_def FILTER_BYTES_def NUM_OF_MASKS_def FILTS_OF_MASK0_def
  FILTS_OF_MASK1_def SIDH_def SIDL_def EID8_def EID0_def DLC_def DAT_def

lemmas baud_consts [model_defs] = OSC_FREQ_def NS_IN_SEC_def MIN_TQ_NUM_def MAX_TQ_NUM_def SAMPLE_POINT_def

subsection \<open>Bit timing\<close>

definition cnf_bytes :: "byte \<Rightarrow> byte \<Rightarrow> byte \<Rightarrow> byte \<Rightarrow> byte \<Rightarrow> byte list" where
  "cnf_bytes sjw brp propseg phseg1 phseg2 =
    (let sjw = sjw - 1; brp = brp - 1; propseg = propseg - 1; phseg1 = phseg1 - 1; phseg2 = phseg2 - 1 in
     [phseg2,
      CNF2_BTLMODE OR push_bit CNF2_PHSEG1_SHF phseg1 OR propseg,
      push_bit CNF1_SJW_SHF sjw OR brp])"

definition hw_set_bit_timing ::
  "'hw platform \<Rightarrow> byte \<Rightarrow> byte \<Rightarrow> byte \<Rightarrow> byte \<Rightarrow> byte \<Rightarrow> ('hw, 'z) spi_client_scheme \<Rightarrow>
    ('hw, 'z) spi_client_scheme option" where
  "hw_set_bit_timing pf sjw brp propseg phseg1 phseg2 s =
     mcp2515_write_nregs pf CNF3 (Some (cnf_bytes sjw brp propseg phseg1 phseg2)) 3 s"

definition TIME_PER_TICK :: "(u32 \<Rightarrow> u32 \<Rightarrow> u32) \<Rightarrow> u32" where
  "TIME_PER_TICK div_round = div_round NS_IN_SEC OSC_FREQ"

text \<open>One turn of the search for the number of time quanta: the timing error of \<open>i\<close> quanta.\<close>

definition tq_error :: "(u32 \<Rightarrow> u32 \<Rightarrow> u32) \<Rightarrow> u32 \<Rightarrow> nat \<Rightarrow> u32" where
  "tq_error div_round bit_time i =
    (let tq_time = div_round bit_time (of_nat i);
         error = tq_time mod TIME_PER_TICK div_round
     in if 2 * error > TIME_PER_TICK div_round then TIME_PER_TICK div_round - error else error)"

definition tq_turn :: "(u32 \<Rightarrow> u32 \<Rightarrow> u32) \<Rightarrow> u32 \<Rightarrow> nat \<Rightarrow> u32 \<times> byte \<Rightarrow> u32 \<times> byte" where
  "tq_turn div_round bit_time i = (\<lambda>(min_error, tq_num).
     let error = tq_error div_round bit_time i
     in if error < min_error then (error, of_nat i) else (min_error, tq_num))"

definition baud_tq_num :: "(u32 \<Rightarrow> u32 \<Rightarrow> u32) \<Rightarrow> u32 \<Rightarrow> byte" where
  "baud_tq_num div_round baudrate =
     snd (fold (tq_turn div_round (div_round NS_IN_SEC baudrate)) [MIN_TQ_NUM..<MAX_TQ_NUM + 1]
       (0xFFFFFFFF, of_nat MIN_TQ_NUM))"

text \<open>The three segments, in the order \<open>propseg\<close>, \<open>phseg1\<close>, \<open>phseg2\<close>.\<close>

definition baud_segments :: "(u32 \<Rightarrow> u32 \<Rightarrow> u32) \<Rightarrow> byte \<Rightarrow> byte \<times> byte \<times> byte" where
  "baud_segments div_round tq_num =
    (let phseg2 = ucast (div_round (ucast tq_num * of_nat SAMPLE_POINT) 100);
         phseg1 = phseg2;
         propseg = tq_num - 1 - phseg1 - phseg2
     in if propseg > 2 then (2, phseg1 + (propseg - 2), phseg2) else (propseg, phseg1, phseg2))"

definition set_baudrate ::
  "(u32 \<Rightarrow> u32 \<Rightarrow> u32) \<Rightarrow> 'hw platform \<Rightarrow> u32 \<Rightarrow> ('hw, 'z) spi_client_scheme \<Rightarrow>
    ('hw, 'z) spi_client_scheme option" where
  "set_baudrate div_round pf baudrate s =
    (let tq_num = baud_tq_num div_round baudrate;
         brp = ucast (div_round OSC_FREQ (2 * baudrate * ucast tq_num));
         (propseg, phseg1, phseg2) = baud_segments div_round tq_num
     in hw_set_bit_timing pf 1 brp propseg phseg1 phseg2 s)"

subsection \<open>Operation mode\<close>

definition set_mode ::
  "'hw platform \<Rightarrow> op_mode \<Rightarrow> ('hw, 'z) spi_client_scheme \<Rightarrow> ('hw, 'z) spi_client_scheme option" where
  "set_mode pf mode s =
     mcp2515_bit_modify pf CANCTRL CANCTRL_REQOP_MASK (push_bit CANCTRL_REQOP_SHF (mode_code mode)) s"

definition get_mode ::
  "'hw platform \<Rightarrow> ('hw, 'z) spi_client_scheme \<Rightarrow> (byte \<times> ('hw, 'z) spi_client_scheme) option" where
  "get_mode pf s = do {
     (v, s) \<leftarrow> mcp2515_read_reg pf CANSTAT s;
     Some (drop_bit CANSTAT_OPMOD_SHF v, s) }"

subsection \<open>Identifiers in the controller's registers\<close>

text \<open>The standard and the extended part of an identifier or a mask.\<close>

definition split_id :: "bool \<Rightarrow> u32 \<Rightarrow> u32 \<times> u32" where
  "split_id extended i =
    (if extended then (drop_bit CAN_EID_BITS i, i AND CAN_EID_MASK) else (i, 0))"

definition id_bytes :: "u32 \<Rightarrow> u32 \<Rightarrow> u32 \<Rightarrow> byte list" where
  "id_bytes sid eid ide =
    [ucast (drop_bit SIDH_SHF sid),
     ucast (push_bit SIDL_SHF sid OR push_bit EXIDE_SHF ide OR drop_bit SIDL_EID_SHF eid),
     ucast (drop_bit EID8_SHF eid),
     ucast (eid AND BYTE_MASK)]"

subsection \<open>Acceptance filters\<close>

text \<open>A local array that a read fills completely is given as zeros.\<close>

definition is_filter_empty ::
  "'hw platform \<Rightarrow> nat \<Rightarrow> ('hw, 'z) spi_client_scheme \<Rightarrow> (bool \<times> ('hw, 'z) spi_client_scheme) option" where
  "is_filter_empty pf idx s = do {
     (buf, s) \<leftarrow> mcp2515_read_nregs pf (RXFSIDH idx) FILTER_BYTES (Some (replicate FILTER_BYTES 0)) s;
     buf \<leftarrow> buf;
     Some (fold (OR) buf 0 = 0, s) }"

definition write_to_filter ::
  "'hw platform \<Rightarrow> nat \<Rightarrow> can_id \<Rightarrow> u32 \<Rightarrow> ('hw, 'z) spi_client_scheme \<Rightarrow> ('hw, 'z) spi_client_scheme option" where
  "write_to_filter pf idx cid msk s = do {
     s \<leftarrow> (if msk \<noteq> 0 then
             let (sid, eid) = split_id (exide cid \<noteq> 0) msk;
                 buf = id_bytes sid eid 0
             in if idx < FILTS_OF_MASK0
                then mcp2515_write_nregs pf (RXMSIDH 0) (Some buf) FILTER_BYTES s
                else mcp2515_write_nregs pf (RXMSIDH 1) (Some buf) FILTER_BYTES s
           else Some s);
     let (sid, eid) = split_id (exide cid \<noteq> 0) (ucast (id_num cid));
     mcp2515_write_nregs pf (RXFSIDH idx) (Some (id_bytes sid eid (ucast (exide cid)))) FILTER_BYTES s }"

text \<open>The loop over the filters of a mask, which stops at the first filter that is empty.\<close>

fun first_empty ::
  "'hw platform \<Rightarrow> nat list \<Rightarrow> ('hw, 'z) spi_client_scheme \<Rightarrow> (nat option \<times> ('hw, 'z) spi_client_scheme) option" where
  "first_empty pf [] s = Some (None, s)"
| "first_empty pf (j # js) s = do {
     (e, s) \<leftarrow> is_filter_empty pf j s;
     if e then Some (Some j, s) else first_empty pf js s }"

text \<open>The filters of mask \<open>i\<close>.\<close>

definition mask_filters :: "nat \<Rightarrow> nat list" where
  "mask_filters i = [i * FILTS_OF_MASK0 ..< i * FILTS_OF_MASK1 + FILTS_OF_MASK0]"

text \<open>
  The value of a mask as \<open>set_rx_filter\<close> reads it back: its \<open>sid\<close> and \<open>eid\<close> are 8-bit
  variables.
\<close>

definition read_mask :: "byte list \<Rightarrow> byte \<times> byte" where
  "read_mask buf =
    (ucast (push_bit SIDH_SHF (ucast (buf ! SIDH) :: u32) OR drop_bit SIDL_SHF (ucast (buf ! SIDL) :: u32)),
     ucast (push_bit SIDL_EID_SHF (ucast (buf ! SIDL) :: u32) OR
       push_bit EID8_SHF (ucast (buf ! EID8) :: u32) OR ucast (buf ! EID0)))"

fun set_rx_filter_loop ::
  "'hw platform \<Rightarrow> can_id \<Rightarrow> u32 \<Rightarrow> nat list \<Rightarrow> ('hw, 'z) spi_client_scheme \<Rightarrow>
    (int \<times> ('hw, 'z) spi_client_scheme) option" where
  "set_rx_filter_loop pf cid msk [] s = Some (-1, s)"
| "set_rx_filter_loop pf cid msk (i # is) s = do {
     (buf, s) \<leftarrow> mcp2515_read_nregs pf (RXMSIDH i) FILTER_BYTES (Some (replicate FILTER_BYTES 0)) s;
     buf \<leftarrow> buf;
     let (sid, eid) = read_mask buf;
     let cur_mask = push_bit CAN_EID_BITS (ucast sid) OR (ucast eid :: u32);
     let cur_mask = (if exide cid = 0 then drop_bit CAN_EID_BITS cur_mask else cur_mask);
     if cur_mask = 0 \<and> eid = 0 then do {
       s \<leftarrow> write_to_filter pf (i * FILTS_OF_MASK0) cid msk s;
       Some (int (i * FILTS_OF_MASK0), s) }
     else if cur_mask = msk then do {
       (j, s) \<leftarrow> first_empty pf (mask_filters i) s;
       (case j of
          Some j \<Rightarrow> do { s \<leftarrow> write_to_filter pf j cid 0 s; Some (int j, s) }
        | None \<Rightarrow> set_rx_filter_loop pf cid msk is s) }
     else set_rx_filter_loop pf cid msk is s }"

definition set_rx_filter ::
  "'hw platform \<Rightarrow> can_id \<Rightarrow> u32 \<Rightarrow> ('hw, 'z) spi_client_scheme \<Rightarrow> (int \<times> ('hw, 'z) spi_client_scheme) option" where
  "set_rx_filter pf cid msk s = set_rx_filter_loop pf cid msk [0..<NUM_OF_MASKS] s"

fun first_used ::
  "'hw platform \<Rightarrow> nat list \<Rightarrow> ('hw, 'z) spi_client_scheme \<Rightarrow> (nat option \<times> ('hw, 'z) spi_client_scheme) option" where
  "first_used pf [] s = Some (None, s)"
| "first_used pf (j # js) s = do {
     (e, s) \<leftarrow> is_filter_empty pf j s;
     if \<not> e then Some (Some j, s) else first_used pf js s }"

text \<open>The mask is cleared when the loop over its filters ran to its end.\<close>

definition clear_rx_filter ::
  "'hw platform \<Rightarrow> nat \<Rightarrow> ('hw, 'z) spi_client_scheme \<Rightarrow> ('hw, 'z) spi_client_scheme option" where
  "clear_rx_filter pf idx s = do {
     let buf = replicate FILTER_BYTES 0;
     s \<leftarrow> mcp2515_write_nregs pf (RXFSIDH idx) (Some buf) FILTER_BYTES s;
     let mask_idx = (if idx < FILTS_OF_MASK0 then 0 else 1);
     (used, s) \<leftarrow> first_used pf (mask_filters mask_idx) s;
     if used = None then mcp2515_write_nregs pf (RXMSIDH mask_idx) (Some buf) FILTER_BYTES s else Some s }"

definition clear_filter_mask ::
  "'hw platform \<Rightarrow> nat \<Rightarrow> ('hw, 'z) spi_client_scheme \<Rightarrow> ('hw, 'z) spi_client_scheme option" where
  "clear_filter_mask pf rxb_idx s =
    (let buf = replicate (FILTER_BYTES * 2) 0
     in if rxb_idx \<ge> 2 then mcp2515_write_nregs pf (RXMSIDH 0) (Some buf) (FILTER_BYTES * 2) s
        else mcp2515_write_nregs pf (RXMSIDH rxb_idx) (Some buf) FILTER_BYTES s)"

subsection \<open>Transmit and receive buffers\<close>

text \<open>
  The bytes \<open>load_txb\<close> prepares. \<open>memcpy\<close> of \<open>dlc\<close> bytes stays inside the 8-byte payload
  and the 13-byte buffer only for \<open>dlc \<le> 8\<close>; the 4-bit field can hold up to 15.
\<close>

definition txb_bytes :: "can_frame \<Rightarrow> byte list option" where
  "txb_bytes frame =
    (let (sid, eid) = split_id (exide (ident frame) \<noteq> 0) (ucast (id_num (ident frame)));
         dl = push_bit RTR_SHF (ucast (rtr (ident frame))) OR ucast (dlc frame);
         buf = id_bytes sid eid (ucast (exide (ident frame))) @ [dl] @ replicate (MAX_BUF_LEN - DAT) 0
     in if unat (dlc frame) \<le> length (data frame)
        then buf_copy buf DAT (take (unat (dlc frame)) (data frame)) else None)"

definition load_txb ::
  "'hw platform \<Rightarrow> nat \<Rightarrow> can_frame \<Rightarrow> ('hw, 'z) spi_client_scheme \<Rightarrow> ('hw, 'z) spi_client_scheme option" where
  "load_txb pf txb_idx frame s = do {
     buf \<leftarrow> txb_bytes frame;
     s \<leftarrow> mcp2515_load_txb pf buf (ucast (dlc frame) + of_nat DAT) (of_nat txb_idx) 0 s;
     mcp2515_write_reg pf (TXBCTRL txb_idx) (ucast (prio frame)) s }"

text \<open>
  What \<open>recv_rxb\<close> makes of the bytes of a receive buffer; the fields it does not assign
  keep the values of \<open>frame\<close>.
\<close>

definition rxb_frame :: "byte list \<Rightarrow> can_frame \<Rightarrow> can_frame option" where
  "rxb_frame buf frame =
    (let sid = push_bit SIDH_SHF (ucast (buf ! SIDH) :: u32) OR drop_bit SIDL_SHF (ucast (buf ! SIDL));
         ide = (ucast (drop_bit EXIDE_SHF (buf ! SIDL)) :: 1 word);
         eid = push_bit SIDL_EID_SHF (ucast (buf ! SIDL) :: u32) OR push_bit EID8_SHF (ucast (buf ! EID8)) OR
           ucast (buf ! EID0);
         i = (if ide \<noteq> 0 then ucast (push_bit CAN_EID_BITS sid OR eid) else ucast sid);
         rt = (ucast (drop_bit RTR_SHF (buf ! DLC)) :: 1 word);
         dl = (if rt \<noteq> 0 then 0 else ucast (buf ! DLC) :: 4 word)
     in if DAT + unat dl \<le> length buf then do {
          d \<leftarrow> buf_copy (data frame) 0 (take (unat dl) (drop DAT buf));
          Some (frame\<lparr>ident := (ident frame)\<lparr>id_num := i, exide := ide, rtr := rt\<rparr>, dlc := dl, data := d\<rparr>) }
        else None)"

definition recv_rxb ::
  "'hw platform \<Rightarrow> nat \<Rightarrow> can_frame \<Rightarrow> ('hw, 'z) spi_client_scheme \<Rightarrow>
    (can_frame \<times> ('hw, 'z) spi_client_scheme) option" where
  "recv_rxb pf rxb_idx frame s = do {
     (buf, s) \<leftarrow> mcp2515_read_rxb pf (replicate MAX_BUF_LEN 0) (of_nat MAX_BUF_LEN) (of_nat rxb_idx) 0 s;
     frame \<leftarrow> rxb_frame buf frame;
     Some (frame, s) }"

subsection \<open>The buffer format\<close>

lemma frame_id_bounds:
  fixes i :: "29 word"
  shows "29 \<le> k \<Longrightarrow> \<not> bit (ucast i :: u32) k" "18 \<le> k \<Longrightarrow> \<not> bit (ucast i AND CAN_EID_MASK) k"
    "11 \<le> k \<Longrightarrow> \<not> bit (drop_bit CAN_EID_BITS (ucast i :: u32)) k"
proof -
  show "18 \<le> k \<Longrightarrow> \<not> bit (ucast i AND CAN_EID_MASK) k"
    using bit_ge [of CAN_EID_MASK 18 k] by (simp add: bit_and_iff) (simp add: can_consts)
qed (auto simp: can_consts bit_simps bit_beyond)

lemma sid_roundtrip:
  assumes "\<forall>i\<ge>11. \<not> bit sid i" "\<forall>i\<ge>18. \<not> bit eid i"
  shows "push_bit SIDH_SHF (ucast (id_bytes sid eid (ucast (ide :: 1 word)) ! SIDH) :: u32) OR
    drop_bit SIDL_SHF (ucast (id_bytes sid eid (ucast ide) ! SIDL)) = sid"
  using assms
  by (intro word_bits_eqI) (auto simp: id_bytes_def ctrl_consts bit_simps bit_beyond upt_word_bits)

lemma ide_roundtrip:
  assumes "\<forall>i\<ge>18. \<not> bit eid i"
  shows "ucast (drop_bit EXIDE_SHF (id_bytes sid eid (ucast ide) ! SIDL)) = (ide :: 1 word)"
  using assms
  by (intro word_bits_eqI) (auto simp: id_bytes_def ctrl_consts bit_simps bit_beyond upt_word_bits)

lemma dlc_roundtrip:
  "ucast (drop_bit RTR_SHF (push_bit RTR_SHF (ucast r) OR ucast d :: byte)) = (r :: 1 word)"
  "ucast (push_bit RTR_SHF (ucast r) OR ucast d :: byte) = (d :: 4 word)"
  by (rule word_bits_eqI; simp add: ctrl_consts bit_simps bit_beyond upt_word_bits)+

text \<open>
  The identifier \<open>recv_rxb\<close> reads from the buffer of an extended frame: the byte with the
  low standard bits and the extended flag is not masked before it is shifted into place,
  so bit 19 is set and the three low standard bits are repeated in bits 21 to 23.
\<close>

definition ext_id_read :: "29 word \<Rightarrow> 29 word" where
  "ext_id_read i = i OR push_bit 19 1 OR push_bit 21 (drop_bit 18 i AND 7)"

lemma ext_id_roundtrip:
  fixes i :: "29 word"
  defines "b \<equiv> id_bytes (drop_bit CAN_EID_BITS (ucast i)) (ucast i AND CAN_EID_MASK) 1"
  shows "ucast (push_bit CAN_EID_BITS (drop_bit CAN_EID_BITS (ucast i)) OR
     (push_bit SIDL_EID_SHF (ucast (b ! SIDL) :: u32) OR push_bit EID8_SHF (ucast (b ! EID8)) OR
       ucast (b ! EID0))) = ext_id_read i"
  unfolding b_def ext_id_read_def
  by (intro word_bits_eqI) (simp add: id_bytes_def ctrl_consts can_consts bit_simps upt_word_bits)

definition id_read :: "can_id \<Rightarrow> 29 word" where
  "id_read c = (if exide c = 0 then id_num c else ext_id_read (id_num c))"

text \<open>The identifier fits its frame format: 11 bits in a standard frame.\<close>

definition id_fits :: "can_id \<Rightarrow> bool" where
  "id_fits c \<longleftrightarrow> (exide c = 0 \<longrightarrow> id_num c < 2 ^ CAN_SID_BITS)"

lemma std_id_bounds: "(i :: 29 word) < 2 ^ CAN_SID_BITS \<Longrightarrow> 11 \<le> k \<Longrightarrow> \<not> bit (ucast i :: u32) k"
  using bit_ge [of i 11 k] by (auto simp: can_consts bit_simps)

lemma one_word_cases: "(w :: 1 word) = 0 \<or> w = 1"
  using unsigned_less [of w, where ?'a = nat] by (auto simp: less_2_cases_iff word_unat_eq_iff)

lemma word_split_ids:
  assumes "id_fits c"
  obtains sid eid where "split_id (exide c \<noteq> 0) (ucast (id_num c)) = (sid, eid)"
    "\<forall>i\<ge>11. \<not> bit sid i" "\<forall>i\<ge>18. \<not> bit eid i"
proof (cases "exide c = 0")
  case True
  with assms show ?thesis by (intro that [of "ucast (id_num c)" 0])
      (auto simp: split_id_def id_fits_def dest: std_id_bounds)
next
  case False
  then show ?thesis using frame_id_bounds
    by (intro that [of "drop_bit CAN_EID_BITS (ucast (id_num c))" "ucast (id_num c) AND CAN_EID_MASK"])
      (auto simp: split_id_def)
qed

lemma ucast_id_ucast: "ucast (ucast (i :: 29 word) :: u32) = i"
  by (rule bit_word_eqI) (simp add: bit_simps)

text \<open>What is read back from the bytes of a frame.\<close>

definition frame_read :: "can_frame \<Rightarrow> can_frame \<Rightarrow> can_frame" where
  "frame_read f g =
    (let n = (if rtr (ident f) \<noteq> 0 then 0 else dlc f) in
     g\<lparr>ident := (ident g)\<lparr>id_num := id_read (ident f), exide := exide (ident f), rtr := rtr (ident f)\<rparr>,
       dlc := n, data := take (unat n) (data f) @ drop (unat n) (data g)\<rparr>)"

lemma id_bytes_length [simp]: "length (id_bytes a b c) = 4"
  by (simp add: id_bytes_def)

lemma txb_bytes_ok:
  assumes "frame_ok f" "unat (dlc f) \<le> CAN_MAX_DLC"
    and "split_id (exide (ident f) \<noteq> 0) (ucast (id_num (ident f))) = (sid, eid)"
  shows "txb_bytes f = Some (id_bytes sid eid (ucast (exide (ident f))) @
      (push_bit RTR_SHF (ucast (rtr (ident f))) OR ucast (dlc f)) #
      take (unat (dlc f)) (data f) @ replicate (CAN_MAX_DLC - unat (dlc f)) 0)"
  using assms by (simp add: txb_bytes_def frame_ok_def ctrl_consts can_consts min_absorb1)

lemma rxb_frame_bytes:
  assumes f: "frame_ok f" "unat (dlc f) \<le> CAN_MAX_DLC" "id_fits (ident f)" and g: "frame_ok g"
    and b: "txb_bytes f = Some b" and b': "length b' = MAX_BUF_LEN" "take (unat (dlc f) + DAT) b' = take (unat (dlc f) + DAT) b"
  shows "rxb_frame b' g = Some (frame_read f g)"
proof -
  obtain sid eid where sp: "split_id (exide (ident f) \<noteq> 0) (ucast (id_num (ident f))) = (sid, eid)"
    and bnd: "\<forall>i\<ge>11. \<not> bit sid i" "\<forall>i\<ge>18. \<not> bit eid i"
    using word_split_ids [OF f(3)] by metis
  let ?w = "id_bytes sid eid (ucast (exide (ident f)))"
  let ?dl = "push_bit RTR_SHF (ucast (rtr (ident f))) OR ucast (dlc f) :: byte"
  have bb: "b = ?w @ ?dl # take (unat (dlc f)) (data f) @ replicate (CAN_MAX_DLC - unat (dlc f)) 0"
    using b txb_bytes_ok [OF f(1,2) sp] by simp
  have tk: "take (unat (dlc f) + 5) b' = ?w @ ?dl # take (unat (dlc f)) (data f)"
    using b'(2) f by (simp add: bb ctrl_consts frame_ok_def can_consts)
  then have "b' ! i = (?w @ ?dl # take (unat (dlc f)) (data f)) ! i" if "i < 5" for i
    using that by (metis nth_take trans_less_add2)
  then have nth: "b' ! SIDH = ?w ! SIDH" "b' ! SIDL = ?w ! SIDL" "b' ! EID8 = ?w ! EID8" "b' ! EID0 = ?w ! EID0"
      "b' ! DLC = ?dl" by (simp_all add: ctrl_consts nth_append)
  have dat: "take (unat (dlc f)) (drop DAT b') = take (unat (dlc f)) (data f)"
    using arg_cong [OF tk, of "drop 5"] by (simp add: ctrl_consts drop_take)
  note eqs = sid_roundtrip [OF bnd, of "exide (ident f)", folded nth(1,2)]
    ide_roundtrip [OF bnd(2), of sid "exide (ident f)", folded nth(2)]
    dlc_roundtrip [of "rtr (ident f)" "dlc f", folded nth(5)]
  have i: "(if exide (ident f) \<noteq> 0 then ucast (push_bit CAN_EID_BITS sid OR (push_bit SIDL_EID_SHF (ucast (b' ! SIDL)) OR
      push_bit EID8_SHF (ucast (b' ! EID8)) OR ucast (b' ! EID0))) else ucast sid) = id_read (ident f)"
    using sp one_word_cases [of "exide (ident f)"] ext_id_roundtrip [of "id_num (ident f)"]
    by (auto simp: id_read_def split_id_def nth ucast_id_ucast)
  have len: "DAT + unat (if rtr (ident f) \<noteq> 0 then 0 else dlc f) \<le> length b'"
    "take (unat (if rtr (ident f) \<noteq> 0 then 0 else dlc f)) (drop DAT b') =
      take (unat (if rtr (ident f) \<noteq> 0 then 0 else dlc f)) (data f)"
    using f(2) b'(1) dat by (auto simp: ctrl_consts can_consts)
  show ?thesis
    unfolding rxb_frame_def Let_def eqs i len(2) using len(1) f(1,2) g
    by (simp add: frame_read_def Let_def frame_ok_def can_consts)
qed

subsection \<open>Frames through the controller's buffers\<close>

lemma wr_regs_in: "j < length bs \<Longrightarrow> j < 256 \<Longrightarrow> wr_regs R a bs (a + of_nat j) = bs ! j"
  by (simp add: wr_regs_def unat_of_nat take_bit_nat_eq_self)

lemma wr_regs_out: "length bs \<le> unat (x - a) \<Longrightarrow> wr_regs R a bs x = R x"
  by (simp add: wr_regs_def)

definition buf_regs :: "byte \<Rightarrow> nat \<Rightarrow> byte set" where
  "buf_regs a n = (\<lambda>j. a + of_nat j) ` {..<n}"

lemma buf_regsI: "buf_regs a n \<subseteq> A \<Longrightarrow> j < n \<Longrightarrow> a + of_nat j \<in> A"
  by (auto simp: buf_regs_def)

lemma wr_regs_frame: "x \<notin> buf_regs a n \<Longrightarrow> length bs \<le> n \<Longrightarrow> wr_regs R a bs x = R x"
proof (rule wr_regs_out, rule ccontr)
  assume "x \<notin> buf_regs a n" "length bs \<le> n" "\<not> length bs \<le> unat (x - a)"
  moreover have "x = a + of_nat (unat (x - a))" by simp
  ultimately show False unfolding buf_regs_def by (metis imageI lessThan_iff less_le_trans not_le)
qed

lemma txb_bytes_length: "frame_ok f \<Longrightarrow> unat (dlc f) \<le> CAN_MAX_DLC \<Longrightarrow> \<exists>b. txb_bytes f = Some b \<and> length b = MAX_BUF_LEN"
  by (cases "split_id (exide (ident f) \<noteq> 0) (ucast (id_num (ident f)))")
    (auto simp: txb_bytes_ok frame_ok_def ctrl_consts can_consts)

lemma load_txb_ok:
  assumes ok: "chip_ok pf level regs A" and s: "link_ready level s"
    and f: "frame_ok f" "unat (dlc f) \<le> CAN_MAX_DLC" and i: "i < 3" and A: "buf_regs (TXBSIDH i) MAX_BUF_LEN \<subseteq> A"
  shows "\<exists>b s'. txb_bytes f = Some b \<and> load_txb pf i f s = Some s' \<and> kept level s s' \<and>
    (\<forall>j < unat (dlc f) + DAT. creg regs s' (TXBSIDH i + of_nat j) = b ! j) \<and>
    (\<forall>x\<in>A. x \<notin> buf_regs (TXBSIDH i) MAX_BUF_LEN \<longrightarrow> x \<noteq> TXBCTRL i \<longrightarrow> creg regs s' x = creg regs s x)"
proof -
  obtain b where b: "txb_bytes f = Some b" "length b = MAX_BUF_LEN" using txb_bytes_length [OF f] by auto
  let ?n = "ucast (dlc f) + of_nat DAT :: byte"
  have n: "unat ?n = unat (dlc f) + DAT"
    using f(2) by (simp add: ctrl_consts can_consts unat_word_ariths unsigned_ucast_eq take_bit_nat_def)
  obtain s1 where s1: "mcp2515_load_txb pf b ?n (of_nat i) 0 s = Some s1" "kept level s s1"
    "\<forall>x\<in>A. creg regs s1 x = wr_regs (creg regs s) (TXBSIDH i) (take (unat (dlc f) + DAT) b) x"
    using mcp2515_load_txb_ok [OF ok s, of ?n b i, unfolded n] f(2) b(2) i
    by (auto simp: SPI_TRANS_MAX_SIZE_def ctrl_consts can_consts)
  obtain s2 where s2: "mcp2515_write_reg pf (TXBCTRL i) (ucast (prio f)) s1 = Some s2" "kept level s1 s2"
    "\<forall>x\<in>A. creg regs s2 x = wr_regs (creg regs s1) (TXBCTRL i) [ucast (prio f)] x"
    using mcp2515_write_reg_ok [OF ok kept_ready [OF s1(2)]] by blast
  have "creg regs s2 (TXBSIDH i + of_nat j) = b ! j" if j: "j < unat (dlc f) + DAT" for j
  proof -
    have j': "j < MAX_BUF_LEN" using j f(2) by (simp add: ctrl_consts can_consts)
    then have "TXBSIDH i + of_nat j \<in> A" by (rule buf_regsI [OF A])
    moreover have "unat (TXBSIDH i + of_nat j - TXBCTRL i) \<ge> 1"
      using j' by (simp add: mcp_consts ctrl_consts unat_word_ariths unat_of_nat take_bit_nat_def)
    ultimately show ?thesis using s1(3) s2(3) j j' b(2)
      by (simp add: wr_regs_out wr_regs_in ctrl_consts)
  qed
  moreover have "creg regs s2 x = creg regs s x"
    if "x \<in> A" "x \<notin> buf_regs (TXBSIDH i) MAX_BUF_LEN" "x \<noteq> TXBCTRL i" for x
  proof -
    have "wr_regs R (TXBSIDH i) (take (unat (dlc f) + DAT) b) x = R x" for R
      using that(2) b(2) by (intro wr_regs_frame) auto
    moreover have "wr_regs R (TXBCTRL i) [v] x = R x" for R v
      using that(3) by (simp add: wr_regs_def unat_eq_zero)
    ultimately show ?thesis using s1(3) s2(3) that(1) by simp
  qed
  ultimately show ?thesis using b(1) s1(1,2) s2(1,2) by (auto simp: load_txb_def kept_def)
qed

lemma recv_rxb_ok:
  assumes ok: "chip_ok pf level regs A" and s: "link_ready level s"
    and f: "frame_ok f" "unat (dlc f) \<le> CAN_MAX_DLC" "id_fits (ident f)" and g: "frame_ok g"
    and b: "txb_bytes f = Some b" and A: "buf_regs (RXBSIDH 0) MAX_BUF_LEN \<subseteq> A"
    and r: "\<forall>j < unat (dlc f) + DAT. creg regs s (RXBSIDH 0 + of_nat j) = b ! j"
  shows "\<exists>s'. recv_rxb pf 0 g s = Some (frame_read f g, s') \<and> kept level s s' \<and>
    (\<forall>x\<in>A. creg regs s' x = creg regs s x)"
proof -
  have n: "unat (of_nat MAX_BUF_LEN :: byte) = MAX_BUF_LEN" by (simp add: ctrl_consts)
  obtain bs s' where s': "mcp2515_read_rxb pf (replicate MAX_BUF_LEN 0) (of_nat MAX_BUF_LEN) 0 0 s = Some (bs, s')"
    "kept level s s'" "length bs = MAX_BUF_LEN" "\<forall>x\<in>A. creg regs s' x = creg regs s x"
    "\<forall>j<MAX_BUF_LEN. RXBSIDH 0 + of_nat j \<in> A \<longrightarrow> bs ! j = creg regs s (RXBSIDH 0 + of_nat j)"
    using mcp2515_read_rxb_ok [OF ok s, of "of_nat MAX_BUF_LEN" "replicate MAX_BUF_LEN 0", unfolded n]
    by (auto simp: SPI_TRANS_MAX_SIZE_def ctrl_consts)
  have m: "unat (dlc f) + DAT \<le> MAX_BUF_LEN" using f(2) by (simp add: ctrl_consts can_consts)
  have "length b = MAX_BUF_LEN" using txb_bytes_length [OF f(1,2)] b by auto
  moreover have "bs ! j = b ! j" if "j < unat (dlc f) + DAT" for j
    using that m s'(5) r buf_regsI [OF A, of j] by auto
  ultimately have "take (unat (dlc f) + DAT) bs = take (unat (dlc f) + DAT) b"
    using s'(3) m by (intro nth_equalityI) auto
  from rxb_frame_bytes [OF f g b s'(3) this] s' show ?thesis by (simp add: recv_rxb_def)
qed

subsection \<open>Properties of the buffers\<close>


definition demo_frame :: can_frame where
  "demo_frame = \<lparr>ident = \<lparr>id_num = 0x123, exide = 0, rtr = 0, err = 0\<rparr>, prio = 0, dlc = 8,
     data = [8, 7, 6, 5, 4, 3, 2, 1]\<rparr>"

definition demo_bus :: "byte \<Rightarrow> byte" where
  "demo_bus x = (case load_txb chip_platform 0 demo_frame (link_state (\<lambda>_. 0)) of
     None \<Rightarrow> 0 | Some s \<Rightarrow> creg snd s (x - 0x30))"

lemma demo_frame_facts:
  "frame_ok demo_frame" "unat (dlc demo_frame) \<le> CAN_MAX_DLC" "exide (ident demo_frame) = 0"
  "rtr (ident demo_frame) = 0" "id_num (ident demo_frame) < 2 ^ CAN_SID_BITS"
  by (simp_all add: demo_frame_def frame_ok_def can_consts)

lemma demo_bus_regs:
  "load_txb chip_platform 0 demo_frame (link_state (\<lambda>_. 0)) = Some s' \<Longrightarrow>
   \<forall>j<MAX_BUF_LEN. creg snd (link_state demo_bus) (RXBSIDH 0 + of_nat j) = creg snd s' (TXBSIDH 0 + of_nat j)"
  by (simp add: demo_bus_def) (simp add: mcp_consts)




subsection \<open>Properties of the acceptance filters\<close>

definition reg_bytes :: "(byte \<Rightarrow> byte) \<Rightarrow> byte \<Rightarrow> byte list" where
  "reg_bytes R a = map (\<lambda>i. R (a + of_nat i)) [0..<4]"

lemma read_regs_ok:
  assumes ok: "chip_ok pf level regs A" and s: "link_ready level s" and A: "buf_regs a FILTER_BYTES \<subseteq> A"
  shows "\<exists>s'. mcp2515_read_nregs pf a FILTER_BYTES (Some (replicate FILTER_BYTES 0)) s =
      Some (Some (reg_bytes (creg regs s) a), s') \<and> kept level s s' \<and>
    (\<forall>x\<in>A. creg regs s' x = creg regs s x)"
proof -
  from mcp2515_read_nregs_ok [OF ok s, of FILTER_BYTES "replicate FILTER_BYTES 0" a] obtain bs s' where
    "mcp2515_read_nregs pf a FILTER_BYTES (Some (replicate FILTER_BYTES 0)) s = Some (Some bs, s')"
    and r: "kept level s s'" "length bs = 4" "\<forall>x\<in>A. creg regs s' x = creg regs s x"
      "\<forall>i<4. a + of_nat i \<in> A \<longrightarrow> bs ! i = creg regs s (a + of_nat i)"
    by (auto simp: ctrl_consts SPI_TRANS_MAX_SIZE_def)
  moreover have "bs = reg_bytes (creg regs s) a"
    using r buf_regsI [OF A] by (intro nth_equalityI) (auto simp: ctrl_consts reg_bytes_def)
  ultimately show ?thesis by auto
qed

definition filter_clear :: "(byte \<Rightarrow> byte) \<Rightarrow> byte \<Rightarrow> bool" where
  "filter_clear R a \<longleftrightarrow> (\<forall>i<4. R (a + of_nat i) = 0)"

lemma fold_or_zero: "fold (OR) bs (a :: byte) = 0 \<longleftrightarrow> a = 0 \<and> (\<forall>b\<in>set bs. b = 0)"
  by (induction bs arbitrary: a) (auto simp: or_eq_0_iff)

lemma is_filter_empty_ok:
  assumes ok: "chip_ok pf level regs A" and s: "link_ready level s" and A: "buf_regs (RXFSIDH i) FILTER_BYTES \<subseteq> A"
  shows "\<exists>s'. is_filter_empty pf i s = Some (filter_clear (creg regs s) (RXFSIDH i), s') \<and> kept level s s' \<and>
    (\<forall>x\<in>A. creg regs s' x = creg regs s x)"
  using read_regs_ok [OF assms] by (auto simp: is_filter_empty_def fold_or_zero filter_clear_def reg_bytes_def)

definition wr_mask :: "nat \<Rightarrow> can_id \<Rightarrow> u32 \<Rightarrow> (byte \<Rightarrow> byte) \<Rightarrow> byte \<Rightarrow> byte" where
  "wr_mask m cid msk R = (if msk = 0 then R else
     wr_regs R (RXMSIDH m) (case split_id (exide cid \<noteq> 0) msk of (sid, eid) \<Rightarrow> id_bytes sid eid 0))"

definition wr_filter :: "nat \<Rightarrow> can_id \<Rightarrow> (byte \<Rightarrow> byte) \<Rightarrow> byte \<Rightarrow> byte" where
  "wr_filter i cid R = wr_regs R (RXFSIDH i)
     (case split_id (exide cid \<noteq> 0) (ucast (id_num cid)) of (sid, eid) \<Rightarrow> id_bytes sid eid (ucast (exide cid)))"

lemma write_to_filter_ok:
  assumes ok: "chip_ok pf level regs A" and s: "link_ready level s"
  shows "\<exists>s'. write_to_filter pf i cid msk s = Some s' \<and> kept level s s' \<and>
    (\<forall>x\<in>A. creg regs s' x = wr_filter i cid (wr_mask (if i < FILTS_OF_MASK0 then 0 else 1) cid msk (creg regs s)) x)"
proof -
  let ?m = "if i < FILTS_OF_MASK0 then 0 else 1"
  obtain ms me where m: "split_id (exide cid \<noteq> 0) msk = (ms, me)" by fastforce
  obtain fs fe where f: "split_id (exide cid \<noteq> 0) (ucast (id_num cid)) = (fs, fe)" by fastforce
  have "\<exists>s1. (if msk \<noteq> 0 then mcp2515_write_nregs pf (RXMSIDH ?m) (Some (id_bytes ms me 0)) FILTER_BYTES s else Some s)
      = Some s1 \<and> kept level s s1 \<and> (\<forall>x\<in>A. creg regs s1 x = wr_mask ?m cid msk (creg regs s) x)"
    using mcp2515_write_nregs_ok [OF ok s, of FILTER_BYTES "id_bytes ms me 0" "RXMSIDH ?m"] s
    by (auto simp: wr_mask_def m ctrl_consts SPI_TRANS_MAX_SIZE_def kept_def)
  then obtain s1 where s1: "(if msk \<noteq> 0 then mcp2515_write_nregs pf (RXMSIDH ?m) (Some (id_bytes ms me 0)) FILTER_BYTES s else Some s)
      = Some s1" "kept level s s1" "\<forall>x\<in>A. creg regs s1 x = wr_mask ?m cid msk (creg regs s) x" by blast
  obtain s2 where s2: "mcp2515_write_nregs pf (RXFSIDH i) (Some (id_bytes fs fe (ucast (exide cid)))) FILTER_BYTES s1 = Some s2"
    "kept level s1 s2" "\<forall>x\<in>A. creg regs s2 x = wr_regs (creg regs s1) (RXFSIDH i) (id_bytes fs fe (ucast (exide cid))) x"
    using mcp2515_write_nregs_ok [OF ok kept_ready [OF s1(2)], of FILTER_BYTES "id_bytes fs fe (ucast (exide cid))" "RXFSIDH i"]
    by (auto simp: ctrl_consts SPI_TRANS_MAX_SIZE_def)
  have "write_to_filter pf i cid msk s = Some s2"
    using s1(1) s2(1) by (auto simp: write_to_filter_def m f split: if_splits)
  moreover have "\<forall>x\<in>A. creg regs s2 x = wr_filter i cid (wr_mask ?m cid msk (creg regs s)) x"
    using s1(3) s2(3) by (simp add: wr_filter_def f wr_regs_def Let_def)
  ultimately show ?thesis using kept_trans [OF s1(2) s2(2)] by blast
qed

text \<open>
  How the controller uses the registers: the standard identifier in the four registers of
  a mask or filter, and the acceptance of a standard identifier by a mask and a filter.
\<close>

definition reg_sid :: "(byte \<Rightarrow> byte) \<Rightarrow> byte \<Rightarrow> u32" where
  "reg_sid R a = push_bit 3 (ucast (R a)) OR drop_bit 5 (ucast (R (a + 1)))"

definition std_accepts :: "(byte \<Rightarrow> byte) \<Rightarrow> nat \<Rightarrow> nat \<Rightarrow> u32 \<Rightarrow> bool" where
  "std_accepts R m i x \<longleftrightarrow> (x XOR reg_sid R (RXFSIDH i)) AND reg_sid R (RXMSIDH m) = 0"

lemma reg_sid_written:
  assumes "sid < 2 ^ 11"
  shows "reg_sid (wr_regs R a (id_bytes sid 0 0)) a = sid"
proof -
  have "wr_regs R a (id_bytes sid 0 0) a = id_bytes sid 0 0 ! 0"
    "wr_regs R a (id_bytes sid 0 0) (a + 1) = id_bytes sid 0 0 ! 1"
    using wr_regs_in [of 0 "id_bytes sid 0 0" R a] wr_regs_in [of 1 "id_bytes sid 0 0" R a] by simp_all
  then show ?thesis using sid_roundtrip [of sid 0 0] bit_ge [of sid 11] assms
    by (simp add: reg_sid_def ctrl_consts)
qed

lemma reg_sid_cong: "R a = R' a \<Longrightarrow> R (a + 1) = R' (a + 1) \<Longrightarrow> reg_sid R a = reg_sid R' a"
  by (simp add: reg_sid_def)

lemma reg_sid_mask_kept:
  assumes "i < 6" "m < 2"
  shows "reg_sid (wr_filter i cid R) (RXMSIDH m) = reg_sid R (RXMSIDH m)"
proof -
  have "i = 0 \<or> i = 1 \<or> i = 2 \<or> i = 3 \<or> i = 4 \<or> i = 5" "m = 0 \<or> m = 1" using assms by auto
  then show ?thesis
    by (intro reg_sid_cong) (auto simp: wr_filter_def wr_regs_def mcp_consts split: prod.split)
qed

lemma read_mask_zero: "read_mask (reg_bytes R a) = (0, 0)" if "filter_clear R a"
proof -
  have "reg_bytes R a = replicate 4 0"
    using that by (intro nth_equalityI) (auto simp: filter_clear_def reg_bytes_def)
  then show ?thesis by (simp only:) (simp add: read_mask_def ctrl_consts)
qed

lemma both_masks: "[0..<NUM_OF_MASKS] = [0, 1]"
  by (simp add: ctrl_consts upt_rec)


definition demo_id :: can_id where
  "demo_id = \<lparr>id_num = 0x123, exide = 0, rtr = 0, err = 0\<rparr>"


text \<open>A mask that a previous call has stored, as the next call sees it.\<close>

lemma read_mask_written: "m < 2 ^ 11 \<Longrightarrow> read_mask (id_bytes m 0 0) = (ucast m, 0)"
  using bit_ge [of m 11]
  by (auto simp: read_mask_def id_bytes_def ctrl_consts intro!: word_bits_eqI) (simp_all add: bit_simps upt_word_bits)

lemma cur_mask_std: "drop_bit CAN_EID_BITS (push_bit CAN_EID_BITS (ucast (b :: byte)) OR (ucast (0 :: byte)) :: u32) = ucast b"
  by (rule word_bits_eqI) (simp add: can_consts bit_simps upt_word_bits bit_beyond)

lemma ucast_byte_zero: "(ucast (ucast m :: byte) :: u32) = 0 \<longleftrightarrow> m AND 0xFF = (0 :: u32)"
proof -
  have "(ucast (ucast m :: byte) :: u32) = m AND 0xFF"
    by (rule word_bits_eqI) (simp add: bit_simps upt_word_bits)
  then show ?thesis by simp
qed

text \<open>The first turn of the loop, when the first mask is the standard mask \<open>m\<close>.\<close>

lemma set_rx_filter_mask0:
  assumes ok: "chip_ok pf level regs A" and s: "link_ready level s" and A: "buf_regs (RXMSIDH 0) FILTER_BYTES \<subseteq> A"
    and m: "reg_bytes (creg regs s) (RXMSIDH 0) = id_bytes m 0 0" "m < 2 ^ CAN_SID_BITS" and cid: "exide cid = 0"
  shows "\<exists>s1. kept level s s1 \<and> (\<forall>x\<in>A. creg regs s1 x = creg regs s x) \<and> set_rx_filter pf cid msk s =
    (if m AND 0xFF = 0 then do { s \<leftarrow> write_to_filter pf 0 cid msk s1; Some (0, s) }
     else if m AND 0xFF = msk then do {
       (j, s) \<leftarrow> first_empty pf (mask_filters 0) s1;
       (case j of
          Some j \<Rightarrow> do { s \<leftarrow> write_to_filter pf j cid 0 s; Some (int j, s) }
        | None \<Rightarrow> set_rx_filter_loop pf cid msk [Suc 0] s) }
     else set_rx_filter_loop pf cid msk [Suc 0] s1)"
proof -
  from read_regs_ok [OF ok s A] obtain s1 where
    s1: "mcp2515_read_nregs pf (RXMSIDH 0) FILTER_BYTES (Some (replicate FILTER_BYTES 0)) s =
      Some (Some (id_bytes m 0 0), s1)" "kept level s s1" "\<forall>x\<in>A. creg regs s1 x = creg regs s x"
    unfolding m(1) by blast
  have b: "(ucast (ucast m :: byte) :: u32) = m AND 0xFF"
    by (rule word_bits_eqI) (simp add: bit_simps upt_word_bits)
  have "set_rx_filter_loop pf cid msk [0, Suc 0] s = set_rx_filter pf cid msk s"
    by (simp only: set_rx_filter_def both_masks One_nat_def)
  moreover have "read_mask (id_bytes m 0 0) = (ucast m, 0)" using m(2) by (simp add: read_mask_written can_consts)
  ultimately show ?thesis using s1 cid b cur_mask_std [of "ucast m"]
    by (intro exI [of _ s1]) (auto simp: Let_def)
qed

lemma first_empty_two:
  assumes ok: "chip_ok pf level regs A" and s: "link_ready level s"
    and A: "buf_regs (RXFSIDH 0) FILTER_BYTES \<subseteq> A" "buf_regs (RXFSIDH 1) FILTER_BYTES \<subseteq> A"
    and f: "\<not> filter_clear (creg regs s) (RXFSIDH 0)" "filter_clear (creg regs s) (RXFSIDH 1)"
  shows "\<exists>s'. first_empty pf (mask_filters 0) s = Some (Some 1, s') \<and> kept level s s' \<and>
    (\<forall>x\<in>A. creg regs s' x = creg regs s x)"
proof -
  from is_filter_empty_ok [OF ok s A(1)] f(1) obtain s1 where
    s1: "is_filter_empty pf 0 s = Some (False, s1)" "kept level s s1" "\<forall>x\<in>A. creg regs s1 x = creg regs s x" by auto
  have "filter_clear (creg regs s1) (RXFSIDH 1)"
    using f(2) s1(3) buf_regsI [OF A(2)] by (auto simp: filter_clear_def ctrl_consts)
  with is_filter_empty_ok [OF ok kept_ready [OF s1(2)] A(2)] s1 show ?thesis
    by (auto simp: mask_filters_def ctrl_consts upt_rec dest: kept_trans)
qed

lemma filter_id_read:
  assumes "exide cid = 0" "id_num cid < 2 ^ CAN_SID_BITS"
  shows "reg_sid (wr_filter i cid R) (RXFSIDH i) = ucast (id_num cid)"
  using assms by (simp add: wr_filter_def split_id_def reg_sid_written can_consts word_less_nat_alt
      unsigned_ucast_eq take_bit_nat_def)

lemma filter0_kept: "reg_sid (wr_filter 1 cid R) (RXFSIDH 0) = reg_sid R (RXFSIDH 0)"
  by (intro reg_sid_cong) (auto simp: wr_filter_def wr_regs_def mcp_consts split: prod.split)

lemma reg_sid_A: "buf_regs a FILTER_BYTES \<subseteq> A \<Longrightarrow> \<forall>x\<in>A. R x = R' x \<Longrightarrow> reg_sid R a = reg_sid R' a"
  using buf_regsI [of a FILTER_BYTES A 0] buf_regsI [of a FILTER_BYTES A 1]
  by (intro reg_sid_cong) (auto simp: ctrl_consts)

lemma filter_clear_A:
  "buf_regs a FILTER_BYTES \<subseteq> A \<Longrightarrow> \<forall>x\<in>A. R x = R' x \<Longrightarrow> filter_clear R a = filter_clear R' a"
  using buf_regsI [of a FILTER_BYTES A] by (auto simp: filter_clear_def ctrl_consts)

lemma reg_sid_bytes: "reg_bytes R a = id_bytes m 0 0 \<Longrightarrow> m < 2 ^ 11 \<Longrightarrow> reg_sid R a = m"
proof -
  assume b: "reg_bytes R a = id_bytes m 0 0" and m: "m < 2 ^ 11"
  have "R a = id_bytes m 0 0 ! 0" "R (a + 1) = id_bytes m 0 0 ! 1"
    unfolding b [symmetric] by (simp_all add: reg_bytes_def)
  then show ?thesis using sid_roundtrip [of m 0 0] bit_ge [of m 11] m by (simp add: reg_sid_def ctrl_consts)
qed

text \<open>
  The second filter. When the first mask holds a standard mask below 256, its first
  filter is in use and its second is empty, setting another filter with the same mask
  returns index 1; the second filter then accepts exactly the identifiers that agree with
  the new one on the mask, and the first filter accepts what it accepted before.
\<close>

lemma set_rx_filter_second:
  assumes ok: "chip_ok pf level regs A" and s: "link_ready level s"
    and A: "buf_regs (RXMSIDH 0) FILTER_BYTES \<subseteq> A" "buf_regs (RXFSIDH 0) FILTER_BYTES \<subseteq> A"
      "buf_regs (RXFSIDH 1) FILTER_BYTES \<subseteq> A"
    and m: "reg_bytes (creg regs s) (RXMSIDH 0) = id_bytes m 0 0" "m < 256" "m \<noteq> 0"
    and f: "\<not> filter_clear (creg regs s) (RXFSIDH 0)" "filter_clear (creg regs s) (RXFSIDH 1)"
    and cid: "exide cid = 0" "id_num cid < 2 ^ CAN_SID_BITS"
  shows "\<exists>s'. set_rx_filter pf cid m s = Some (1, s') \<and> kept level s s' \<and>
    (\<forall>x. std_accepts (creg regs s') 0 1 x \<longleftrightarrow> x AND m = ucast (id_num cid) AND m) \<and>
    (\<forall>x. std_accepts (creg regs s') 0 0 x \<longleftrightarrow> std_accepts (creg regs s) 0 0 x)"
proof -
  have m11: "m < 2 ^ CAN_SID_BITS" using m(2) by (simp add: can_consts word_less_nat_alt)
  have "m AND mask 8 = m" using less_mask_eq [of m 8] m(2) by simp
  then have mm: "m AND 0xFF = m" by (simp add: mask_eq_exp_minus_1)
  from set_rx_filter_mask0 [OF ok s A(1) m(1) m11 cid(1), of m] obtain s1 where
    s1: "kept level s s1" "\<forall>x\<in>A. creg regs s1 x = creg regs s x"
    and run: "set_rx_filter pf cid m s = do { (j, s) \<leftarrow> first_empty pf (mask_filters 0) s1;
       (case j of Some j \<Rightarrow> do { s \<leftarrow> write_to_filter pf j cid 0 s; Some (int j, s) }
        | None \<Rightarrow> set_rx_filter_loop pf cid m [Suc 0] s) }"
    unfolding mm using m(3) by auto
  have f1: "\<not> filter_clear (creg regs s1) (RXFSIDH 0)" "filter_clear (creg regs s1) (RXFSIDH 1)"
    using f filter_clear_A [OF A(2) s1(2)] filter_clear_A [OF A(3) s1(2)] by auto
  from first_empty_two [OF ok kept_ready [OF s1(1)] A(2,3) f1] obtain s2 where
    s2: "first_empty pf (mask_filters 0) s1 = Some (Some 1, s2)" "kept level s1 s2"
      "\<forall>x\<in>A. creg regs s2 x = creg regs s1 x" by blast
  from write_to_filter_ok [OF ok kept_ready [OF s2(2)], of 1 cid 0] obtain s3 where
    s3: "write_to_filter pf 1 cid 0 s2 = Some s3" "kept level s2 s3"
      "\<forall>x\<in>A. creg regs s3 x = wr_filter 1 cid (creg regs s2) x" by (auto simp: wr_mask_def)
  have same: "\<forall>x\<in>A. creg regs s2 x = creg regs s x" using s1(2) s2(3) by simp
  have sids: "reg_sid (creg regs s3) (RXMSIDH 0) = m" "reg_sid (creg regs s3) (RXFSIDH 1) = ucast (id_num cid)"
    "reg_sid (creg regs s3) (RXFSIDH 0) = reg_sid (creg regs s) (RXFSIDH 0)"
    "reg_sid (creg regs s) (RXMSIDH 0) = m"
    using reg_sid_A [OF A(1) s3(3)] reg_sid_A [OF A(1) same] reg_sid_A [OF A(2) s3(3)] reg_sid_A [OF A(2) same]
      reg_sid_A [OF A(3) s3(3)] reg_sid_bytes [OF m(1)] m11
    by (simp_all add: reg_sid_mask_kept filter_id_read [OF cid] filter0_kept [simplified] can_consts)
  have "std_accepts (creg regs s3) 0 1 x \<longleftrightarrow> x AND m = ucast (id_num cid) AND m"
    "std_accepts (creg regs s3) 0 0 x \<longleftrightarrow> std_accepts (creg regs s) 0 0 x" for x
    unfolding std_accepts_def sids by (auto simp: bit_eq_iff bit_simps)
  moreover have "set_rx_filter pf cid m s = Some (1, s3)" using run s2(1) s3(1) by simp
  ultimately show ?thesis using kept_trans [OF s1(1) kept_trans [OF s2(2) s3(2)]] by blast
qed

definition used_filter_regs :: "byte \<Rightarrow> byte" where
  "used_filter_regs = (\<lambda>_. 0)(0x20 := 1, 0x21 := 0xE0, 0 := 5)"

lemma all_less_4: "(\<forall>i<(4 :: nat). P i) \<longleftrightarrow> P 0 \<and> P 1 \<and> P 2 \<and> P 3"
  by (auto simp: less_Suc_eq numeral_eq_Suc)

lemma used_filter_facts:
  "reg_bytes used_filter_regs (RXMSIDH 0) = id_bytes 0x0F 0 0"
  "\<not> filter_clear used_filter_regs (RXFSIDH 0)" "filter_clear used_filter_regs (RXFSIDH 1)"
  "exide demo_id = 0" "id_num demo_id < 2 ^ CAN_SID_BITS"
  by (simp_all add: used_filter_regs_def reg_bytes_def filter_clear_def all_less_4 demo_id_def can_consts
      mcp_consts id_bytes_def ctrl_consts upt_word_bits)

lemma set_rx_filter_second_witness:
  "\<exists>s'. set_rx_filter chip_platform demo_id 0x0F (link_state used_filter_regs) = Some (1, s')"
  using set_rx_filter_second [OF chip_platform_ok [of UNIV] link_state_ready, of used_filter_regs "0x0F" demo_id]
    used_filter_facts by auto





end
