(* ===== verification/Can_Bit_Timing.thy ===== *)
theory Can_Bit_Timing
  imports Mcp2515_Controller
begin

text \<open>
  The bit-timing calculation of \<open>set_baudrate\<close> (\<open>components/can/src/controller.c\<close>): the
  segments it computes, and the bit rates it does and does not realise. \<open>DIV_ROUND\<close> is a
  parameter; \<open>div_round_ok\<close> states that it rounds a quotient to a nearest integer, either
  way in the case of a tie, as long as numerator plus denominator do not overflow.
\<close>

definition div_round_ok :: "(u32 \<Rightarrow> u32 \<Rightarrow> u32) \<Rightarrow> bool" where
  "div_round_ok dr \<longleftrightarrow> (\<forall>n d. d \<noteq> 0 \<longrightarrow> unat n + unat d < 2 ^ 32 \<longrightarrow>
     2 * unat n \<le> unat d * (2 * unat (dr n d) + 1) \<and> unat d * (2 * unat (dr n d)) \<le> 2 * unat n + unat d)"

lemma div_round_exact:
  assumes "div_round_ok dr" "d \<noteq> 0" "unat n + unat d < 2 ^ 32" "unat n = unat d * q"
  shows "unat (dr n d) = q"
proof -
  have d: "0 < unat d" using assms(2) by (simp add: unat_gt_0)
  have b: "2 * (unat d * q) \<le> unat d * (2 * unat (dr n d) + 1)" "unat d * (2 * unat (dr n d)) \<le> 2 * (unat d * q) + unat d"
    using assms(1-3) unfolding div_round_ok_def assms(4) [symmetric] by blast+
  have "unat d * (2 * q) \<le> unat d * (2 * unat (dr n d) + 1)" "unat d * (2 * unat (dr n d)) \<le> unat d * (2 * q + 1)"
    using b by (simp_all add: algebra_simps)
  then have "2 * q \<le> 2 * unat (dr n d) + 1" "2 * unat (dr n d) \<le> 2 * q + 1"
    using d mult_left_le_imp_le by blast+
  then show ?thesis by presburger
qed

lemma phseg2_range:
  assumes "div_round_ok dr" "8 \<le> unat tq" "unat tq \<le> 25"
  defines "q \<equiv> unat (dr (ucast tq * of_nat SAMPLE_POINT) 100)"
  shows "30 * unat tq \<le> 100 * q + 50" "100 * q \<le> 30 * unat tq + 50"
proof -
  have u: "unat (ucast tq * of_nat SAMPLE_POINT :: u32) = 30 * unat tq"
    using assms(3) by (simp add: baud_consts unat_word_ariths unsigned_ucast_eq take_bit_nat_def)
  have "2 * (30 * unat tq) \<le> 100 * (2 * q + 1) \<and> 100 * (2 * q) \<le> 2 * (30 * unat tq) + 100"
    using assms(1) [unfolded div_round_ok_def, rule_format, of 100 "ucast tq * of_nat SAMPLE_POINT", unfolded u] assms(3)
    by (simp add: q_def)
  then show "30 * unat tq \<le> 100 * q + 50" "100 * q \<le> 30 * unat tq + 50" by auto
qed

lemma baud_segments_eq:
  assumes "div_round_ok dr" "8 \<le> unat tq" "unat tq \<le> 25"
  obtains q where "30 * unat tq \<le> 100 * q + 50" "100 * q \<le> 30 * unat tq + 50"
    "baud_segments dr tq = (2, of_nat (unat tq - 3 - q), of_nat q)"
proof -
  define q where "q = unat (dr (ucast tq * of_nat SAMPLE_POINT) 100)"
  note r = phseg2_range [OF assms, folded q_def]
  have q: "2 \<le> q" "q \<le> 8" "2 * q + 3 \<le> unat tq" using r assms(2,3) by linarith+
  have p: "(ucast (dr (ucast tq * of_nat SAMPLE_POINT) 100) :: byte) = of_nat q"
    by (simp add: q_def)
  have w: "tq - 1 - of_nat q - of_nat q = of_nat (unat tq - 1 - 2 * q)"
    using q by (simp add: of_nat_diff)
  have u: "unat (of_nat (unat tq - 1 - 2 * q) :: byte) = unat tq - 1 - 2 * q"
    using assms(3) by (simp add: unat_of_nat take_bit_nat_def)
  have e: "unat tq - 1 - 2 * q = 2 \<Longrightarrow> q = unat tq - 3 - q" using q by linarith
  have s: "of_nat q + (of_nat (unat tq - 1 - 2 * q) - 2) = (of_nat (unat tq - 3 - q) :: byte)"
    using q by (simp add: of_nat_diff)
  have "baud_segments dr tq = (2, of_nat (unat tq - 3 - q), of_nat q)"
  proof (cases "unat tq - 1 - 2 * q = 2")
    case True
    with e show ?thesis unfolding baud_segments_def Let_def p w True by simp
  next
    case False
    then have "of_nat (unat tq - 1 - 2 * q) > (2 :: byte)"
      unfolding word_less_nat_alt u using q by simp
    then show ?thesis unfolding baud_segments_def Let_def p w s by simp
  qed
  with r show thesis by (rule that)
qed

subsection \<open>The search for the number of time quanta\<close>

lemma fold_tq_range:
  "\<forall>i\<in>set is. 8 \<le> i \<and> i \<le> 25 \<Longrightarrow> 8 \<le> unat t \<Longrightarrow> unat t \<le> 25 \<Longrightarrow>
   8 \<le> unat (snd (fold (tq_turn dr bt) is (e, t))) \<and> unat (snd (fold (tq_turn dr bt) is (e, t))) \<le> 25"
proof (induction "is" arbitrary: e t)
  case (Cons i "is")
  have "8 \<le> unat (of_nat i :: byte)" "unat (of_nat i :: byte) \<le> 25"
    using Cons.prems(1) by (auto simp: unat_of_nat take_bit_nat_def)
  with Cons.prems Cons.IH [of "of_nat i" "tq_error dr bt i"] Cons.IH [of t e] show ?case
    by (auto simp: tq_turn_def Let_def)
qed simp

lemma baud_tq_num_range: "8 \<le> unat (baud_tq_num dr b)" "unat (baud_tq_num dr b) \<le> 25"
  using fold_tq_range [of "[MIN_TQ_NUM..<MAX_TQ_NUM + 1]" "of_nat MIN_TQ_NUM" dr "dr NS_IN_SEC b" "0xFFFFFFFF"]
  by (auto simp: baud_tq_num_def baud_consts)

text \<open>Once the error is zero the choice stays; before that the least error is not zero.\<close>

lemma fold_tq_zero: "fold (tq_turn dr bt) is (0, t) = (0, t)"
  by (induction "is") (auto simp: tq_turn_def Let_def)

lemma fold_tq_pos:
  "\<forall>i\<in>set is. tq_error dr bt i \<noteq> 0 \<Longrightarrow> e \<noteq> 0 \<Longrightarrow> fst (fold (tq_turn dr bt) is (e, t)) \<noteq> 0"
  by (induction "is" arbitrary: e t) (auto simp: tq_turn_def Let_def)

lemma baud_tq_num_first_exact:
  assumes "8 \<le> k" "k \<le> 25" "tq_error dr (dr NS_IN_SEC b) k = 0"
    and "\<forall>i\<in>set [8..<k]. tq_error dr (dr NS_IN_SEC b) i \<noteq> 0"
  shows "baud_tq_num dr b = of_nat k"
proof -
  have sp: "[MIN_TQ_NUM..<MAX_TQ_NUM + 1] = [8..<k] @ k # [k + 1..<26]"
    using assms(1,2) upt_add_eq_append [of 8 k "26 - k"] upt_conv_Cons [of k 26] by (simp add: baud_consts)
  obtain e t where et: "fold (tq_turn dr (dr NS_IN_SEC b)) [8..<k] (0xFFFFFFFF, of_nat MIN_TQ_NUM) = (e, t)" by fastforce
  have "e \<noteq> 0" using fold_tq_pos [OF assms(4), of "0xFFFFFFFF" "of_nat MIN_TQ_NUM"] by (simp add: et)
  then have "0 < e" using word_neq_0_conv by blast
  then show ?thesis
    unfolding baud_tq_num_def sp by (simp add: et tq_turn_def assms(3) fold_tq_zero)
qed

subsection \<open>What the controller makes of the registers\<close>

text \<open>
  The fields of the three configuration registers: the number of time quanta of a bit and
  the prescaler. A time quantum lasts two periods of the crystal times the prescaler.
\<close>

definition cnf_quanta :: "(byte \<Rightarrow> byte) \<Rightarrow> nat" where
  "cnf_quanta R = 1 + (unat (R (CNF3 + 1) AND 7) + 1) + (unat (drop_bit 3 (R (CNF3 + 1)) AND 7) + 1) +
     (unat (R CNF3 AND 7) + 1)"

definition cnf_brp :: "(byte \<Rightarrow> byte) \<Rightarrow> nat" where
  "cnf_brp R = unat (R (CNF3 + 2) AND 0x3F) + 1"

text \<open>The bit rate is \<open>rate\<close>: that many bits take exactly the crystal's periods of a second.\<close>

definition cnf_rate :: "(byte \<Rightarrow> byte) \<Rightarrow> nat \<Rightarrow> bool" where
  "cnf_rate R rate \<longleftrightarrow> 2 * cnf_brp R * cnf_quanta R * rate = unat OSC_FREQ"

lemma set_baudrate_ok:
  assumes ok: "chip_ok pf level regs A" and s: "link_ready level s" and A: "buf_regs CNF3 3 \<subseteq> A"
    and seg: "baud_segments dr (baud_tq_num dr b) = (pr, p1, p2)"
  shows "\<exists>s'. set_baudrate dr pf b s = Some s' \<and> kept level s s' \<and> (\<forall>j<3. creg regs s' (CNF3 + of_nat j) =
     cnf_bytes 1 (ucast (dr OSC_FREQ (2 * b * ucast (baud_tq_num dr b)))) pr p1 p2 ! j)"
proof -
  let ?c = "cnf_bytes 1 (ucast (dr OSC_FREQ (2 * b * ucast (baud_tq_num dr b)))) pr p1 p2"
  have len: "length ?c = 3" by (simp add: cnf_bytes_def Let_def)
  from mcp2515_write_nregs_ok [OF ok s, of 3 ?c CNF3] obtain s' where
    s': "mcp2515_write_nregs pf CNF3 (Some ?c) 3 s = Some s'" "kept level s s'"
      "\<forall>x\<in>A. creg regs s' x = wr_regs (creg regs s) CNF3 ?c x"
    by (auto simp: len SPI_TRANS_MAX_SIZE_def)
  have "creg regs s' (CNF3 + of_nat j) = ?c ! j" if "j < 3" for j
    using s'(3) buf_regsI [OF A that] that by (simp add: wr_regs_in len)
  with s' show ?thesis by (auto simp: set_baudrate_def hw_set_bit_timing_def seg)
qed

lemma tick: "div_round_ok dr \<Longrightarrow> TIME_PER_TICK dr = 50"
  using div_round_exact [of dr OSC_FREQ NS_IN_SEC 50] by (simp add: TIME_PER_TICK_def baud_consts word_unat_eq_iff)

lemma tq_error_zero_iff:
  assumes "div_round_ok dr"
  shows "tq_error dr bt i = 0 \<longleftrightarrow> unat (dr bt (of_nat i)) mod 50 = 0"
proof -
  let ?e = "dr bt (of_nat i) mod 50"
  have e: "unat ?e = unat (dr bt (of_nat i)) mod 50" by (simp add: unat_mod_distrib)
  then have lt: "unat ?e < 50" by simp
  have a: "50 - ?e \<noteq> 0"
  proof
    assume "50 - ?e = 0"
    then have "?e = 50" by simp
    then have "unat ?e = 50" by (simp only:) simp
    with lt show False by simp
  qed
  have b: "?e = 0 \<longleftrightarrow> unat (dr bt (of_nat i)) mod 50 = 0" using e by (simp add: unat_eq_zero [symmetric])
  have c: "(if 50 < 2 * x then 50 - x else x) = 0 \<longleftrightarrow> x = 0" if "50 - x \<noteq> 0" for x :: u32
    using that by auto
  show ?thesis unfolding tq_error_def tick [OF assms] Let_def c [OF a] b ..
qed

lemma div_round_range:
  assumes "div_round_ok dr" "d \<noteq> 0" "unat n + unat d < 2 ^ 32"
  shows "2 * unat n \<le> 2 * (unat d * unat (dr n d)) + unat d" "2 * (unat d * unat (dr n d)) \<le> 2 * unat n + unat d"
  using assms by (auto simp: div_round_ok_def algebra_simps)

text \<open>The bit rates the calculation realises, with the number of quanta and the prescaler it chooses.\<close>

definition exact_rates :: "(u32 \<times> nat \<times> nat) list" where
  "exact_rates = [(50000, 8, 25), (62500, 8, 20), (125000, 8, 10), (250000, 8, 5), (40000, 10, 25),
     (200000, 10, 5), (1000000, 10, 1)]"

lemma tq_error_exact: "div_round_ok dr \<Longrightarrow> 0 < i \<Longrightarrow> i \<le> 25 \<Longrightarrow> unat bt < 2 ^ 31 \<Longrightarrow> unat bt = i * q \<Longrightarrow>
    tq_error dr bt i = 0 \<longleftrightarrow> q mod 50 = 0"
proof -
  assume dr: "div_round_ok dr" and i: "0 < i" "i \<le> 25" and bt: "unat bt < 2 ^ 31" "unat bt = i * q"
  have u: "unat (of_nat i :: u32) = i" using i by (simp add: unat_of_nat take_bit_nat_def)
  then have "(of_nat i :: u32) \<noteq> 0" using i by (metis unat_0 less_irrefl)
  then have "unat (dr bt (of_nat i)) = q" using div_round_exact [OF dr, of "of_nat i" bt q] u i bt by simp
  then show ?thesis by (simp add: tq_error_zero_iff [OF dr])
qed

lemma tq_error_nine:
  assumes "div_round_ok dr" "unat bt = n" "n = 1000 \<or> n = 5000 \<or> n = 25000"
  shows "tq_error dr bt 9 \<noteq> 0"
proof -
  obtain q where q: "unat (dr bt (of_nat 9)) = q" by simp
  have "n < 2 ^ 31" using assms(3) by auto
  then have "2 * n \<le> 2 * (9 * q) + 9" "2 * (9 * q) \<le> 2 * n + 9"
    using div_round_range [OF assms(1), of "of_nat 9" bt] assms(2) q by simp_all
  with assms(3) have "q = 111 \<or> q = 556 \<or> q = 2778" by (elim disjE) simp_all
  then show ?thesis using q by (auto simp: tq_error_zero_iff [OF assms(1)])
qed

lemma exact_rate_times:
  "(b, k, p) \<in> set exact_rates \<Longrightarrow>
    k = 8 \<and> (\<exists>q\<in>{2500, 2000, 1000, 500}. 1000000000 div unat b = 8 * q) \<or>
    k = 10 \<and> (1000000000 div unat b = 1000 \<or> 1000000000 div unat b = 5000 \<or> 1000000000 div unat b = 25000)"
  unfolding exact_rates_def by (simp, elim disjE conjE) simp_all

lemma exact_rate_quanta:
  assumes dr: "div_round_ok dr" and b: "(b, k, p) \<in> set exact_rates"
  shows "baud_tq_num dr b = of_nat k"
proof -
  define bt where "bt = dr NS_IN_SEC b"
  have bt: "unat bt = 1000000000 div unat b"
    unfolding bt_def using b by (intro div_round_exact [OF dr]) (auto simp: exact_rates_def baud_consts)
  have c: "k = 8 \<and> (\<exists>q\<in>{2500, 2000, 1000, 500}. unat bt = 8 * q) \<or>
      k = 10 \<and> (unat bt = 1000 \<or> unat bt = 5000 \<or> unat bt = 25000)"
    unfolding bt by (rule exact_rate_times [OF b])
  have "tq_error dr bt k = 0 \<and> (\<forall>i\<in>set [8..<k]. tq_error dr bt i \<noteq> 0) \<and> 8 \<le> k \<and> k \<le> 25"
    using c
  proof (elim disjE conjE bexE)
    fix q assume k: "k = 8" and q: "q \<in> {2500, 2000, 1000, 500}" "unat bt = 8 * q"
    have "q < 2 ^ 28" "q mod 50 = 0" using q(1) by auto
    then show ?thesis using tq_error_exact [OF dr _ _ _ q(2)] q(2) k by simp
  next
    have ten: ?thesis if "k = 10" "unat bt = 40 * r" "r \<in> {25, 125, 625}" for r
    proof -
      have r: "r < 2 ^ 20" "(4 * r) mod 50 = 0" "(5 * r) mod 50 \<noteq> 0" using that(3) by auto
      have "unat bt = 10 * (4 * r)" "unat bt = 8 * (5 * r)" "unat bt < 2 ^ 31" using that(2) r(1) by simp_all
      then have "tq_error dr bt 10 = 0" "tq_error dr bt 8 \<noteq> 0"
        using tq_error_exact [OF dr, of 10 bt "4 * r"] tq_error_exact [OF dr, of 8 bt "5 * r"] r(2,3) by simp_all
      moreover have "tq_error dr bt 9 \<noteq> 0" using that(3) by (intro tq_error_nine [OF dr that(2)]) auto
      moreover have "set [8..<10] = {8, 9 :: nat}" by auto
      ultimately show ?thesis using that(1) by simp
    qed
    show ?thesis if "k = 10" "unat bt = 1000" using ten [of 25] that by simp
    show ?thesis if "k = 10" "unat bt = 5000" using ten [of 125] that by simp
    show ?thesis if "k = 10" "unat bt = 25000" using ten [of 625] that by simp
  qed
  then show ?thesis by (intro baud_tq_num_first_exact) (auto simp: bt_def)
qed

lemma cnf_fields:
  assumes "unat brp \<in> {1..64}" "unat pr \<in> {1..8}" "unat p1 \<in> {1..8}" "unat p2 \<in> {1..8}"
    and R: "\<forall>j<3. R (CNF3 + of_nat j) = cnf_bytes 1 brp pr p1 p2 ! j"
  shows "cnf_quanta R = 1 + unat pr + unat p1 + unat p2" "cnf_brp R = unat brp"
proof -
  have m: "unat (x - 1) = unat x - 1" if "unat x \<in> {1..n}" for x :: byte and n
    using that by (intro unat_minus_one) (auto simp: unat_gt_0)
  have lt: "pr - 1 < 2 ^ 3" "p1 - 1 < 2 ^ 3" "p2 - 1 < 2 ^ 3" "brp - 1 < 2 ^ 6"
    using assms(1-4) m [OF assms(1)] m [OF assms(2)] m [OF assms(3)] m [OF assms(4)]
    by (auto simp: word_less_nat_alt)
  have f: "(BIT 7 OR push_bit 3 b OR a) AND 7 = a" "drop_bit 3 (BIT 7 OR push_bit 3 b OR a) AND 7 = b"
    "a AND 7 = a" if "a < 2 ^ 3" "b < 2 ^ 3" for a b :: byte
    using bit_ge [OF that(1)] bit_ge [OF that(2)]
    by (auto intro!: word_bits_eqI) (simp_all add: bit_simps upt_word_bits BIT_def)
  have g: "c AND 0x3F = c" if "c < 2 ^ 6" for c :: byte
    using bit_ge [OF that] by (auto intro!: word_bits_eqI) (simp_all add: bit_simps upt_word_bits)
  have r: "R CNF3 = p2 - 1" "R (CNF3 + 1) = BIT 7 OR push_bit 3 (p1 - 1) OR (pr - 1)" "R (CNF3 + 2) = brp - 1"
    using R [rule_format, of 0] R [rule_format, of 1] R [rule_format, of 2]
    by (simp_all add: cnf_bytes_def CNF2_BTLMODE_def CNF2_PHSEG1_SHF_def)
  show "cnf_quanta R = 1 + unat pr + unat p1 + unat p2"
    unfolding cnf_quanta_def r f [OF lt(1,2)] f(3) [OF lt(3,3)] using assms(2-4) m [OF assms(2)] m [OF assms(3)] m [OF assms(4)] by simp
  show "cnf_brp R = unat brp" unfolding cnf_brp_def r g [OF lt(4)] using assms(1) m [OF assms(1)] by simp
qed

lemma baud_segments_range:
  assumes "div_round_ok dr" "8 \<le> unat tq" "unat tq \<le> 25"
  shows "\<exists>p1 p2. baud_segments dr tq = (2, p1, p2) \<and> 1 + 2 + unat p1 + unat p2 = unat tq \<and>
    2 \<le> unat p2 \<and> unat p2 \<le> 8 \<and> unat p2 \<le> unat p1 \<and> (unat p1 \<le> 8 \<longleftrightarrow> unat tq \<le> 16)"
proof -
  from baud_segments_eq [OF assms] obtain q where q: "30 * unat tq \<le> 100 * q + 50" "100 * q \<le> 30 * unat tq + 50"
    and b: "baud_segments dr tq = (2, of_nat (unat tq - 3 - q), of_nat q)" by blast
  have "unat (of_nat (unat tq - 3 - q) :: byte) = unat tq - 3 - q" "unat (of_nat q :: byte) = q"
    using q assms(3) by (auto simp: unat_of_nat take_bit_nat_def)
  with b show ?thesis using q assms(2,3)
    by (intro exI [of _ "of_nat (unat tq - 3 - q)"] exI [of _ "of_nat q"]) (simp; linarith)
qed

lemma exact_rate_brp:
  assumes "(b, k, p) \<in> set exact_rates"
  shows "p \<in> {1..64}" "unat (2 * b * ucast (of_nat k :: byte)) * p = 20000000"
    "unat (2 * b * ucast (of_nat k :: byte)) = 2 * unat b * k" "2 * b * ucast (of_nat k :: byte) \<noteq> 0"
    "unat (2 * b * ucast (of_nat k :: byte)) < 2 ^ 31"
  using assms unfolding exact_rates_def by (simp_all, elim disjE conjE, simp_all)+

subsection \<open>Properties\<close>



text \<open>A division that rounds to the nearest integer, to instantiate the parameter.\<close>

definition round_div :: "u32 \<Rightarrow> u32 \<Rightarrow> u32" where
  "round_div n d = (n + d div 2) div d"

lemma nat_round_div:
  fixes n d :: nat
  assumes "0 < d"
  shows "2 * n \<le> d * (2 * ((n + d div 2) div d) + 1)" "d * (2 * ((n + d div 2) div d)) \<le> 2 * n + d"
proof -
  obtain x where x: "x = d * ((n + d div 2) div d)" by simp
  have "x \<le> n + d div 2" "n + d div 2 < x + d"
    using assms dividend_less_times_div [OF assms, of "n + d div 2"] unfolding x by (simp_all add: add.commute)
  then have "2 * n \<le> 2 * x + d" "2 * x \<le> 2 * n + d" by linarith+
  then show "2 * n \<le> d * (2 * ((n + d div 2) div d) + 1)" "d * (2 * ((n + d div 2) div d)) \<le> 2 * n + d"
    by (simp_all add: x algebra_simps)
qed

lemma round_div_ok: "div_round_ok round_div"
  unfolding div_round_ok_def
proof (intro allI impI)
  fix n d :: u32
  assume d: "d \<noteq> 0" and lt: "unat n + unat d < 2 ^ 32"
  have "unat n + unat d div 2 < 2 ^ 32" using lt by linarith
  then have "unat (n + d div 2) = unat n + unat d div 2" by (simp add: unat_word_ariths unat_div_distrib)
  then have r: "unat (round_div n d) = (unat n + unat d div 2) div unat d" by (simp add: round_div_def unat_div_distrib)
  have "0 < unat d" using d by (simp add: unat_gt_0)
  then show "2 * unat n \<le> unat d * (2 * unat (round_div n d) + 1) \<and> unat d * (2 * unat (round_div n d)) \<le> 2 * unat n + unat d"
    unfolding r by (intro conjI nat_round_div)
qed



text \<open>
  The common rate of 500 kbit/s is not set: a quantum lasts two periods of the
  crystal times the prescaler, but the search minimises the error against a single period.
  It settles on 8 quanta of 250 ns, for which no prescaler exists, and the rate in the
  registers is not 500 kbit/s, however \<open>DIV_ROUND\<close> rounds the prescaler.
\<close>

lemma set_baudrate_500k_wrong:
  assumes dr: "div_round_ok dr" and ok: "chip_ok pf level regs A" and s: "link_ready level s"
    and A: "buf_regs CNF3 3 \<subseteq> A"
  shows "\<exists>s'. set_baudrate dr pf 500000 s = Some s' \<and> \<not> cnf_rate (creg regs s') 500000"
proof -
  have bt: "unat (dr NS_IN_SEC 500000) = 8 * 250"
    by (rule div_round_exact [OF dr]) (simp_all add: baud_consts)
  have tq: "baud_tq_num dr 500000 = of_nat 8"
    using tq_error_exact [OF dr _ _ _ bt] bt by (intro baud_tq_num_first_exact) auto
  then have "unat (baud_tq_num dr 500000) = 8" by simp
  then obtain p1 p2 where seg: "baud_segments dr (baud_tq_num dr 500000) = (2, p1, p2)"
    and sum: "1 + 2 + unat p1 + unat p2 = 8" "2 \<le> unat p2" "unat p2 \<le> unat p1"
    using baud_segments_range [OF dr baud_tq_num_range] by metis
  let ?d = "2 * 500000 * ucast (baud_tq_num dr 500000) :: u32"
  obtain q where q: "unat (dr OSC_FREQ ?d) = q" by simp
  have "?d = 8000000" by (simp add: tq)
  then have "q = 2 \<or> q = 3" using div_round_range [OF dr, of ?d OSC_FREQ] q by (simp add: baud_consts) linarith
  then have ub: "unat (ucast (dr OSC_FREQ ?d) :: byte) = q" "q = 2 \<or> q = 3"
    using q by (auto simp: unsigned_ucast_eq take_bit_nat_def)
  from set_baudrate_ok [OF ok s A seg] obtain s' where s': "set_baudrate dr pf 500000 s = Some s'"
    "\<forall>j<3. creg regs s' (CNF3 + of_nat j) = cnf_bytes 1 (ucast (dr OSC_FREQ ?d)) 2 p1 p2 ! j" by blast
  have "cnf_quanta (creg regs s') = 8" "cnf_brp (creg regs s') = q"
    using cnf_fields [OF _ _ _ _ s'(2)] ub sum by auto
  with ub(2) s'(1) show ?thesis by (auto simp: cnf_rate_def baud_consts)
qed

lemma set_baudrate_500k_wrong_witness:
  "\<exists>s'. set_baudrate round_div chip_platform 500000 (link_state (\<lambda>_. 0)) = Some s' \<and>
    \<not> cnf_rate (creg snd s') 500000"
  by (rule set_baudrate_500k_wrong [OF round_div_ok chip_platform_ok [of UNIV] link_state_ready]) simp

end
