(* ===== verification/Can_Irq.thy ===== *)
theory Can_Irq
  imports Can_Queue Mcp2515_Controller
begin

text \<open>
  The interrupt side of the CAN component, \<open>components/can/src/irq.c\<close>: the handler and
  the four things it does (message errors, error flags, transmission, reception), enabling
  and disabling of interrupts, and the restart of transmission.

  The component's state extends the SPI link of \<open>Mcp2515_Spi\<close> by the message queues, the
  variables of \<open>irq.c\<close> (\<open>xmit_stopped\<close>, \<open>txb_lock\<close>, \<open>count\<close>), whether the handler is
  registered for the next interrupt, and how often \<open>m_test_unlock\<close> was called. The printed
  messages are not modelled. \<open>irq_count\<close> is the variable \<open>count\<close>.
\<close>

subsection \<open>Model\<close>

record 'hw can_dev = "'hw spi_client" +
  queues :: mq_state
  xmit_stopped :: bool
  txb_lock :: bool
  irq_count :: int
  int_callback :: bool
  test_unlocks :: nat

definition TXIF_MASK :: byte where "TXIF_MASK = CANINTF_TX0IF OR CANINTF_TX1IF OR CANINTF_TX2IF"
definition RXIF_MASK :: byte where "RXIF_MASK = CANINTF_RX0IF OR CANINTF_RX1IF"
definition TXIF_SHF :: nat where "TXIF_SHF = 2"
definition TXB_NUM :: nat where "TXB_NUM = 3"

lemmas irq_consts [model_defs] = TXIF_MASK_def RXIF_MASK_def TXIF_SHF_def TXB_NUM_def

definition report_message_error :: "'hw platform \<Rightarrow> 'hw can_dev \<Rightarrow> 'hw can_dev option" where
  "report_message_error pf s = do {
     (mode, s) \<leftarrow> get_mode pf s;
     s \<leftarrow> (if mode = mode_code REQOP_LISTEN then do {
             s \<leftarrow> set_mode pf REQOP_CONFIG s;
             set_mode pf REQOP_LISTEN s }
           else Some s);
     mcp2515_bit_modify pf CANINTF CANINTE_MERRE 0 s }"

definition report_error :: "'hw platform \<Rightarrow> 'hw can_dev \<Rightarrow> 'hw can_dev option" where
  "report_error pf s = do {
     (flags, s) \<leftarrow> mcp2515_read_reg pf EFLG s;
     s \<leftarrow> (if flags AND (EFLG_RX0OVR OR EFLG_RX1OVR) \<noteq> 0
           then mcp2515_bit_modify pf EFLG (flags AND (EFLG_RX0OVR OR EFLG_RX1OVR)) 0 s
           else Some s);
     mcp2515_bit_modify pf CANINTF CANINTF_ERRIF 0 s }"

text \<open>
  The loop \<open>while (mcp2515_read_reg(r));\<close>. \<open>transmit_message\<close> calls it with the register
  \<open>TXBCTRL(i) & TXBCTRL_TXREQ\<close>.
\<close>

partial_function (option) wait_clear :: "'hw platform \<Rightarrow> byte \<Rightarrow> 'hw can_dev \<Rightarrow> 'hw can_dev option" where
  "wait_clear pf r s = do {
     (v, s) \<leftarrow> mcp2515_read_reg pf r s;
     if v \<noteq> 0 then wait_clear pf r s else Some s }"

fun transmit_loop :: "'hw platform \<Rightarrow> byte \<Rightarrow> nat list \<Rightarrow> byte \<Rightarrow> 'hw can_dev \<Rightarrow> (byte \<times> 'hw can_dev) option" where
  "transmit_loop pf tx [] rts s = Some (rts, s)"
| "transmit_loop pf tx (i # is) rts s =
    (if tx AND BIT i \<noteq> 0 then do {
       (frame, q) \<leftarrow> tx_queue_pop (queues s);
       let s = s\<lparr>queues := q\<rparr>;
       (case frame of
          Some f \<Rightarrow> do {
            s \<leftarrow> wait_clear pf (TXBCTRL i AND TXBCTRL_TXREQ) s;
            s \<leftarrow> load_txb pf i f s;
            transmit_loop pf tx is (rts OR BIT i) s }
        | None \<Rightarrow> do {
            _ \<leftarrow> sync_spinlock_lock (txb_lock s);
            Some (rts, s\<lparr>xmit_stopped := True, txb_lock := False\<rparr>) }) }
     else transmit_loop pf tx is rts s)"

definition transmit_message :: "'hw platform \<Rightarrow> byte \<Rightarrow> 'hw can_dev \<Rightarrow> 'hw can_dev option" where
  "transmit_message pf tx s = do {
     s \<leftarrow> mcp2515_bit_modify pf CANINTF (push_bit TXIF_SHF tx) 0 s;
     (rts, s) \<leftarrow> transmit_loop pf tx [0..<TXB_NUM] 0 s;
     mcp2515_rts pf rts s }"

text \<open>
  The frame variable of \<open>receive_message\<close> is uninitialised (\<open>garbage\<close>) and shared by the
  two receptions. The first component of the result is \<open>ret\<close>, minus the number of frames
  dropped.
\<close>

definition receive_one ::
  "'hw platform \<Rightarrow> nat \<Rightarrow> can_frame \<times> int \<Rightarrow> 'hw can_dev \<Rightarrow> ((can_frame \<times> int) \<times> 'hw can_dev) option" where
  "receive_one pf i = (\<lambda>(frame, ret) s. do {
     (frame, s) \<leftarrow> recv_rxb pf i frame s;
     (r, q) \<leftarrow> rx_queue_push frame (queues s);
     Some ((frame, ret + r), s\<lparr>queues := q\<rparr>) })"

definition receive_message ::
  "'hw platform \<Rightarrow> can_frame \<Rightarrow> byte \<Rightarrow> 'hw can_dev \<Rightarrow> (int \<times> 'hw can_dev) option" where
  "receive_message pf garbage rx s = do {
     (v, s) \<leftarrow> (if rx AND BIT 0 \<noteq> 0 then receive_one pf 0 (garbage, 0) s else Some ((garbage, 0), s));
     (v, s) \<leftarrow> (if rx AND BIT 1 \<noteq> 0 then receive_one pf 1 v s else Some (v, s));
     s \<leftarrow> mcp2515_bit_modify pf CANINTF rx 0 s;
     Some (snd v, s) }"

definition disable_intrrupt :: "'hw platform \<Rightarrow> 'hw can_dev \<Rightarrow> 'hw can_dev option" where
  "disable_intrrupt pf s = mcp2515_write_reg pf CANINTE 0 s"

definition irq_handler :: "'hw platform \<Rightarrow> can_frame \<Rightarrow> 'hw can_dev \<Rightarrow> 'hw can_dev option" where
  "irq_handler pf garbage s = do {
     (flags, s) \<leftarrow> mcp2515_read_reg pf CANINTF s;
     s \<leftarrow> (if flags AND CANINTF_MERRF \<noteq> 0 then do {
             s \<leftarrow> report_message_error pf s;
             Some (s\<lparr>irq_count := irq_count s - 1\<rparr>) }
           else Some s);
     s \<leftarrow> (if flags AND CANINTF_WAKIF \<noteq> 0 then mcp2515_bit_modify pf CANINTF CANINTF_WAKIF 0 s else Some s);
     s \<leftarrow> (if flags AND CANINTF_ERRIF \<noteq> 0 then report_error pf s else Some s);
     s \<leftarrow> (if flags AND TXIF_MASK \<noteq> 0
           then transmit_message pf (drop_bit TXIF_SHF (flags AND TXIF_MASK)) s else Some s);
     s \<leftarrow> (if flags AND RXIF_MASK \<noteq> 0 then do {
             (_, s) \<leftarrow> receive_message pf garbage (flags AND RXIF_MASK) s;
             Some (s\<lparr>test_unlocks := test_unlocks s + 1\<rparr>) }
           else Some s);
     s \<leftarrow> (if irq_count s \<le> 0 then disable_intrrupt pf s else Some s);
     Some (s\<lparr>int_callback := True\<rparr>) }"

definition enable_intrrupt :: "'hw platform \<Rightarrow> 'hw can_dev \<Rightarrow> 'hw can_dev option" where
  "enable_intrrupt pf s = do {
     let val = CANINTE_RX0IE OR CANINTE_RX1IE;
     let val = val OR (CANINTE_TX0IE OR CANINTE_TX1IE OR CANINTE_TX2IE);
     let val = val OR CANINTE_MERRE;
     let val = val OR CANINTE_ERRIE;
     s \<leftarrow> mcp2515_write_reg pf CANINTE val s;
     Some (s\<lparr>int_callback := True\<rparr>) }"

fun start_xmit_loop :: "'hw platform \<Rightarrow> nat list \<Rightarrow> 'hw can_dev \<Rightarrow> 'hw can_dev option" where
  "start_xmit_loop pf [] s = Some s"
| "start_xmit_loop pf (i # is) s = do {
     (v, s) \<leftarrow> mcp2515_read_reg pf (TXBCTRL i) s;
     s \<leftarrow> (if v AND TXBCTRL_TXREQ = 0 then do {
             s \<leftarrow> mcp2515_bit_modify pf CANINTF (push_bit i CANINTF_TX0IF) 0xFF s;
             Some (s\<lparr>xmit_stopped := False\<rparr>) }
           else Some s);
     start_xmit_loop pf is s }"

definition start_xmit :: "'hw platform \<Rightarrow> 'hw can_dev \<Rightarrow> 'hw can_dev option" where
  "start_xmit pf s =
    (if xmit_stopped s then do {
       l \<leftarrow> sync_spinlock_lock (txb_lock s);
       s \<leftarrow> start_xmit_loop pf [0..<TXB_NUM] (s\<lparr>txb_lock := l\<rparr>);
       Some (s\<lparr>txb_lock := False\<rparr>) }
     else Some s)"

subsection \<open>Lemmas\<close>

lemma link_ready_ext [simp]:
  fixes s :: "'hw can_dev"
  shows "link_ready level (s\<lparr>queues := q\<rparr>) = link_ready level s"
    "link_ready level (s\<lparr>xmit_stopped := b\<rparr>) = link_ready level s"
    "link_ready level (s\<lparr>txb_lock := l\<rparr>) = link_ready level s"
    "link_ready level (s\<lparr>irq_count := c\<rparr>) = link_ready level s"
    "link_ready level (s\<lparr>int_callback := b\<rparr>) = link_ready level s"
    "link_ready level (s\<lparr>test_unlocks := n\<rparr>) = link_ready level s"
  by (simp_all add: link_ready_def)

lemma kept_fields:
  fixes s s' :: "'hw can_dev"
  assumes "kept level s s'"
  shows "queues s' = queues s" "xmit_stopped s' = xmit_stopped s" "txb_lock s' = txb_lock s"
    "irq_count s' = irq_count s" "int_callback s' = int_callback s" "test_unlocks s' = test_unlocks s"
  using assms by (cases s; cases s'; simp add: kept_def)+

lemma mcp2515_rts_ok:
  assumes ok: "chip_ok pf level regs A" and s: "link_ready level s" and m: "m AND 0xF8 = 0"
  shows "\<exists>s'. mcp2515_rts pf m s = Some s' \<and> kept level s s' \<and> (\<forall>x\<in>A. creg regs s' x = creg regs s x)"
proof -
  have "(CMD_RTS OR m) AND 0xF8 = CMD_RTS OR (m AND 0xF8)"
    by (rule word_bits_eqI) (simp add: bit_simps upt_word_bits CMD_RTS_def)
  then have "CMD_RTS OR m \<noteq> CMD_RESET" using m by (auto simp: mcp_cmds)
  then show ?thesis using command_run [OF ok s, of "[CMD_RTS OR m]" 1 0]
    by (auto simp: mcp2515_rts_def SPI_TRANS_MAX_SIZE_def instr_effect.simps)
qed

lemma bit_mod_clear: "bit_mod R a m 0 a = R a AND NOT m" "x \<noteq> a \<Longrightarrow> bit_mod R a m v x = R x"
  by (simp_all add: bit_mod_def)

text \<open>Reception of one frame: it is appended when there is room and dropped otherwise.\<close>

lemma receive_one_ok:
  assumes ok: "chip_ok pf level regs A" and s: "link_ready level s" and q: "mq_inv (queues s)"
    and f: "frame_ok f" "unat (dlc f) \<le> CAN_MAX_DLC" "id_fits (ident f)" and g: "frame_ok g"
    and b: "txb_bytes f = Some b" and A: "buf_regs (RXBSIDH 0) MAX_BUF_LEN \<subseteq> A"
    and r: "\<forall>j < unat (dlc f) + DAT. creg regs s (RXBSIDH 0 + of_nat j) = b ! j"
  shows "\<exists>s' ret. receive_one pf 0 (g, c) s = Some ((frame_read f g, c + ret), s') \<and> link_ready level s' \<and>
    mq_inv (queues s') \<and> irq_count s' = irq_count s \<and> (\<forall>x\<in>A. creg regs s' x = creg regs s x) \<and>
    tx_list (queues s') = tx_list (queues s) \<and> test_unlocks s' = test_unlocks s \<and>
    (if length (rx_list (queues s)) < rx_cap (queues s)
     then ret = 0 \<and> rx_list (queues s') = rx_list (queues s) @ [frame_read f g]
     else ret = -1 \<and> queues s' = queues s)"
proof -
  from recv_rxb_ok [OF ok s f g b A r] obtain s1 where
    s1: "recv_rxb pf 0 g s = Some (frame_read f g, s1)" "kept level s s1" "\<forall>x\<in>A. creg regs s1 x = creg regs s x"
    by blast
  note k = kept_fields [OF s1(2)] kept_ready [OF s1(2)]
  from q show ?thesis
  proof (cases rule: rx_fifo.push_cases [where x = "frame_read f g"])
    case (room q')
    then show ?thesis using s1 k by (simp add: receive_one_def)
  next
    case full
    then show ?thesis using s1 k q by (simp add: receive_one_def)
  qed
qed

lemma flag_tests:
  "CANINTF_RX0IF AND CANINTF_MERRF = 0" "CANINTF_RX0IF AND CANINTF_WAKIF = 0" "CANINTF_RX0IF AND CANINTF_ERRIF = 0"
  "CANINTF_RX0IF AND TXIF_MASK = 0" "CANINTF_RX0IF AND RXIF_MASK = CANINTF_RX0IF" "CANINTF_RX0IF \<noteq> 0"
  "CANINTF_RX0IF AND BIT 0 \<noteq> 0" "CANINTF_RX0IF AND BIT (Suc 0) = 0"
  "CANINTF_TX0IF AND CANINTF_MERRF = 0" "CANINTF_TX0IF AND CANINTF_WAKIF = 0" "CANINTF_TX0IF AND CANINTF_ERRIF = 0"
  "CANINTF_TX0IF AND TXIF_MASK = CANINTF_TX0IF" "CANINTF_TX0IF AND RXIF_MASK = 0" "CANINTF_TX0IF \<noteq> 0"
  "drop_bit TXIF_SHF CANINTF_TX0IF = 1" "2 ^ TXIF_SHF = CANINTF_TX0IF"
  by (simp_all add: irq_consts mcp_consts)

text \<open>No later step of the handler runs once the last group of flags has been served.\<close>

lemma receive_message_rx0:
  assumes ok: "chip_ok pf level regs A" and s: "link_ready level s" and q: "mq_inv (queues s)"
    and f: "frame_ok f" "unat (dlc f) \<le> CAN_MAX_DLC" "id_fits (ident f)" and g: "frame_ok g"
    and b: "txb_bytes f = Some b" and A: "buf_regs (RXBSIDH 0) MAX_BUF_LEN \<subseteq> A"
    and r: "\<forall>j < unat (dlc f) + DAT. creg regs s (RXBSIDH 0 + of_nat j) = b ! j"
  shows "\<exists>s' ret. receive_message pf g CANINTF_RX0IF s = Some (ret, s') \<and> link_ready level s' \<and>
    mq_inv (queues s') \<and> irq_count s' = irq_count s \<and> tx_list (queues s') = tx_list (queues s) \<and>
    (CANINTF \<in> A \<longrightarrow> creg regs s' CANINTF = creg regs s CANINTF AND NOT CANINTF_RX0IF) \<and>
    (if length (rx_list (queues s)) < rx_cap (queues s)
     then ret = 0 \<and> rx_list (queues s') = rx_list (queues s) @ [frame_read f g]
     else ret = -1 \<and> queues s' = queues s)"
proof -
  from receive_one_ok [OF assms, of 0] obtain s1 ret where
    s1: "receive_one pf 0 (g, 0) s = Some ((frame_read f g, ret), s1)" "link_ready level s1"
      "mq_inv (queues s1)" "irq_count s1 = irq_count s" "\<forall>x\<in>A. creg regs s1 x = creg regs s x"
      "tx_list (queues s1) = tx_list (queues s)"
      "if length (rx_list (queues s)) < rx_cap (queues s)
       then ret = 0 \<and> rx_list (queues s1) = rx_list (queues s) @ [frame_read f g]
       else ret = -1 \<and> queues s1 = queues s" by auto
  from mcp2515_bit_modify_ok [OF ok s1(2), of CANINTF CANINTF_RX0IF 0] obtain s2 where
    s2: "mcp2515_bit_modify pf CANINTF CANINTF_RX0IF 0 s1 = Some s2" "kept level s1 s2"
      "\<forall>x\<in>A. creg regs s2 x = bit_mod (creg regs s1) CANINTF CANINTF_RX0IF 0 x" by blast
  have "receive_message pf g CANINTF_RX0IF s = Some (ret, s2)"
    by (simp add: receive_message_def flag_tests s1(1) s2(1))
  moreover have "CANINTF \<in> A \<longrightarrow> creg regs s2 CANINTF = creg regs s CANINTF AND NOT CANINTF_RX0IF"
    using s2(3) s1(5) by (simp add: bit_mod_clear)
  ultimately show ?thesis using s1 kept_fields [OF s2(2)] kept_ready [OF s2(2)] by auto
qed

text \<open>The register \<open>transmit_message\<close> polls is register 0, for every transmit buffer.\<close>

lemma polled_register: "i < 3 \<Longrightarrow> TXBCTRL i AND TXBCTRL_TXREQ = 0"
  by (auto simp: mcp_consts less_Suc_eq numeral_eq_Suc)

lemma wait_clear_zero:
  assumes ok: "chip_ok pf level regs A" and s: "link_ready level s" and r: "r \<in> A" "creg regs s r = 0"
  shows "\<exists>s'. wait_clear pf r s = Some s' \<and> kept level s s' \<and> (\<forall>x\<in>A. creg regs s' x = creg regs s x)"
  using mcp2515_read_reg_ok [OF ok s, of r] r by (subst wait_clear.simps) auto

lemma wait_clear_returns_zero:
  assumes "wait_clear pf r s = Some y"
  shows "chip_ok pf level regs A \<longrightarrow> r \<in> A \<longrightarrow> link_ready level s \<longrightarrow> creg regs s r = 0"
  using assms
proof (rule wait_clear.raw_induct [rotated])
  fix w pf r s y
  assume IH: "\<And>pf r s y. w pf r s = Some y \<Longrightarrow>
      chip_ok pf level regs A \<longrightarrow> r \<in> A \<longrightarrow> link_ready level s \<longrightarrow> creg regs s r = 0"
    and run: "mcp2515_read_reg pf r s \<bind> (\<lambda>(v, s). if v \<noteq> 0 then w pf r s else Some s) = Some y"
  show "chip_ok pf level regs A \<longrightarrow> r \<in> A \<longrightarrow> link_ready level s \<longrightarrow> creg regs s r = 0"
  proof (intro impI)
    assume ok: "chip_ok pf level regs A" and r: "r \<in> A" and s: "link_ready level s"
    from mcp2515_read_reg_ok [OF ok s, of r] r obtain s1 where
      "mcp2515_read_reg pf r s = Some (creg regs s r, s1)" "kept level s s1" "creg regs s1 r = creg regs s r" by auto
    with run IH [of pf r s1 y] ok r show "creg regs s r = 0" by (auto dest: kept_ready split: if_splits)
  qed
qed

lemma wait_clear_stuck:
  "chip_ok pf level regs A \<Longrightarrow> r \<in> A \<Longrightarrow> link_ready level s \<Longrightarrow> creg regs s r \<noteq> 0 \<Longrightarrow> wait_clear pf r s = None"
  using wait_clear_returns_zero [of pf r s] by (cases "wait_clear pf r s") auto

lemma intf_not_txb0: "CANINTF \<notin> buf_regs (TXBSIDH 0) MAX_BUF_LEN" "CANINTF \<noteq> TXBCTRL 0"
  by (auto simp: buf_regs_def mcp_consts ctrl_consts lessThan_Suc lessThan_nat_numeral)

lemma transmit_loop_tx0:
  assumes "tx_queue_pop (queues s) = Some (r, q)"
  shows "transmit_loop pf 1 [0..<TXB_NUM] 0 s = (case r of
     None \<Rightarrow> do { _ \<leftarrow> sync_spinlock_lock (txb_lock s); Some (0, s\<lparr>queues := q, xmit_stopped := True, txb_lock := False\<rparr>) }
   | Some f \<Rightarrow> do {
       s \<leftarrow> wait_clear pf 0 (s\<lparr>queues := q\<rparr>);
       s \<leftarrow> load_txb pf 0 f s;
       Some (BIT 0, s) })"
proof -
  have "[0..<TXB_NUM] = [0, 1, 2]" by (simp add: irq_consts upt_rec)
  moreover have "transmit_loop pf 1 [1, 2] r = (\<lambda>s. Some (r, s))" for r by (rule ext) (simp add: BIT_def)
  moreover have "1 AND BIT 0 \<noteq> 0" by (simp add: BIT_def)
  ultimately show ?thesis using assms polled_register [of 0] by (simp split: option.split)
qed

subsection \<open>Properties\<close>




subsection \<open>Concrete instances\<close>

definition demo_dev :: "(byte \<Rightarrow> byte) \<Rightarrow> mq_state \<Rightarrow> reg_chip can_dev" where
  "demo_dev R q = \<lparr>spi_dev = True, spi_lock = False,
     spi_can = \<lparr>txbuf = replicate SPI_TRANS_MAX_SIZE 0, rxbuf = replicate SPI_TRANS_MAX_SIZE 0\<rparr>,
     spi_srv = \<lparr>cur_slave_id = -1, bus_sem = 0, xfer_status = None, hw = (released, R)\<rparr>,
     queues = q, xmit_stopped = True, txb_lock = False, irq_count = 100, int_callback = False, test_unlocks = 0\<rparr>"

abbreviation demo_queues :: mq_state where
  "demo_queues \<equiv> mq_init True True (\<lambda>_. demo_frame) 4"

definition rx_regs :: "byte \<Rightarrow> byte" where
  "rx_regs = (wr_regs (\<lambda>_. 0) (RXBSIDH 0) (the (txb_bytes demo_frame)))(CANINTF := CANINTF_RX0IF)"

lemma demo_dev_simps [simp]:
  "link_ready fst (demo_dev R q)" "creg snd (demo_dev R q) = R" "queues (demo_dev R q) = q"
  "irq_count (demo_dev R q) = 100" "\<not> txb_lock (demo_dev R q)"
  by (simp_all add: demo_dev_def link_ready_def)

lemma intf_not_rxb0: "CANINTF \<notin> buf_regs (RXBSIDH 0) MAX_BUF_LEN"
  by (auto simp: buf_regs_def mcp_consts ctrl_consts lessThan_Suc lessThan_nat_numeral)

lemma rx_regs_frame:
  "\<exists>b. txb_bytes demo_frame = Some b \<and> (\<forall>j < unat (dlc demo_frame) + DAT. rx_regs (RXBSIDH 0 + of_nat j) = b ! j)"
proof -
  obtain b where b: "txb_bytes demo_frame = Some b" "length b = MAX_BUF_LEN"
    using txb_bytes_length [OF demo_frame_facts(1,2)] by blast
  have "rx_regs (RXBSIDH 0 + of_nat j) = b ! j" if "j < MAX_BUF_LEN" for j
  proof -
    have "RXBSIDH 0 + of_nat j \<in> buf_regs (RXBSIDH 0) MAX_BUF_LEN" using that by (simp add: buf_regs_def)
    then have "RXBSIDH 0 + of_nat j \<noteq> CANINTF" using intf_not_rxb0 by metis
    then show ?thesis using that b by (simp add: rx_regs_def wr_regs_in ctrl_consts)
  qed
  moreover have "unat (dlc demo_frame) + DAT \<le> MAX_BUF_LEN"
    using demo_frame_facts(2) by (simp add: ctrl_consts can_consts)
  ultimately show ?thesis using b(1) by auto
qed



definition one_frame_queues :: mq_state where
  "one_frame_queues = (case tx_queue_push demo_frame demo_queues of Some (_, q) \<Rightarrow> q | None \<Rightarrow> demo_queues)"

lemma one_frame_queues_facts: "mq_inv one_frame_queues" "tx_list one_frame_queues = [demo_frame]"
proof -
  have "mq_inv demo_queues" "length (tx_list demo_queues) < tx_cap demo_queues" by (simp_all add: mq_init_inv)
  from tx_queue_push_room [OF this, of demo_frame]
  show "mq_inv one_frame_queues" "tx_list one_frame_queues = [demo_frame]"
    by (auto simp: one_frame_queues_def mq_init_inv)
qed


end
