(* ===== verification/Can_Dev.thy ===== *)
theory Can_Dev
  imports Can_Irq
begin

text \<open>
  The CAN component's interface, \<open>components/can/src/dev.c\<close>, as the operations of one
  thread: set-up, sending and receiving, and the acceptance filters. A loop that only
  another thread could end does not return (\<open>None\<close>).
\<close>

subsection \<open>Model\<close>

definition MSG_QUEUE_SIZE :: nat where "MSG_QUEUE_SIZE = 128"

definition can__init ::
  "bool \<Rightarrow> bool \<Rightarrow> (nat \<Rightarrow> can_frame) \<Rightarrow> 'hw can_dev \<Rightarrow> 'hw can_dev" where
  "can__init m1 m2 garbage s = s\<lparr>queues := mq_init m1 m2 garbage MSG_QUEUE_SIZE\<rparr>"

text \<open>The loop of \<open>can_setup\<close>: whether the controller came up within \<open>count\<close> attempts.\<close>

fun wait_config :: "'hw platform \<Rightarrow> nat \<Rightarrow> 'hw can_dev \<Rightarrow> (bool \<times> 'hw can_dev) option" where
  "wait_config pf count s = do {
     (mode, s) \<leftarrow> get_mode pf s;
     if mode = mode_code REQOP_CONFIG then Some (True, s)
     else (case count of 0 \<Rightarrow> Some (False, s)
       | Suc c \<Rightarrow> if c = 0 then Some (False, s) else wait_config pf c s) }"

definition can_setup ::
  "(u32 \<Rightarrow> u32 \<Rightarrow> u32) \<Rightarrow> 'hw platform \<Rightarrow> u32 \<Rightarrow> 'hw can_dev \<Rightarrow> (int \<times> 'hw can_dev) option" where
  "can_setup div_round pf baudrate s = do {
     s \<leftarrow> mcp2515_reset pf (spi__init s);
     (up, s) \<leftarrow> wait_config pf 100 s;
     if \<not> up then Some (-1, s)
     else do {
       s \<leftarrow> set_baudrate div_round pf baudrate s;
       s \<leftarrow> enable_intrrupt pf s;
       s \<leftarrow> set_mode pf REQOP_NORMAL s;
       Some (0, s) } }"

partial_function (option) can_send :: "'hw platform \<Rightarrow> can_frame \<Rightarrow> 'hw can_dev \<Rightarrow> 'hw can_dev option" where
  "can_send pf frame s = do {
     (ret, q) \<leftarrow> tx_queue_push frame (queues s);
     s \<leftarrow> start_xmit pf (s\<lparr>queues := q\<rparr>);
     if ret < 0 then can_send pf frame s else Some s }"

partial_function (option) can_recv :: "'hw can_dev \<Rightarrow> (can_frame \<times> 'hw can_dev) option" where
  "can_recv s = do {
     (r, q) \<leftarrow> rx_queue_pop (queues s);
     (case r of None \<Rightarrow> can_recv (s\<lparr>queues := q\<rparr>) | Some f \<Rightarrow> Some (f, s\<lparr>queues := q\<rparr>)) }"

definition can_try_recv :: "can_frame \<Rightarrow> 'hw can_dev \<Rightarrow> (int \<times> can_frame \<times> 'hw can_dev) option" where
  "can_try_recv frame s = do {
     (r, q) \<leftarrow> rx_queue_pop (queues s);
     (case r of None \<Rightarrow> Some (-1, frame, s\<lparr>queues := q\<rparr>) | Some f \<Rightarrow> Some (0, f, s\<lparr>queues := q\<rparr>)) }"

definition can_set_filter ::
  "'hw platform \<Rightarrow> can_id \<Rightarrow> u32 \<Rightarrow> 'hw can_dev \<Rightarrow> (int \<times> 'hw can_dev) option" where
  "can_set_filter pf cid msk s = do {
     s \<leftarrow> set_mode pf REQOP_CONFIG s;
     (ret, s) \<leftarrow> set_rx_filter pf cid msk s;
     s \<leftarrow> set_mode pf REQOP_NORMAL s;
     Some (ret, s) }"

text \<open>The argument is narrowed to the \<open>uint8_t\<close> of \<open>clear_rx_filter\<close>.\<close>

definition can_clear_filter :: "'hw platform \<Rightarrow> int \<Rightarrow> 'hw can_dev \<Rightarrow> 'hw can_dev option" where
  "can_clear_filter pf filter_id s = do {
     s \<leftarrow> set_mode pf REQOP_CONFIG s;
     s \<leftarrow> clear_rx_filter pf (unat (word_of_int filter_id :: byte)) s;
     set_mode pf REQOP_NORMAL s }"

definition can_disable_filtering :: "'hw platform \<Rightarrow> 'hw can_dev \<Rightarrow> 'hw can_dev option" where
  "can_disable_filtering pf s = do {
     s \<leftarrow> set_mode pf REQOP_CONFIG s;
     s \<leftarrow> clear_filter_mask pf 2 s;
     set_mode pf REQOP_NORMAL s }"

subsection \<open>Set-up\<close>

text \<open>The reset instruction completes while the controller is selected.\<close>

definition reset_ok :: "'hw platform \<Rightarrow> ('hw \<Rightarrow> cs_line \<Rightarrow> bool) \<Rightarrow> bool" where
  "reset_ok pf level \<longleftrightarrow> (\<forall>junk rx h. level h = selected spi_can_nss \<longrightarrow> 0 < length rx \<longrightarrow>
     (\<exists>ret status rx' h'. spi_xfer pf (CMD_RESET # junk) 1 rx 0 h = (ret, Some status, rx', h') \<and>
        0 \<le> ret \<and> length rx' = length rx))"

lemma mcp2515_reset_ok:
  assumes pins: "pins_ok pf level" and r: "reset_ok pf level" and s: "link_ready level s"
  shows "\<exists>s'. mcp2515_reset pf s = Some s' \<and> kept level s s'"
proof -
  let ?tx = "CMD_RESET # drop 1 (txbuf (spi_can s))"
  let ?h = "bus_ready pf can_slave (spi_srv s)"
  have sel: "level ?h = selected spi_can_nss"
    using bus_ready_level [OF pins, of "spi_srv s" can_slave] s by (simp add: link_ready_def)
  have "0 < length (rxbuf (spi_can s))" using s by (simp add: link_ready_def SPI_TRANS_MAX_SIZE_def)
  with r sel obtain ret status rx' h' where
    x: "spi_xfer pf ?tx 1 (rxbuf (spi_can s)) 0 ?h = (ret, Some status, rx', h')" "0 \<le> ret"
      "length rx' = length (rxbuf (spi_can s))"
    unfolding reset_ok_def by metis
  have "level h' = selected spi_can_nss" using pins_okD(4) [OF pins x(1)] sel by simp
  then have "level (gpio_set pf spi_can_nss h') = released" by (simp add: pins_okD(1) [OF pins])
  moreover have "put_tx 0 [CMD_RESET] (s\<lparr>spi_lock := True\<rparr>) =
      Some (s\<lparr>spi_lock := True, spi_can := (spi_can s)\<lparr>txbuf := ?tx\<rparr>\<rparr>)"
    using put_tx_ready [OF s, of 0 "[CMD_RESET]"] by (simp add: SPI_TRANS_MAX_SIZE_def)
  ultimately show ?thesis using s x(3) do_spi_transfer_complete [OF x(1,2)]
    by (simp add: mcp2515_reset_def lock_spi_def link_ready_def transfer_def spi_transfer_can kept_def unlock_spi_def
        SPI_TRANS_MAX_SIZE_def)
qed

lemma get_mode_ok:
  assumes "chip_ok pf level regs A" "link_ready level s"
  shows "\<exists>m s'. get_mode pf s = Some (m, s') \<and> kept level s s'"
  using mcp2515_read_reg_ok [OF assms, of CANSTAT] by (auto simp: get_mode_def)

declare wait_config.simps [simp del]

lemma wait_config_ok:
  assumes "chip_ok pf level regs A"
  shows "link_ready level s \<Longrightarrow> \<exists>up s'. wait_config pf n s = Some (up, s') \<and> kept level s s'"
proof (induction n arbitrary: s)
  case 0
  then show ?case using get_mode_ok [OF assms, of s] by (subst wait_config.simps) auto
next
  case (Suc n)
  from get_mode_ok [OF assms Suc.prems] obtain m s1 where
    s1: "get_mode pf s = Some (m, s1)" "kept level s s1" by auto
  with Suc.IH [of s1] show ?case by (subst wait_config.simps) (auto dest: kept_ready kept_trans)
qed

lemma set_mode_ok:
  assumes "chip_ok pf level regs A" "link_ready level s"
  shows "\<exists>s'. set_mode pf m s = Some s' \<and> kept level s s' \<and> (\<forall>x\<in>A. x \<noteq> CANCTRL \<longrightarrow> creg regs s' x = creg regs s x) \<and>
    (CANCTRL \<in> A \<longrightarrow> drop_bit CANCTRL_REQOP_SHF (creg regs s' CANCTRL) = mode_code m)"
proof -
  have "drop_bit 5 ((v AND NOT 0xE0) OR (push_bit 5 (mode_code m) AND 0xE0)) = mode_code m" for v :: byte
    by (cases m; rule word_bits_eqI; simp add: bit_simps upt_word_bits)
  then show ?thesis
    using mcp2515_bit_modify_ok [OF assms, of CANCTRL CANCTRL_REQOP_MASK "push_bit CANCTRL_REQOP_SHF (mode_code m)"]
    by (auto simp: set_mode_def bit_mod_def CANCTRL_REQOP_MASK_def CANCTRL_REQOP_SHF_def)
qed

lemma enable_intrrupt_ok:
  assumes "chip_ok pf level regs A" "link_ready level s"
  shows "\<exists>s'. enable_intrrupt pf s = Some s' \<and> link_ready level s' \<and> int_callback s' \<and> queues s' = queues s \<and>
    (CANINTE \<in> A \<longrightarrow> creg regs s' CANINTE = 0xBF)"
proof -
  have v: "CANINTE_RX0IE OR CANINTE_RX1IE OR (CANINTE_TX0IE OR CANINTE_TX1IE OR CANINTE_TX2IE) OR CANINTE_MERRE OR
      CANINTE_ERRIE = 0xBF" by (simp add: mcp_consts)
  from mcp2515_write_reg_ok [OF assms, of CANINTE "0xBF"] obtain s1 where
    s1: "mcp2515_write_reg pf CANINTE 0xBF s = Some s1" "kept level s s1"
      "\<forall>x\<in>A. creg regs s1 x = wr_regs (creg regs s) CANINTE [0xBF] x" by blast
  then have "enable_intrrupt pf s = Some (s1\<lparr>int_callback := True\<rparr>)"
    unfolding enable_intrrupt_def Let_def v [simplified or.assoc] by (simp add: or.assoc v [simplified or.assoc])
  with s1 kept_fields [OF s1(2)] kept_ready [OF s1(2)] show ?thesis by (auto simp: wr_regs_def)
qed

lemma set_baudrate_returns:
  assumes "chip_ok pf level regs A" "link_ready level s"
  shows "\<exists>s'. set_baudrate dr pf b s = Some s' \<and> kept level s s'"
proof -
  have "length (cnf_bytes v w x y z) = 3" for v w x y z by (simp add: cnf_bytes_def Let_def)
  with mcp2515_write_nregs_ok [OF assms, of 3] show ?thesis
    by (simp add: set_baudrate_def hw_set_bit_timing_def Let_def SPI_TRANS_MAX_SIZE_def split: prod.split) (metis order_refl)
qed

lemma spi__init_queues [simp]: "queues (spi__init s) = queues s"
  by (simp add: spi__init_def)

subsection \<open>Properties\<close>



subsection \<open>Sending and receiving\<close>

definition txb_free :: "(byte \<Rightarrow> byte) \<Rightarrow> nat \<Rightarrow> bool" where
  "txb_free R i \<longleftrightarrow> R (TXBCTRL i) AND TXBCTRL_TXREQ = 0"

lemma txbctrl_not_intf: "i < 3 \<Longrightarrow> TXBCTRL i \<noteq> CANINTF"
  by (drule less_3_cases) (elim disjE; simp add: mcp_consts)

lemma set_txif_bit:
  assumes "i < 3"
  shows "bit (bit_mod R CANINTF (push_bit i CANINTF_TX0IF) 0xFF CANINTF) k \<longleftrightarrow> bit (R CANINTF) k \<or> k = i + 2"
proof -
  have ones: "(0xFF :: byte) = -1" by simp
  have m: "bit (push_bit i CANINTF_TX0IF) k \<longleftrightarrow> k = i + 2"
    unfolding CANINTF_TX0IF_def BIT_def bit_push_bit_iff using assms by (auto simp: bit_1_iff)
  show ?thesis by (auto simp: bit_mod_def ones bit_and_iff bit_or_iff bit_not_iff m dest: bit_imp_le_length)
qed

text \<open>
  The restart raises the transmit interrupt of every free buffer and leaves the rest of the
  controller, the queues and the buffer lock alone.
\<close>

lemma start_xmit_loop_ok:
  assumes ok: "chip_ok pf level regs A" and A: "CANINTF \<in> A"
  shows "link_ready level s \<Longrightarrow> \<forall>i\<in>set is. i < 3 \<and> TXBCTRL i \<in> A \<Longrightarrow>
    \<exists>s'. start_xmit_loop pf is s = Some s' \<and> link_ready level s' \<and> queues s' = queues s \<and> txb_lock s' = txb_lock s \<and>
    (xmit_stopped s' \<longleftrightarrow> xmit_stopped s \<and> (\<forall>i\<in>set is. \<not> txb_free (creg regs s) i)) \<and>
    (\<forall>x\<in>A - {CANINTF}. creg regs s' x = creg regs s x) \<and>
    (\<forall>k. bit (creg regs s' CANINTF) k \<longleftrightarrow> bit (creg regs s CANINTF) k \<or> (\<exists>i\<in>set is. txb_free (creg regs s) i \<and> k = i + 2))"
proof (induction "is" arbitrary: s)
  case (Cons i "is")
  then have i: "i < 3" "TXBCTRL i \<in> A" "\<forall>i\<in>set is. i < 3 \<and> TXBCTRL i \<in> A" by simp_all
  from mcp2515_read_reg_ok [OF ok Cons.prems(1), of "TXBCTRL i"] i(2) obtain s1 where
    s1: "mcp2515_read_reg pf (TXBCTRL i) s = Some (creg regs s (TXBCTRL i), s1)" "kept level s s1"
      "\<forall>x\<in>A. creg regs s1 x = creg regs s x" by blast
  note k1 = kept_fields [OF s1(2)] kept_ready [OF s1(2)]
  from mcp2515_bit_modify_ok [OF ok k1(7), of CANINTF "push_bit i CANINTF_TX0IF" "0xFF"] obtain s2 where
    s2: "mcp2515_bit_modify pf CANINTF (push_bit i CANINTF_TX0IF) 0xFF s1 = Some s2" "kept level s1 s2"
      "\<forall>x\<in>A. creg regs s2 x = bit_mod (creg regs s1) CANINTF (push_bit i CANINTF_TX0IF) 0xFF x" by blast
  note k2 = kept_fields [OF s2(2)] kept_ready [OF s2(2)]
  define t where "t = (if txb_free (creg regs s) i then s2\<lparr>xmit_stopped := False\<rparr> else s1)"
  have run: "start_xmit_loop pf (i # is) s = start_xmit_loop pf is t"
    using s1(1) s2(1) by (simp add: t_def txb_free_def)
  have t: "link_ready level t" "queues t = queues s" "txb_lock t = txb_lock s"
    "xmit_stopped t \<longleftrightarrow> xmit_stopped s \<and> \<not> txb_free (creg regs s) i"
    using k1 k2 by (simp_all add: t_def)
  have r: "\<forall>x\<in>A - {CANINTF}. creg regs t x = creg regs s x"
    using s1(3) s2(3) by (simp add: t_def bit_mod_clear)
  have f: "bit (creg regs t CANINTF) k \<longleftrightarrow> bit (creg regs s CANINTF) k \<or> txb_free (creg regs s) i \<and> k = i + 2" for k
    using s1(3) s2(3) A set_txif_bit [OF i(1), of "creg regs s1" k] by (simp add: t_def)
  have "\<forall>j\<in>set is. txb_free (creg regs t) j = txb_free (creg regs s) j"
    using r i(3) txbctrl_not_intf by (simp add: txb_free_def)
  with Cons.IH [OF t(1) i(3)] show ?case unfolding run using t r f by (auto 0 4)
qed simp

lemma start_xmit_ok:
  assumes ok: "chip_ok pf level regs A" and s: "link_ready level s" "\<not> txb_lock s"
    and A: "CANINTF \<in> A" "\<forall>i<3. TXBCTRL i \<in> A" and i: "i < 3" "txb_free (creg regs s) i"
  shows "\<exists>s'. start_xmit pf s = Some s' \<and> link_ready level s' \<and> queues s' = queues s \<and> \<not> txb_lock s' \<and>
    \<not> xmit_stopped s' \<and> (xmit_stopped s \<longrightarrow> bit (creg regs s' CANINTF) (i + 2))"
proof (cases "xmit_stopped s")
  case True
  have "\<forall>i\<in>set [0..<TXB_NUM]. i < 3 \<and> TXBCTRL i \<in> A" "i \<in> set [0..<TXB_NUM]" using A(2) i(1) by (simp_all add: TXB_NUM_def)
  with True i(2) s start_xmit_loop_ok [OF ok A(1), of "s\<lparr>txb_lock := True\<rparr>" "[0..<TXB_NUM]"] show ?thesis
    by (auto simp: start_xmit_def sync_spinlock_lock_def)
next
  case False
  then show ?thesis using s by (simp add: start_xmit_def)
qed



lemma can_send_needs_room:
  assumes "can_send pf f s = Some y"
  shows "mq_inv (queues s) \<longrightarrow> \<not> xmit_stopped s \<longrightarrow> length (tx_list (queues s)) < tx_cap (queues s)"
  using assms
proof (rule can_send.raw_induct [rotated])
  fix c :: "'a platform \<Rightarrow> can_frame \<Rightarrow> 'a can_dev \<Rightarrow> 'a can_dev option" and pf f s y
  assume IH: "\<And>pf f s y. c pf f s = Some y \<Longrightarrow>
      mq_inv (queues s) \<longrightarrow> \<not> xmit_stopped s \<longrightarrow> length (tx_list (queues s)) < tx_cap (queues s)"
    and run: "tx_queue_push f (queues s) \<bind> (\<lambda>(ret, q). start_xmit pf (s\<lparr>queues := q\<rparr>) \<bind>
      (\<lambda>s. if ret < 0 then c pf f s else Some s)) = Some y"
  show "mq_inv (queues s) \<longrightarrow> \<not> xmit_stopped s \<longrightarrow> length (tx_list (queues s)) < tx_cap (queues s)"
  proof (intro impI, rule ccontr)
    assume q: "mq_inv (queues s)" "\<not> xmit_stopped s" "\<not> length (tx_list (queues s)) < tx_cap (queues s)"
    with run tx_queue_push_full [of "queues s" f] have "c pf f s = Some y" by (simp add: start_xmit_def)
    with IH q show False by blast
  qed
qed

text \<open>
  A full queue is not drained by its producer. When the transmit queue is full and
  transmission is not stopped, the loop of \<open>can_send\<close> runs on until the interrupt handler
  makes room: on its own it does not return.
\<close>

lemma can_send_full_blocks:
  assumes "mq_inv (queues s)" "\<not> xmit_stopped s" "\<not> length (tx_list (queues s)) < tx_cap (queues s)"
  shows "can_send pf f s = None"
  using can_send_needs_room [of pf f s] assms by (cases "can_send pf f s") auto

lemma can_send_full_blocks_witness:
  "can_send chip_platform demo_frame
     ((demo_dev (\<lambda>_. 0) (mq_init True True (\<lambda>_. demo_frame) 1))\<lparr>xmit_stopped := False\<rparr>) = None"
  by (rule can_send_full_blocks) (simp_all add: mq_init_inv)

lemma can_recv_needs_frame:
  assumes "can_recv s = Some y"
  shows "mq_inv (queues s) \<longrightarrow> rx_list (queues s) \<noteq> []"
  using assms
proof (rule can_recv.raw_induct [rotated])
  fix c :: "'a can_dev \<Rightarrow> (can_frame \<times> 'a can_dev) option" and s y
  assume IH: "\<And>s y. c s = Some y \<Longrightarrow> mq_inv (queues s) \<longrightarrow> rx_list (queues s) \<noteq> []"
    and run: "rx_queue_pop (queues s) \<bind> (\<lambda>(r, q). case r of None \<Rightarrow> c (s\<lparr>queues := q\<rparr>)
      | Some f \<Rightarrow> Some (f, s\<lparr>queues := q\<rparr>)) = Some y"
  show "mq_inv (queues s) \<longrightarrow> rx_list (queues s) \<noteq> []"
  proof (intro impI notI)
    assume q: "mq_inv (queues s)" "rx_list (queues s) = []"
    with run have "c s = Some y" by (simp add: rx_queue_pop_empty)
    with IH q show False by blast
  qed
qed

text \<open>
  C34. Receiving. With a frame in the receive queue, \<open>can_recv\<close> and \<open>can_try_recv\<close> both
  take out the oldest one. With none, \<open>can_try_recv\<close> returns -1 and changes neither its
  argument nor the queues, and \<open>can_recv\<close> waits.
\<close>

theorem can_recv_cases:
  assumes "mq_inv (queues s)"
  shows "(case rx_list (queues s) of
      [] \<Rightarrow> can_recv s = None \<and> can_try_recv g s = Some (-1, g, s)
    | f # fs \<Rightarrow> \<exists>s'. can_recv s = Some (f, s') \<and> can_try_recv g s = Some (0, f, s') \<and> mq_inv (queues s') \<and>
        rx_list (queues s') = fs \<and> tx_list (queues s') = tx_list (queues s) \<and> spi_client.truncate s' = spi_client.truncate s)"
proof (cases "rx_list (queues s)")
  case Nil
  with can_recv_needs_frame [of s] assms have "can_recv s = None" by (cases "can_recv s") auto
  with Nil assms show ?thesis by (simp add: can_try_recv_def rx_queue_pop_empty)
next
  case (Cons f fs)
  with rx_queue_pop_cons [OF assms Cons] show ?thesis
    by (subst can_recv.simps) (auto simp: can_try_recv_def spi_client.defs)
qed

theorem can_recv_cases_witness:
  "can_try_recv demo_frame (demo_dev (\<lambda>_. 0) demo_queues) = Some (-1, demo_frame, demo_dev (\<lambda>_. 0) demo_queues) \<and>
   can_recv (demo_dev (\<lambda>_. 0) demo_queues) = None"
  using can_recv_cases [of "demo_dev (\<lambda>_. 0) demo_queues" demo_frame] by (simp add: mq_init_inv)

end
