(* ===== verification/Block_Ops.thy ===== *)
theory Block_Ops
  imports Prelude
begin

text \<open>
  The block primitives of \<open>components/pilot/src/aeslib/mode_hdr.h\<close>, for the configuration
  the headers select on the target: 32-bit units and little-endian byte order. A block is
  a list of 16 bytes; \<open>units\<close> and \<open>of_units\<close> are the two directions of the cast
  \<open>UNIT_PTR\<close>, which reads the same memory as four 32-bit words.
\<close>

type_synonym block = "byte list"

subsection \<open>Model\<close>

definition ui32_bytes :: "u32 \<Rightarrow> byte list" where
  "ui32_bytes w = [ucast w, ucast (drop_bit 8 w), ucast (drop_bit 16 w), ucast (drop_bit 24 w)]"

definition ui32_of :: "byte \<Rightarrow> byte \<Rightarrow> byte \<Rightarrow> byte \<Rightarrow> u32" where
  "ui32_of b0 b1 b2 b3 = ucast b0 OR push_bit 8 (ucast b1) OR push_bit 16 (ucast b2) OR push_bit 24 (ucast b3)"

definition ui32_at :: "byte list \<Rightarrow> nat \<Rightarrow> u32" where
  "ui32_at b i = ui32_of (b ! i) (b ! (i + 1)) (b ! (i + 2)) (b ! (i + 3))"

definition units :: "block \<Rightarrow> u32 list" where
  "units b = map (\<lambda>n. ui32_at b (4 * n)) [0, 1, 2, 3]"

definition of_units :: "u32 list \<Rightarrow> block" where
  "of_units us = concat (map ui32_bytes us)"

definition rotl32 :: "u32 \<Rightarrow> nat \<Rightarrow> u32" where
  "rotl32 x n = push_bit n x OR drop_bit (32 - n) x"

definition rotr32 :: "u32 \<Rightarrow> nat \<Rightarrow> u32" where
  "rotr32 x n = drop_bit n x OR push_bit (32 - n) x"

definition bswap_16 :: "u16 \<Rightarrow> u16" where
  "bswap_16 x = drop_bit 8 x OR push_bit 8 x"

definition bswap_32 :: "u32 \<Rightarrow> u32" where
  "bswap_32 x = (rotr32 x 24 AND 0x00ff00ff) OR (rotr32 x 8 AND 0xff00ff00)"

text \<open>
  The \<open>rep\<close> macros run a step for each index, upwards or downwards. The steps below read
  only elements no earlier step has written, so a destination that is also a source makes
  no difference.
\<close>

definition f_copy :: "nat \<Rightarrow> 'a list \<Rightarrow> 'a list \<Rightarrow> 'a list" where
  "f_copy n p q = p[n := q ! n]"

definition f_xor :: "nat \<Rightarrow> ('w :: len) word list \<Rightarrow> 'w word list \<Rightarrow> 'w word list \<Rightarrow> 'w word list" where
  "f_xor n r p q = r[n := p ! n XOR q ! n]"

definition rep2_u4 :: "(nat \<Rightarrow> 'a list \<Rightarrow> 'b \<Rightarrow> 'a list) \<Rightarrow> 'a list \<Rightarrow> 'b \<Rightarrow> 'a list" where
  "rep2_u4 f r x = f 3 (f 2 (f 1 (f 0 r x) x) x) x"

definition rep2_d4 :: "(nat \<Rightarrow> 'a list \<Rightarrow> 'b \<Rightarrow> 'a list) \<Rightarrow> 'a list \<Rightarrow> 'b \<Rightarrow> 'a list" where
  "rep2_d4 f r x = f 0 (f 1 (f 2 (f 3 r x) x) x) x"

definition rep3_u4 :: "(nat \<Rightarrow> 'a list \<Rightarrow> 'b \<Rightarrow> 'b \<Rightarrow> 'a list) \<Rightarrow> 'a list \<Rightarrow> 'b \<Rightarrow> 'b \<Rightarrow> 'a list" where
  "rep3_u4 f r x y = f 3 (f 2 (f 1 (f 0 r x y) x y) x y) x y"

definition rep3_u16 :: "(nat \<Rightarrow> 'a list \<Rightarrow> 'b \<Rightarrow> 'b \<Rightarrow> 'a list) \<Rightarrow> 'a list \<Rightarrow> 'b \<Rightarrow> 'b \<Rightarrow> 'a list" where
  "rep3_u16 f r x y = foldl (\<lambda>r n. f n r x y) r [0, 1, 2, 3, 4, 5, 6, 7, 8, 9, 10, 11, 12, 13, 14, 15]"

definition copy_block :: "block \<Rightarrow> block \<Rightarrow> block" where
  "copy_block p q = take 16 q"

definition copy_block_aligned :: "block \<Rightarrow> block \<Rightarrow> block" where
  "copy_block_aligned p q = of_units (rep2_u4 f_copy (units p) (units q))"

definition xor_block :: "block \<Rightarrow> block \<Rightarrow> block \<Rightarrow> block" where
  "xor_block r p q = rep3_u16 f_xor r p q"

definition xor_block_aligned :: "block \<Rightarrow> block \<Rightarrow> block \<Rightarrow> block" where
  "xor_block_aligned r p q = of_units (rep3_u4 f_xor (units r) (units p) (units q))"

definition bswap32_block :: "block \<Rightarrow> block \<Rightarrow> block" where
  "bswap32_block d s = (let s = units s in
     of_units ((units d)[0 := bswap_32 (s ! 0), 1 := bswap_32 (s ! 1), 2 := bswap_32 (s ! 2), 3 := bswap_32 (s ! 3)]))"

definition bswap64_block :: "block \<Rightarrow> block \<Rightarrow> block" where
  "bswap64_block d s = (let s = units s; t = bswap_32 (s ! 0); d = (units d)[0 := bswap_32 (s ! 1), 1 := t];
     t = bswap_32 (s ! 2) in of_units (d[2 := bswap_32 (s ! 2), 3 := t]))"

definition bswap128_block :: "block \<Rightarrow> block \<Rightarrow> block" where
  "bswap128_block d s = (let s = units s; t = bswap_32 (s ! 0); d = (units d)[0 := bswap_32 (s ! 3), 3 := t];
     t = bswap_32 (s ! 1) in of_units (d[1 := bswap_32 (s ! 2), 2 := t]))"

subsection \<open>The two views of a block\<close>

lemma units_length [simp]: "length (units b) = 4"
  by (simp add: units_def)

lemma of_units_length [simp]: "length (of_units us) = 4 * length us"
  by (induction us) (simp_all add: of_units_def ui32_bytes_def)

lemma list4_cases:
  assumes "length xs = 4"
  obtains a b c d where "xs = [a, b, c, d]"
  using assms by (auto simp: length_Suc_conv numeral_eq_Suc)

lemma list16_cases:
  assumes "length xs = 16"
  obtains a0 a1 a2 a3 a4 a5 a6 a7 a8 a9 a10 a11 a12 a13 a14 a15 where
    "xs = [a0, a1, a2, a3, a4, a5, a6, a7, a8, a9, a10, a11, a12, a13, a14, a15]"
  using assms by (auto simp: length_Suc_conv numeral_eq_Suc)

lemma ui32_of_bytes [simp]: "ui32_of (ucast w) (ucast (drop_bit 8 w)) (ucast (drop_bit 16 w)) (ucast (drop_bit 24 w)) = w"
  by (rule word_bits_eqI) (simp add: ui32_of_def bit_simps upt_word_bits)

lemma ui32_bytes_of [simp]: "ui32_bytes (ui32_of b0 b1 b2 b3) = [b0, b1, b2, b3]"
proof -
  have "ucast (ui32_of b0 b1 b2 b3) = b0" "ucast (drop_bit 8 (ui32_of b0 b1 b2 b3)) = b1"
    "ucast (drop_bit 16 (ui32_of b0 b1 b2 b3)) = b2" "ucast (drop_bit 24 (ui32_of b0 b1 b2 b3)) = b3"
    by (rule word_bits_eqI, simp add: ui32_of_def bit_simps upt_word_bits bit_beyond)+
  then show ?thesis by (simp add: ui32_bytes_def)
qed

lemma ui32_of_xor: "ui32_of (a XOR e) (b XOR f) (c XOR g) (d XOR h) = ui32_of a b c d XOR ui32_of e f g h"
  by (rule word_bits_eqI) (simp add: ui32_of_def bit_simps upt_word_bits bit_beyond)

lemma of_units_4: "of_units [a, b, c, d] = ui32_bytes a @ ui32_bytes b @ ui32_bytes c @ ui32_bytes d"
  by (simp add: of_units_def)

lemma units_16:
  "units [a0, a1, a2, a3, a4, a5, a6, a7, a8, a9, a10, a11, a12, a13, a14, a15] =
   [ui32_of a0 a1 a2 a3, ui32_of a4 a5 a6 a7, ui32_of a8 a9 a10 a11, ui32_of a12 a13 a14 a15]"
  by (simp add: units_def ui32_at_def)

lemma of_units_units [simp]: "length b = 16 \<Longrightarrow> of_units (units b) = b"
  by (elim list16_cases) (simp add: units_16 of_units_4)

lemma units_of_units [simp]: "length us = 4 \<Longrightarrow> units (of_units us) = us"
  by (elim list4_cases) (simp add: of_units_4 ui32_bytes_def units_16)

lemma bit_ui32_of:
  assumes "r < 32"
  shows "bit (ui32_of b0 b1 b2 b3) r \<longleftrightarrow> bit ([b0, b1, b2, b3] ! (r div 8)) (r mod 8)"
proof -
  have "list_all (\<lambda>r. bit (ui32_of b0 b1 b2 b3) r \<longleftrightarrow> bit ([b0, b1, b2, b3] ! (r div 8)) (r mod 8)) [0..<32]"
    by (simp add: ui32_of_def bit_simps upt_word_bits bit_beyond)
  then show ?thesis using assms by (simp add: list_all_iff)
qed

lemma bit_units:
  assumes "length b = 16" "q < 4" "r < 32"
  shows "bit (units b ! q) r \<longleftrightarrow> bit (b ! (4 * q + r div 8)) (r mod 8)"
proof -
  have "q = 0 \<or> q = 1 \<or> q = 2 \<or> q = 3" "r div 8 = 0 \<or> r div 8 = 1 \<or> r div 8 = 2 \<or> r div 8 = 3" using assms(2,3) by auto
  then show ?thesis using assms(1,3) by (elim list16_cases disjE) (simp_all add: units_16 bit_ui32_of)
qed

subsection \<open>Properties of the operations\<close>

lemma copy_block_eq [simp]: "length q = 16 \<Longrightarrow> copy_block p q = q"
  by (simp add: copy_block_def)

lemma copy_block_aligned_eq [simp]: "length p = 16 \<Longrightarrow> length q = 16 \<Longrightarrow> copy_block_aligned p q = q"
  by (elim list16_cases) (simp add: copy_block_aligned_def rep2_u4_def f_copy_def units_16 of_units_4)

lemma xor_block_eq: "length r = 16 \<Longrightarrow> length p = 16 \<Longrightarrow> length q = 16 \<Longrightarrow> xor_block r p q = map2 (XOR) p q"
  by (elim list16_cases) (simp add: xor_block_def rep3_u16_def f_xor_def)

text \<open>The word-wise exclusive or is the byte-wise one.\<close>

lemma xor_block_aligned_eq:
  "length r = 16 \<Longrightarrow> length p = 16 \<Longrightarrow> length q = 16 \<Longrightarrow> xor_block_aligned r p q = map2 (XOR) p q"
  by (elim list16_cases)
    (simp add: xor_block_aligned_def rep3_u4_def f_xor_def units_16 of_units_4 flip: ui32_of_xor)

lemma xor_block_length [simp]:
  "length r = 16 \<Longrightarrow> length p = 16 \<Longrightarrow> length q = 16 \<Longrightarrow> length (xor_block_aligned r p q) = 16"
  by (simp add: xor_block_aligned_eq)

lemma bswap_32_of: "bswap_32 (ui32_of b0 b1 b2 b3) = ui32_of b3 b2 b1 b0"
  by (rule word_bits_eqI) (simp add: bswap_32_def rotr32_def ui32_of_def bit_simps upt_word_bits bit_beyond)

lemma bswap128_block_eq: "length d = 16 \<Longrightarrow> length s = 16 \<Longrightarrow> bswap128_block d s = rev s"
  by (elim list16_cases) (simp add: bswap128_block_def units_16 of_units_4 bswap_32_of Let_def)

text \<open>
  The byte swaps. \<open>bswap32_block\<close> reverses the bytes of each 32-bit word of a block and
  \<open>bswap128_block\<close> those of the whole block; \<open>bswap64_block\<close> reverses the first eight bytes,
  but for the second eight it duplicates the third word and loses the fourth.
\<close>

lemma bswap_blocks:
  assumes "length d = 16" "length s = 16"
  shows "bswap32_block d s = rev (take 4 s) @ rev (take 4 (drop 4 s)) @ rev (take 4 (drop 8 s)) @ rev (drop 12 s) \<and>
    bswap128_block d s = rev s \<and>
    bswap64_block d s = rev (take 8 s) @ rev (take 4 (drop 8 s)) @ rev (take 4 (drop 8 s))"
  using assms
  by (elim list16_cases)
    (simp add: bswap32_block_def bswap128_block_def bswap64_block_def units_16 of_units_4 bswap_32_of Let_def)

lemma bswap_blocks_witness:
  "bswap128_block (replicate 16 0) (map of_nat [0..<16]) = map of_nat (rev [0..<16])"
  using bswap_blocks [of "replicate 16 0" "map of_nat [0..<16]"] by (simp add: rev_map)

end
