(* ===== verification/Aes_Spec.thy ===== *)
theory Aes_Spec
  imports Block_Ops
begin

unbundle bit_operations_syntax

text \<open>
  The block cipher AES-128 as FIPS 197 defines it: the field \<open>GF(2^8)\<close>, the S-box as an
  affine map of the inverse, the transformations of the state, the key expansion, the
  cipher and the inverse cipher. The state is the block of 16 bytes, column by column.
  This is the reference that the table-driven code is compared with.
\<close>

subsection \<open>The field\<close>

definition xtime :: "byte \<Rightarrow> byte" where
  "xtime b = push_bit 1 b XOR (if bit b 7 then 0x1b else 0)"

definition gf8_mul :: "byte \<Rightarrow> byte \<Rightarrow> byte" where
  "gf8_mul a b = foldl (\<lambda>r i. xtime r XOR (if bit a i then b else 0)) 0 [7, 6, 5, 4, 3, 2, 1, 0]"

definition gf8_inv :: "byte \<Rightarrow> byte" where
  "gf8_inv x = (gf8_mul x ^^ 254) 1"

definition rotl8 :: "nat \<Rightarrow> byte \<Rightarrow> byte" where
  "rotl8 n b = push_bit n b OR drop_bit (8 - n) b"

definition fips_affine :: "byte \<Rightarrow> byte" where
  "fips_affine b = b XOR rotl8 1 b XOR rotl8 2 b XOR rotl8 3 b XOR rotl8 4 b XOR 0x63"

definition fips_sbox :: "byte \<Rightarrow> byte" where
  "fips_sbox x = fips_affine (gf8_inv x)"

subsection \<open>The transformations\<close>

definition SubBytes :: "block \<Rightarrow> block" where
  "SubBytes b = map fips_sbox b"

definition ShiftRows :: "block \<Rightarrow> block" where
  "ShiftRows b = map (\<lambda>i. b ! ((i + 4 * (i mod 4)) mod 16)) [0..<16]"

definition mix_column :: "byte \<Rightarrow> byte \<Rightarrow> byte \<Rightarrow> byte \<Rightarrow> byte list" where
  "mix_column a0 a1 a2 a3 =
    [gf8_mul 2 a0 XOR gf8_mul 3 a1 XOR a2 XOR a3, a0 XOR gf8_mul 2 a1 XOR gf8_mul 3 a2 XOR a3,
     a0 XOR a1 XOR gf8_mul 2 a2 XOR gf8_mul 3 a3, gf8_mul 3 a0 XOR a1 XOR a2 XOR gf8_mul 2 a3]"

definition inv_mix_column :: "byte \<Rightarrow> byte \<Rightarrow> byte \<Rightarrow> byte \<Rightarrow> byte list" where
  "inv_mix_column a0 a1 a2 a3 =
    [gf8_mul 0xe a0 XOR gf8_mul 0xb a1 XOR gf8_mul 0xd a2 XOR gf8_mul 0x9 a3,
     gf8_mul 0x9 a0 XOR gf8_mul 0xe a1 XOR gf8_mul 0xb a2 XOR gf8_mul 0xd a3,
     gf8_mul 0xd a0 XOR gf8_mul 0x9 a1 XOR gf8_mul 0xe a2 XOR gf8_mul 0xb a3,
     gf8_mul 0xb a0 XOR gf8_mul 0xd a1 XOR gf8_mul 0x9 a2 XOR gf8_mul 0xe a3]"

definition MixColumns :: "block \<Rightarrow> block" where
  "MixColumns b = concat (map (\<lambda>c. mix_column (b ! (4 * c)) (b ! (4 * c + 1)) (b ! (4 * c + 2)) (b ! (4 * c + 3))) [0, 1, 2, 3])"

definition InvMixColumns :: "block \<Rightarrow> block" where
  "InvMixColumns b =
     concat (map (\<lambda>c. inv_mix_column (b ! (4 * c)) (b ! (4 * c + 1)) (b ! (4 * c + 2)) (b ! (4 * c + 3))) [0, 1, 2, 3])"

definition AddRoundKey :: "block \<Rightarrow> block \<Rightarrow> block" where
  "AddRoundKey b k = map2 (XOR) b k"

subsection \<open>The key expansion and the cipher\<close>

text \<open>The round keys of a 128-bit key; each is computed from the one before it.\<close>

definition next_round_key :: "byte \<Rightarrow> block \<Rightarrow> block" where
  "next_round_key rcon k =
    (let t = [fips_sbox (k ! 13) XOR rcon, fips_sbox (k ! 14), fips_sbox (k ! 15), fips_sbox (k ! 12)];
         w0 = map2 (XOR) (take 4 k) t;
         w1 = map2 (XOR) (take 4 (drop 4 k)) w0;
         w2 = map2 (XOR) (take 4 (drop 8 k)) w1;
         w3 = map2 (XOR) (take 4 (drop 12 k)) w2
     in w0 @ w1 @ w2 @ w3)"

primrec round_key :: "block \<Rightarrow> nat \<Rightarrow> block" where
  "round_key key 0 = key"
| "round_key key (Suc i) = next_round_key ((xtime ^^ i) 1) (round_key key i)"

primrec fips_rounds :: "block \<Rightarrow> nat \<Rightarrow> block \<Rightarrow> block" where
  "fips_rounds key 0 b = AddRoundKey b (round_key key 0)"
| "fips_rounds key (Suc i) b = AddRoundKey (MixColumns (ShiftRows (SubBytes (fips_rounds key i b)))) (round_key key (Suc i))"

definition fips_cipher :: "block \<Rightarrow> block \<Rightarrow> block" where
  "fips_cipher key b = AddRoundKey (ShiftRows (SubBytes (fips_rounds key 9 b))) (round_key key 10)"

subsection \<open>The algebra of the field\<close>

lemma bit_xtime:
  "bit (xtime a) 0 = bit a 7" "bit (xtime a) 1 = (bit a 0 \<noteq> bit a 7)" "bit (xtime a) (Suc 0) = (bit a 0 \<noteq> bit a 7)"
  "bit (xtime a) 2 = bit a 1" "bit (xtime a) 3 = (bit a 2 \<noteq> bit a 7)" "bit (xtime a) 4 = (bit a 3 \<noteq> bit a 7)"
  "bit (xtime a) 5 = bit a 4" "bit (xtime a) 6 = bit a 5" "bit (xtime a) 7 = bit a 6"
  by (simp_all add: xtime_def bit_xor_iff bit_times_2 bit_if if_bool_eq_conj split del: if_split)

lemma xtime_xor: "xtime (a XOR b) = xtime a XOR xtime b"
  by (rule word_bits_eqI) (auto simp: bit_xtime bit_xor_iff upt_word_bits)

lemma xtime_0 [simp]: "xtime 0 = 0"
  by (simp add: xtime_def)

lemma gf8_mul_sum:
  "gf8_mul a b = (if bit a 0 then b else 0) XOR (if bit a 1 then xtime b else 0) XOR (if bit a 2 then xtime (xtime b) else 0) XOR
    (if bit a 3 then xtime (xtime (xtime b)) else 0) XOR (if bit a 4 then xtime (xtime (xtime (xtime b))) else 0) XOR
    (if bit a 5 then xtime (xtime (xtime (xtime (xtime b)))) else 0) XOR
    (if bit a 6 then xtime (xtime (xtime (xtime (xtime (xtime b))))) else 0) XOR
    (if bit a 7 then xtime (xtime (xtime (xtime (xtime (xtime (xtime b)))))) else 0)"
  by (simp add: gf8_mul_def xtime_xor if_distrib [of xtime] ac_simps split del: if_split cong: if_cong)

lemma if_xor:
  "(if p = (\<not> q) then v else 0) = (if p then v else 0) XOR (if q then v else (0 :: byte))"
  "(if \<not> p then v else 0) = v XOR (if p then v else 0)"
  by simp_all

lemma gf8_mul_xor: "gf8_mul (a XOR c) b = gf8_mul a b XOR gf8_mul c b"
  by (simp add: gf8_mul_sum bit_xor_iff if_xor ac_simps split del: if_split)

lemma xtime_8: "xtime (xtime (xtime (xtime (xtime (xtime (xtime (xtime b))))))) =
    b XOR xtime b XOR xtime (xtime (xtime b)) XOR xtime (xtime (xtime (xtime b)))"
  by (rule word_bits_eqI) (auto simp: bit_xtime bit_xor_iff upt_word_bits)

lemma gf8_mul_xtime: "gf8_mul (xtime a) b = xtime (gf8_mul a b)"
  by (cases "bit a 7")
    (simp_all add: gf8_mul_sum bit_xtime xtime_xor if_distrib [of xtime] xtime_8 if_xor ac_simps split del: if_split cong: if_cong)

subsection \<open>Logarithms\<close>

text \<open>
  Every element but zero is a power of 3, so inverses can be read off a table of powers:
  \<open>exp_table\<close> lists them and \<open>log_table\<close> gives the exponents.
\<close>

definition exp_table :: "byte list" where
  "exp_table = [
    0x01, 0x03, 0x05, 0x0f, 0x11, 0x33, 0x55, 0xff, 0x1a, 0x2e, 0x72, 0x96, 0xa1, 0xf8, 0x13, 0x35, 0x5f, 0xe1, 0x38,
    0x48, 0xd8, 0x73, 0x95, 0xa4, 0xf7, 0x02, 0x06, 0x0a, 0x1e, 0x22, 0x66, 0xaa, 0xe5, 0x34, 0x5c, 0xe4, 0x37, 0x59,
    0xeb, 0x26, 0x6a, 0xbe, 0xd9, 0x70, 0x90, 0xab, 0xe6, 0x31, 0x53, 0xf5, 0x04, 0x0c, 0x14, 0x3c, 0x44, 0xcc, 0x4f,
    0xd1, 0x68, 0xb8, 0xd3, 0x6e, 0xb2, 0xcd, 0x4c, 0xd4, 0x67, 0xa9, 0xe0, 0x3b, 0x4d, 0xd7, 0x62, 0xa6, 0xf1, 0x08,
    0x18, 0x28, 0x78, 0x88, 0x83, 0x9e, 0xb9, 0xd0, 0x6b, 0xbd, 0xdc, 0x7f, 0x81, 0x98, 0xb3, 0xce, 0x49, 0xdb, 0x76,
    0x9a, 0xb5, 0xc4, 0x57, 0xf9, 0x10, 0x30, 0x50, 0xf0, 0x0b, 0x1d, 0x27, 0x69, 0xbb, 0xd6, 0x61, 0xa3, 0xfe, 0x19,
    0x2b, 0x7d, 0x87, 0x92, 0xad, 0xec, 0x2f, 0x71, 0x93, 0xae, 0xe9, 0x20, 0x60, 0xa0, 0xfb, 0x16, 0x3a, 0x4e, 0xd2,
    0x6d, 0xb7, 0xc2, 0x5d, 0xe7, 0x32, 0x56, 0xfa, 0x15, 0x3f, 0x41, 0xc3, 0x5e, 0xe2, 0x3d, 0x47, 0xc9, 0x40, 0xc0,
    0x5b, 0xed, 0x2c, 0x74, 0x9c, 0xbf, 0xda, 0x75, 0x9f, 0xba, 0xd5, 0x64, 0xac, 0xef, 0x2a, 0x7e, 0x82, 0x9d, 0xbc,
    0xdf, 0x7a, 0x8e, 0x89, 0x80, 0x9b, 0xb6, 0xc1, 0x58, 0xe8, 0x23, 0x65, 0xaf, 0xea, 0x25, 0x6f, 0xb1, 0xc8, 0x43,
    0xc5, 0x54, 0xfc, 0x1f, 0x21, 0x63, 0xa5, 0xf4, 0x07, 0x09, 0x1b, 0x2d, 0x77, 0x99, 0xb0, 0xcb, 0x46, 0xca, 0x45,
    0xcf, 0x4a, 0xde, 0x79, 0x8b, 0x86, 0x91, 0xa8, 0xe3, 0x3e, 0x42, 0xc6, 0x51, 0xf3, 0x0e, 0x12, 0x36, 0x5a, 0xee,
    0x29, 0x7b, 0x8d, 0x8c, 0x8f, 0x8a, 0x85, 0x94, 0xa7, 0xf2, 0x0d, 0x17, 0x39, 0x4b, 0xdd, 0x7c, 0x84, 0x97, 0xa2,
    0xfd, 0x1c, 0x24, 0x6c, 0xb4, 0xc7, 0x52, 0xf6, 0x01]"

definition log_table :: "nat list" where
  "log_table = [
    0, 0, 25, 1, 50, 2, 26, 198, 75, 199, 27, 104, 51, 238, 223, 3, 100, 4, 224, 14, 52, 141, 129, 239, 76, 113, 8, 200,
    248, 105, 28, 193, 125, 194, 29, 181, 249, 185, 39, 106, 77, 228, 166, 114, 154, 201, 9, 120, 101, 47, 138, 5, 33,
    15, 225, 36, 18, 240, 130, 69, 53, 147, 218, 142, 150, 143, 219, 189, 54, 208, 206, 148, 19, 92, 210, 241, 64, 70,
    131, 56, 102, 221, 253, 48, 191, 6, 139, 98, 179, 37, 226, 152, 34, 136, 145, 16, 126, 110, 72, 195, 163, 182, 30,
    66, 58, 107, 40, 84, 250, 133, 61, 186, 43, 121, 10, 21, 155, 159, 94, 202, 78, 212, 172, 229, 243, 115, 167, 87,
    175, 88, 168, 80, 244, 234, 214, 116, 79, 174, 233, 213, 231, 230, 173, 232, 44, 215, 117, 122, 235, 22, 11, 245, 89,
    203, 95, 176, 156, 169, 81, 160, 127, 12, 246, 111, 23, 196, 73, 236, 216, 67, 31, 45, 164, 118, 123, 183, 204, 187,
    62, 90, 251, 96, 177, 134, 59, 82, 161, 108, 170, 85, 41, 157, 151, 178, 135, 144, 97, 190, 220, 252, 188, 149, 207,
    205, 55, 63, 91, 209, 83, 57, 132, 60, 65, 162, 109, 71, 20, 42, 158, 93, 86, 242, 211, 171, 68, 17, 146, 217, 35,
    32, 46, 137, 180, 124, 184, 38, 119, 153, 227, 165, 103, 74, 237, 222, 197, 49, 254, 24, 13, 99, 140, 128, 192, 247,
    112, 7]"

definition tri :: "byte \<Rightarrow> byte" where
  "tri b = xtime b XOR b"

lemma gf8_mul_tri_pow: "gf8_mul ((tri ^^ k) 1) b = (tri ^^ k) b"
  by (induction k) (simp_all add: tri_def gf8_mul_xor gf8_mul_xtime, simp add: gf8_mul_sum)

lemma exp_table_step: "map tri (butlast exp_table) = tl exp_table"
  by (simp add: exp_table_def tri_def xtime_def)

lemma exp_table_tri: "k < 256 \<Longrightarrow> exp_table ! k = (tri ^^ k) 1"
proof (induction k)
  case 0
  show ?case by (simp add: exp_table_def)
next
  case (Suc k)
  have len: "length exp_table = 256" by (simp add: exp_table_def)
  have "exp_table ! Suc k = tl exp_table ! k" using Suc.prems len by (simp add: nth_tl)
  also have "\<dots> = tri (exp_table ! k)" using Suc.prems len unfolding exp_table_step [symmetric] by (simp add: nth_butlast)
  finally show ?case using Suc by simp
qed

lemma exp_log_table: "map (\<lambda>l. exp_table ! l) (tl log_table) = map word_of_nat [1..<256]"
  by (simp add: exp_table_def log_table_def upt_conv_Cons)

lemma log_table_less: "list_all (\<lambda>l. l < 255) log_table"
  by (simp add: log_table_def)

lemma length_log_table: "length log_table = 256"
  by (simp add: log_table_def)

lemma exp_log:
  assumes "x \<noteq> 0"
  shows "exp_table ! (log_table ! unat x) = x" "log_table ! unat x < 255"
proof -
  have x: "0 < unat x" "unat x < 256" using assms unsigned_less [of x, where ?'a = nat] by (simp_all add: unat_gt_0)
  then have "map (\<lambda>l. exp_table ! l) (tl log_table) ! (unat x - 1) = exp_table ! (log_table ! unat x)"
    by (simp add: nth_tl length_log_table)
  then show "exp_table ! (log_table ! unat x) = x" unfolding exp_log_table using x by simp
  show "log_table ! unat x < 255" using log_table_less x by (simp add: list_all_length length_log_table)
qed

lemma tri_period: "(tri ^^ (255 * n + k)) 1 = (tri ^^ k) 1"
proof (induction n)
  case (Suc n)
  have one: "(tri ^^ 255) 1 = 1" using exp_table_tri [of 255] by (simp add: exp_table_def)
  have "(tri ^^ (255 * Suc n + k)) 1 = (tri ^^ (255 * n + k)) ((tri ^^ 255) 1)"
    by (simp add: funpow_add [symmetric, THEN fun_cong, unfolded o_apply] ac_simps)
  with Suc one show ?case by simp
qed simp

lemma gf8_inv_exp:
  assumes "k < 256"
  shows "gf8_inv (exp_table ! k) = exp_table ! (255 - k)"
proof -
  have f: "gf8_mul (exp_table ! k) = tri ^^ k" using assms by (simp add: fun_eq_iff exp_table_tri gf8_mul_tri_pow)
  have "k * 254 = 255 * (k - 1) + (255 - k)" if "k \<noteq> 0" using that assms by (cases k) simp_all
  then have "(tri ^^ (k * 254)) 1 = (tri ^^ (255 - k)) 1"
    using tri_period [of "k - 1" "255 - k"] tri_period [of 1 0] by (cases "k = 0") simp_all
  then show ?thesis using assms exp_table_tri [of "255 - k"] unfolding gf8_inv_def f funpow_mult by simp
qed

text \<open>\<open>gf8_inv\<close> is the inverse of the field, with zero mapped to itself.\<close>

lemma gf8_inv_mul: "x \<noteq> 0 \<Longrightarrow> gf8_mul x (gf8_inv x) = 1"
proof -
  assume "x \<noteq> 0"
  define k where "k = log_table ! unat x"
  have x: "x = exp_table ! k" "k < 255" using exp_log [OF \<open>x \<noteq> 0\<close>] by (simp_all add: k_def)
  then have "gf8_mul x (gf8_inv x) = (tri ^^ k) ((tri ^^ (255 - k)) 1)"
    by (simp add: gf8_inv_exp) (simp add: exp_table_tri gf8_mul_tri_pow)
  also have "\<dots> = (tri ^^ 255) 1" using x(2) by (simp add: funpow_add [symmetric, THEN fun_cong, unfolded o_apply])
  also have "\<dots> = 1" using tri_period [of 1 0] by simp
  finally show ?thesis .
qed

definition logarithm :: "byte \<Rightarrow> nat" where
  "logarithm x = log_table ! unat x"

lemma log_list: "map (\<lambda>i. logarithm (word_of_nat i)) [0..<256] = log_table"
  by (rule nth_equalityI) (simp_all add: length_log_table logarithm_def unat_of_nat)

lemmas log_values = log_list [unfolded log_table_def upt_256, simplified]

lemma log_exp_table: "map logarithm (butlast exp_table) = butlast [0..<256]"
  by (simp add: exp_table_def log_values upt_256)

lemma log_exp: "k < 255 \<Longrightarrow> logarithm (exp_table ! k) = k"
proof -
  assume k: "k < 255"
  have len: "length exp_table = 256" by (simp add: exp_table_def)
  have "logarithm (exp_table ! k) = map logarithm (butlast exp_table) ! k" using k len by (simp add: nth_butlast)
  then show ?thesis unfolding log_exp_table using k by (simp add: nth_butlast)
qed

lemma gf8_inv_inv: "gf8_inv (gf8_inv x) = x"
proof (cases "x = 0")
  case True
  have "gf8_mul 0 = (\<lambda>b. 0)" by (simp add: fun_eq_iff gf8_mul_sum)
  then show ?thesis using True by (simp add: gf8_inv_def numeral_eq_Suc)
next
  case False
  then show ?thesis using exp_log [OF False] gf8_inv_exp [of "log_table ! unat x"] gf8_inv_exp [of "255 - log_table ! unat x"] by simp
qed

end
