(* ===== verification/Aes_Cipher.thy ===== *)
theory Aes_Cipher
  imports Aes_Tables
begin

text \<open>
  The block cipher of \<open>components/pilot/src/aeslib\<close>: the table macros of \<open>aesopt.h\<close>, the key
  schedules of \<open>aeskey.c\<close> and encryption and decryption of \<open>aescrypt.c\<close>, unrolled as the
  options ask. A context whose number of rounds asks for more round keys than it holds
  makes the code read past the schedule, which is the value \<open>None\<close> here. The lemmas show
  that encryption with an expanded key is the cipher of FIPS 197 and that decryption with
  the reversed, premixed key schedule undoes it.
\<close>

subsection \<open>The table macros\<close>

definition no_table :: "'x \<Rightarrow> u32 list \<Rightarrow> ('x \<Rightarrow> nat \<Rightarrow> nat \<Rightarrow> u32) \<Rightarrow> (nat \<Rightarrow> nat \<Rightarrow> nat) \<Rightarrow> nat \<Rightarrow> u32" where
  "no_table x box vf rf c = bytes2word
     (box ! unat (bval (vf x 0 c) (rf 0 c))) (box ! unat (bval (vf x 1 c) (rf 1 c)))
     (box ! unat (bval (vf x 2 c) (rf 2 c))) (box ! unat (bval (vf x 3 c) (rf 3 c)))"

definition one_table :: "'x \<Rightarrow> (u32 \<Rightarrow> nat \<Rightarrow> u32) \<Rightarrow> u32 list \<Rightarrow> ('x \<Rightarrow> nat \<Rightarrow> nat \<Rightarrow> u32) \<Rightarrow> (nat \<Rightarrow> nat \<Rightarrow> nat) \<Rightarrow> nat \<Rightarrow> u32" where
  "one_table x op tab vf rf c =
     tab ! unat (bval (vf x 0 c) (rf 0 c)) XOR op (tab ! unat (bval (vf x 1 c) (rf 1 c))) 1 XOR
     op (tab ! unat (bval (vf x 2 c) (rf 2 c))) 2 XOR op (tab ! unat (bval (vf x 3 c) (rf 3 c))) 3"

definition four_tables :: "'x \<Rightarrow> u32 list list \<Rightarrow> ('x \<Rightarrow> nat \<Rightarrow> nat \<Rightarrow> u32) \<Rightarrow> (nat \<Rightarrow> nat \<Rightarrow> nat) \<Rightarrow> nat \<Rightarrow> u32" where
  "four_tables x tab vf rf c =
     tab ! 0 ! unat (bval (vf x 0 c) (rf 0 c)) XOR tab ! 1 ! unat (bval (vf x 1 c) (rf 1 c)) XOR
     tab ! 2 ! unat (bval (vf x 2 c) (rf 2 c)) XOR tab ! 3 ! unat (bval (vf x 3 c) (rf 3 c))"

definition vf1 :: "u32 \<Rightarrow> nat \<Rightarrow> nat \<Rightarrow> u32" where "vf1 x r c = x"
definition rf1 :: "nat \<Rightarrow> nat \<Rightarrow> nat" where "rf1 r c = r"
definition rf2 :: "nat \<Rightarrow> nat \<Rightarrow> nat" where "rf2 r c = (8 + r - c) mod 4"

definition gf_c1 :: u32 where "gf_c1 = 0x80808080"
definition gf_c2 :: u32 where "gf_c2 = 0x7f7f7f7f"

definition gf_mulx :: "u32 \<Rightarrow> u32" where
  "gf_mulx x = push_bit 1 (x AND gf_c2) XOR drop_bit 7 (x AND gf_c1) * BPOLY"

text \<open>\<open>fwd_mcol\<close> and \<open>inv_mcol_calc\<close> are the variants without tables, \<open>inv_mcol\<close> the one in use.\<close>

definition fwd_mcol :: "u32 \<Rightarrow> u32" where
  "fwd_mcol x = (let g2 = gf_mulx x in g2 XOR upr (x XOR g2) 3 XOR upr x 2 XOR upr x 1)"

definition inv_mcol_calc :: "u32 \<Rightarrow> u32" where
  "inv_mcol_calc x = (let g2 = gf_mulx x; g4 = gf_mulx g2; g9 = x XOR gf_mulx g4; g4 = g4 XOR g9 in
     x XOR g2 XOR g4 XOR upr (g2 XOR g9) 3 XOR upr g4 2 XOR upr g9 1)"

definition inv_mcol :: "u32 \<Rightarrow> u32" where
  "inv_mcol x = four_tables x t_im vf1 rf1 0"

definition ls_box :: "u32 \<Rightarrow> nat \<Rightarrow> u32" where
  "ls_box x c = four_tables x t_fl vf1 rf2 c"

subsection \<open>Contexts and key schedules\<close>

record aes_ctx =
  ks :: "u32 list"
  inf_b :: "byte list"

definition ke4 :: "u32 list \<times> u32 list \<Rightarrow> nat \<Rightarrow> u32 list \<times> u32 list" where
  "ke4 kss i = (case kss of (k, ss) \<Rightarrow>
    let s0 = ss ! 0 XOR (ls_box (ss ! 3) 3 XOR t_rc ! i); k = k[4 * i + 4 := s0];
        s1 = ss ! 1 XOR s0; k = k[4 * i + 5 := s1];
        s2 = ss ! 2 XOR s1; k = k[4 * i + 6 := s2];
        s3 = ss ! 3 XOR s2; k = k[4 * i + 7 := s3]
    in (k, [s0, s1, s2, s3]))"

definition aes_encrypt_key128 :: "byte list \<Rightarrow> aes_ctx \<Rightarrow> int \<times> aes_ctx" where
  "aes_encrypt_key128 key cx =
    (let ss = [word_in key 0, word_in key 1, word_in key 2, word_in key 3];
         k = (ks cx)[0 := ss ! 0, 1 := ss ! 1, 2 := ss ! 2, 3 := ss ! 3];
         kss = ke4 (ke4 (ke4 (ke4 (ke4 (ke4 (ke4 (ke4 (ke4 (k, ss) 0) 1) 2) 3) 4) 5) 6) 7) 8;
         kss = ke4 kss 9
     in (0, cx\<lparr>ks := fst kss, inf_b := [10 * 16, 0, 0, 0]\<rparr>))"

text \<open>The position of the \<open>i\<close>-th word of the schedule when the round keys are stored in reverse.\<close>

definition v_rev :: "nat \<Rightarrow> nat \<Rightarrow> nat" where
  "v_rev n i = n + 2 * (i mod 4) - i"

definition ff :: "u32 \<Rightarrow> u32" where
  "ff x = inv_mcol x"

definition kdf4 :: "u32 list \<times> u32 list \<Rightarrow> nat \<Rightarrow> u32 list \<times> u32 list" where
  "kdf4 kss i = (case kss of (k, ss) \<Rightarrow>
    let ss = ss[0 := ss ! 0 XOR ss ! 2 XOR ss ! 1 XOR ss ! 3];
        ss = ss[1 := ss ! 1 XOR ss ! 3];
        ss = ss[2 := ss ! 2 XOR ss ! 3];
        s4 = ls_box (ss ! ((i + 3) mod 4)) 3 XOR t_rc ! i;
        ss = ss[i mod 4 := ss ! (i mod 4) XOR s4];
        s4 = s4 XOR k ! v_rev 40 (4 * i); k = k[v_rev 40 (4 * i + 4) := ff s4];
        s4 = s4 XOR k ! v_rev 40 (4 * i + 1); k = k[v_rev 40 (4 * i + 5) := ff s4];
        s4 = s4 XOR k ! v_rev 40 (4 * i + 2); k = k[v_rev 40 (4 * i + 6) := ff s4];
        s4 = s4 XOR k ! v_rev 40 (4 * i + 3); k = k[v_rev 40 (4 * i + 7) := ff s4]
    in (k, ss[4 := s4]))"

definition kd4 :: "u32 list \<times> u32 list \<Rightarrow> nat \<Rightarrow> u32 list \<times> u32 list" where
  "kd4 kss i = (case kss of (k, ss) \<Rightarrow>
    let s4 = ls_box (ss ! ((i + 3) mod 4)) 3 XOR t_rc ! i;
        ss = ss[i mod 4 := ss ! (i mod 4) XOR s4]; s4 = ff s4;
        s4 = s4 XOR k ! v_rev 40 (4 * i); k = k[v_rev 40 (4 * i + 4) := s4];
        s4 = s4 XOR k ! v_rev 40 (4 * i + 1); k = k[v_rev 40 (4 * i + 5) := s4];
        s4 = s4 XOR k ! v_rev 40 (4 * i + 2); k = k[v_rev 40 (4 * i + 6) := s4];
        s4 = s4 XOR k ! v_rev 40 (4 * i + 3); k = k[v_rev 40 (4 * i + 7) := s4]
    in (k, ss[4 := s4]))"

definition kdl4 :: "u32 list \<times> u32 list \<Rightarrow> nat \<Rightarrow> u32 list \<times> u32 list" where
  "kdl4 kss i = (case kss of (k, ss) \<Rightarrow>
    let s4 = ls_box (ss ! ((i + 3) mod 4)) 3 XOR t_rc ! i;
        ss = ss[i mod 4 := ss ! (i mod 4) XOR s4];
        ss = ss[0 := ss ! 0 XOR ss ! 1]; k = k[v_rev 40 (4 * i + 4) := ss ! 0 XOR ss ! 2 XOR ss ! 3];
        k = k[v_rev 40 (4 * i + 5) := ss ! 1 XOR ss ! 3];
        k = k[v_rev 40 (4 * i + 6) := ss ! 0];
        k = k[v_rev 40 (4 * i + 7) := ss ! 1]
    in (k, ss[4 := s4]))"

definition aes_decrypt_key128 :: "byte list \<Rightarrow> aes_ctx \<Rightarrow> int \<times> aes_ctx" where
  "aes_decrypt_key128 key cx =
    (let ss = [word_in key 0, word_in key 1, word_in key 2, word_in key 3, 0];
         k = (ks cx)[v_rev 40 0 := ss ! 0, v_rev 40 1 := ss ! 1, v_rev 40 2 := ss ! 2, v_rev 40 3 := ss ! 3];
         kss = kdl4 (kd4 (kd4 (kd4 (kd4 (kd4 (kd4 (kd4 (kd4 (kdf4 (k, ss) 0) 1) 2) 3) 4) 5) 6) 7) 8) 9
     in (0, cx\<lparr>ks := fst kss, inf_b := [10 * 16, 0, 0, 0]\<rparr>))"

subsection \<open>Encryption\<close>

text \<open>A state is the array of its four columns; \<open>aes_round\<close> computes the four of the next one.\<close>

definition state_in :: "byte list \<Rightarrow> u32 list \<Rightarrow> u32 list" where
  "state_in x k = [word_in x 0 XOR k ! 0, word_in x 1 XOR k ! 1, word_in x 2 XOR k ! 2, word_in x 3 XOR k ! 3]"

definition state_out :: "byte list \<Rightarrow> u32 list \<Rightarrow> byte list" where
  "state_out y x = word_out (word_out (word_out (word_out y 0 (x ! 0)) 1 (x ! 1)) 2 (x ! 2)) 3 (x ! 3)"

definition aes_round :: "(u32 list \<Rightarrow> u32 list \<Rightarrow> nat \<Rightarrow> u32) \<Rightarrow> u32 list \<Rightarrow> u32 list \<Rightarrow> u32 list" where
  "aes_round rm x k = [rm x k 0, rm x k 1, rm x k 2, rm x k 3]"

definition fwd_var :: "u32 list \<Rightarrow> nat \<Rightarrow> nat \<Rightarrow> u32" where
  "fwd_var x r c =
    (if r = 0 then (if c = 0 then x ! 0 else if c = 1 then x ! 1 else if c = 2 then x ! 2 else x ! 3)
     else if r = 1 then (if c = 0 then x ! 1 else if c = 1 then x ! 2 else if c = 2 then x ! 3 else x ! 0)
     else if r = 2 then (if c = 0 then x ! 2 else if c = 1 then x ! 3 else if c = 2 then x ! 0 else x ! 1)
     else (if c = 0 then x ! 3 else if c = 1 then x ! 0 else if c = 2 then x ! 1 else x ! 2))"

definition fwd_rnd :: "u32 list \<Rightarrow> u32 list \<Rightarrow> nat \<Rightarrow> u32" where
  "fwd_rnd x k c = k ! c XOR four_tables x t_fn fwd_var rf1 c"

definition fwd_lrnd :: "u32 list \<Rightarrow> u32 list \<Rightarrow> nat \<Rightarrow> u32" where
  "fwd_lrnd x k c = k ! c XOR four_tables x t_fl fwd_var rf1 c"

definition aes_encrypt :: "byte list \<Rightarrow> byte list \<Rightarrow> aes_ctx \<Rightarrow> (int \<times> byte list) option" where
  "aes_encrypt inp out cx =
    (let b = inf_b cx ! 0 in
     if b \<noteq> 10 * 16 \<and> b \<noteq> 12 * 16 \<and> b \<noteq> 14 * 16 then Some (-1, out)
     else if length (ks cx) < (unat b div 16 + 1) * N_COLS then None
     else
       let kp = ks cx;
           b0 = state_in inp kp;
           (kp, b0) = (if b = 14 * 16
             then (let b1 = aes_round fwd_rnd b0 (drop (1 * N_COLS) kp); b0 = aes_round fwd_rnd b1 (drop (2 * N_COLS) kp)
                   in (drop (2 * N_COLS) kp, b0))
             else (kp, b0));
           (kp, b0) = (if b = 14 * 16 \<or> b = 12 * 16
             then (let b1 = aes_round fwd_rnd b0 (drop (1 * N_COLS) kp); b0 = aes_round fwd_rnd b1 (drop (2 * N_COLS) kp)
                   in (drop (2 * N_COLS) kp, b0))
             else (kp, b0));
           b1 = aes_round fwd_rnd b0 (drop (1 * N_COLS) kp);
           b0 = aes_round fwd_rnd b1 (drop (2 * N_COLS) kp);
           b1 = aes_round fwd_rnd b0 (drop (3 * N_COLS) kp);
           b0 = aes_round fwd_rnd b1 (drop (4 * N_COLS) kp);
           b1 = aes_round fwd_rnd b0 (drop (5 * N_COLS) kp);
           b0 = aes_round fwd_rnd b1 (drop (6 * N_COLS) kp);
           b1 = aes_round fwd_rnd b0 (drop (7 * N_COLS) kp);
           b0 = aes_round fwd_rnd b1 (drop (8 * N_COLS) kp);
           b1 = aes_round fwd_rnd b0 (drop (9 * N_COLS) kp);
           b0 = aes_round fwd_lrnd b1 (drop (10 * N_COLS) kp)
       in Some (0, state_out out b0))"

subsection \<open>Decryption\<close>

definition inv_var :: "u32 list \<Rightarrow> nat \<Rightarrow> nat \<Rightarrow> u32" where
  "inv_var x r c =
    (if r = 0 then (if c = 0 then x ! 0 else if c = 1 then x ! 1 else if c = 2 then x ! 2 else x ! 3)
     else if r = 1 then (if c = 0 then x ! 3 else if c = 1 then x ! 0 else if c = 2 then x ! 1 else x ! 2)
     else if r = 2 then (if c = 0 then x ! 2 else if c = 1 then x ! 3 else if c = 2 then x ! 0 else x ! 1)
     else (if c = 0 then x ! 1 else if c = 1 then x ! 2 else if c = 2 then x ! 3 else x ! 0))"

definition inv_rnd :: "u32 list \<Rightarrow> u32 list \<Rightarrow> nat \<Rightarrow> u32" where
  "inv_rnd x k c = k ! c XOR four_tables x t_in inv_var rf1 c"

definition inv_lrnd :: "u32 list \<Rightarrow> u32 list \<Rightarrow> nat \<Rightarrow> u32" where
  "inv_lrnd x k c = k ! c XOR four_tables x t_il inv_var rf1 c"

text \<open>\<open>rnd_key cx n\<close> is the macro's \<open>rnd_key(-n)\<close>: the \<open>n\<close>-th round key from the end.\<close>

definition rnd_key :: "aes_ctx \<Rightarrow> nat \<Rightarrow> u32 list" where
  "rnd_key cx n = drop (unat (drop_bit 2 (inf_b cx ! 0)) - n * N_COLS) (ks cx)"

definition aes_decrypt :: "byte list \<Rightarrow> byte list \<Rightarrow> aes_ctx \<Rightarrow> (int \<times> byte list) option" where
  "aes_decrypt inp out cx =
    (let b = inf_b cx ! 0 in
     if b \<noteq> 10 * 16 \<and> b \<noteq> 12 * 16 \<and> b \<noteq> 14 * 16 then Some (-1, out)
     else if length (ks cx) < (unat b div 16 + 1) * N_COLS then None
     else
       let b0 = state_in inp (ks cx);
           b0 = (if b = 14 * 16 then aes_round inv_rnd (aes_round inv_rnd b0 (rnd_key cx 13)) (rnd_key cx 12) else b0);
           b0 = (if b = 14 * 16 \<or> b = 12 * 16
             then aes_round inv_rnd (aes_round inv_rnd b0 (rnd_key cx 11)) (rnd_key cx 10) else b0);
           b1 = aes_round inv_rnd b0 (rnd_key cx 9);
           b0 = aes_round inv_rnd b1 (rnd_key cx 8);
           b1 = aes_round inv_rnd b0 (rnd_key cx 7);
           b0 = aes_round inv_rnd b1 (rnd_key cx 6);
           b1 = aes_round inv_rnd b0 (rnd_key cx 5);
           b0 = aes_round inv_rnd b1 (rnd_key cx 4);
           b1 = aes_round inv_rnd b0 (rnd_key cx 3);
           b0 = aes_round inv_rnd b1 (rnd_key cx 2);
           b1 = aes_round inv_rnd b0 (rnd_key cx 1);
           b0 = aes_round inv_lrnd b1 (rnd_key cx 0)
       in Some (0, state_out out b0))"

subsection \<open>One round\<close>

lemma ui32_of_xor': "ui32_of a b c d XOR ui32_of e f g h = ui32_of (a XOR e) (b XOR f) (c XOR g) (d XOR h)"
  by (simp add: ui32_of_xor)

lemmas table_lookups = t_fn_def t_fl_def t_in_def t_il_def t_im_def sb_entry isb_entry mm_entry mix_words inv_mix_words last_words

lemma aes_round_fwd:
  assumes "length b = 16" "length k = 16"
  shows "aes_round fwd_rnd (units b) (units k @ r) = units (AddRoundKey (MixColumns (ShiftRows (SubBytes b))) k)"
  using assms
  by (elim list16_cases)
    (simp add: units_16 aes_round_def fwd_rnd_def four_tables_def fwd_var_def rf1_def bval_of table_lookups ui32_of_xor'
      AddRoundKey_def MixColumns_def ShiftRows_def SubBytes_def mix_column_def upt_word_bits sbox_eq ac_simps)

lemma aes_round_last:
  assumes "length b = 16" "length k = 16"
  shows "aes_round fwd_lrnd (units b) (units k @ r) = units (AddRoundKey (ShiftRows (SubBytes b)) k)"
  using assms
  by (elim list16_cases)
    (simp add: units_16 aes_round_def fwd_lrnd_def four_tables_def fwd_var_def rf1_def bval_of table_lookups ui32_of_xor'
      AddRoundKey_def ShiftRows_def SubBytes_def upt_word_bits sbox_eq ac_simps)

lemma state_in_key:
  assumes "length b = 16" "length k = 16"
  shows "state_in b (units k @ r) = units (AddRoundKey b k)"
  using assms
  by (elim list16_cases) (simp add: state_in_def word_in_units units_16 AddRoundKey_def ui32_of_xor')

lemma state_out_units:
  assumes "length y = 16" "length x = 16"
  shows "state_out y (units x) = x"
  using assms
  by (elim list16_cases) (simp add: state_out_def word_out_def units_16 bval_of)

lemma ls_box_word: "ls_box (ui32_of a b c d) 3 = ui32_of (fips_sbox b) (fips_sbox c) (fips_sbox d) (fips_sbox a)"
  by (simp add: ls_box_def four_tables_def vf1_def rf2_def bval_of table_lookups ui32_of_xor' sbox_eq)

subsection \<open>The encryption key schedule\<close>

lemma round_length [simp]:
  "length b = 16 \<Longrightarrow> length k = 16 \<Longrightarrow> length (AddRoundKey b k) = 16" "length (ShiftRows b) = 16" "length (MixColumns b) = 16"
  "length (InvMixColumns b) = 16" "length (SubBytes b) = length b"
  by (simp_all add: AddRoundKey_def ShiftRows_def MixColumns_def InvMixColumns_def SubBytes_def mix_column_def inv_mix_column_def)

lemma next_round_key_length [simp]: "length k = 16 \<Longrightarrow> length (next_round_key r k) = 16"
  by (simp add: next_round_key_def Let_def)

lemma round_key_length [simp]: "length key = 16 \<Longrightarrow> length (round_key key i) = 16"
  by (induction i) simp_all

lemma key_step:
  assumes "length k = 16" "units k = [a, b, c, d]"
  shows "units (next_round_key r k) = (let t = ls_box d 3 XOR ui32_of r 0 0 0 in
    [a XOR t, b XOR (a XOR t), c XOR (b XOR (a XOR t)), d XOR (c XOR (b XOR (a XOR t)))])"
  using assms
  by (elim list16_cases) (auto simp: next_round_key_def units_16 ls_box_word ui32_of_xor' Let_def)

text \<open>The schedule after \<open>n\<close> steps: the first \<open>n + 1\<close> round keys, then what was there.\<close>

definition enc_schedule :: "block \<Rightarrow> nat \<Rightarrow> u32 list" where
  "enc_schedule key n = concat (map (\<lambda>i. units (round_key key i)) [0..<Suc n])"

lemma enc_schedule_length [simp]: "length (enc_schedule key n) = 4 * n + 4"
  by (induction n) (simp_all add: enc_schedule_def)

lemma enc_schedule_Suc: "enc_schedule key (Suc n) = enc_schedule key n @ units (round_key key (Suc n))"
  by (simp add: enc_schedule_def)

lemma update4: "length p = n \<Longrightarrow> 4 \<le> length r \<Longrightarrow> (p @ r)[n := a, Suc n := b, n + 2 := c, n + 3 := d] = p @ [a, b, c, d] @ drop 4 r"
  by (auto simp: list_update_append numeral_eq_Suc Suc_le_length_iff)

lemma ke4_schedule:
  assumes "length key = 16" "n < 10" "length k0 = 44"
  shows "ke4 (enc_schedule key n @ drop (4 * n + 4) k0, units (round_key key n)) n =
    (enc_schedule key (Suc n) @ drop (4 * Suc n + 4) k0, units (round_key key (Suc n)))"
proof -
  obtain a b c d where u: "units (round_key key n) = [a, b, c, d]" using list4_cases units_length by metis
  have "units (round_key key (Suc n)) = (let t = ls_box d 3 XOR t_rc ! n in
    [a XOR t, b XOR (a XOR t), c XOR (b XOR (a XOR t)), d XOR (c XOR (b XOR (a XOR t)))])"
    using key_step [OF _ u] assms by (simp add: rc_entry)
  then show ?thesis
    using update4 [of "enc_schedule key n" "4 * n + 4" "drop (4 * n + 4) k0"] assms
    by (simp add: ke4_def u enc_schedule_Suc Let_def add.commute numeral_eq_Suc)
qed

lemma ke4_fold:
  assumes "length key = 16" "length k0 = 44" "n \<le> 10"
  shows "foldl ke4 (enc_schedule key 0 @ drop 4 k0, units key) [0..<n] = (enc_schedule key n @ drop (4 * n + 4) k0, units (round_key key n))"
  using assms(3)
proof (induction n)
  case (Suc n)
  then show ?case using ke4_schedule [OF assms(1) _ assms(2), of n] by simp
qed simp

lemma upt_10: "[0..<10] = [0, 1, 2, 3, 4, 5, 6, 7, 8, 9]"
  by code_simp

lemma aes_encrypt_key128_schedule:
  assumes "length key = 16" "length (ks cx) = 44"
  shows "aes_encrypt_key128 key cx = (0, cx\<lparr>ks := enc_schedule key 10, inf_b := [160, 0, 0, 0]\<rparr>)"
proof -
  have u: "units key = [word_in key 0, word_in key 1, word_in key 2, word_in key 3]"
    by (simp add: word_in_units units_def)
  then have k: "(ks cx)[0 := word_in key 0, 1 := word_in key 1, 2 := word_in key 2, 3 := word_in key 3] =
    enc_schedule key 0 @ drop 4 (ks cx)"
    using update4 [of "[]" 0 "ks cx"] assms by (simp add: enc_schedule_def flip: numeral_2_eq_2)
  have "foldl ke4 (enc_schedule key 0 @ drop 4 (ks cx), units key) [0, 1, 2, 3, 4, 5, 6, 7, 8, 9] =
    (enc_schedule key 10, units (round_key key 10))"
    using ke4_fold [OF assms, of 10] assms(2) unfolding upt_10 by simp
  then show ?thesis unfolding aes_encrypt_key128_def k [symmetric] by (simp add: Let_def u)
qed

subsection \<open>Encryption is the cipher\<close>

lemma enc_schedule_drop: "n \<le> m \<Longrightarrow> drop (4 * n) (enc_schedule key m) = units (round_key key n) @ drop (4 * n + 4) (enc_schedule key m)"
proof (induction m)
  case 0
  then show ?case by (simp add: enc_schedule_def)
next
  case (Suc m)
  show ?case
  proof (cases "n = Suc m")
    case False
    with Suc show ?thesis by (simp add: enc_schedule_Suc)
  qed (simp add: enc_schedule_Suc)
qed

lemma fips_rounds_length [simp]: "length key = 16 \<Longrightarrow> length b = 16 \<Longrightarrow> length (fips_rounds key n b) = 16"
  by (induction n) simp_all

lemma fips_cipher_length [simp]: "length key = 16 \<Longrightarrow> length b = 16 \<Longrightarrow> length (fips_cipher key b) = 16"
  by (simp add: fips_cipher_def)

lemma enc_round:
  assumes "length key = 16" "length b = 16" "n < 9"
  shows "aes_round fwd_rnd (units (fips_rounds key n b)) (drop (Suc n * 4) (enc_schedule key 10)) = units (fips_rounds key (Suc n) b)"
proof -
  obtain r where "drop (Suc n * 4) (enc_schedule key 10) = units (round_key key (Suc n)) @ r"
    using enc_schedule_drop [of "Suc n" 10 key] assms(3) by (auto simp: mult.commute)
  then show ?thesis using assms by (simp add: aes_round_fwd)
qed

definition keyed :: "block \<Rightarrow> aes_ctx \<Rightarrow> bool" where
  "keyed key cx \<longleftrightarrow> length key = 16 \<and> ks cx = enc_schedule key 10 \<and> inf_b cx = [160, 0, 0, 0]"

lemma aes_encrypt_keyed:
  assumes "keyed key cx" "length b = 16" "length out = 16"
  shows "aes_encrypt b out cx = Some (0, fips_cipher key b)"
proof -
  have k: "length key = 16" "ks cx = enc_schedule key 10" "inf_b cx = [160, 0, 0, 0]" using assms(1) by (simp_all add: keyed_def)
  have start: "state_in b (enc_schedule key 10) = units (fips_rounds key 0 b)"
    using enc_schedule_drop [of 0 10 key] k(1) assms(2) state_in_key [of b key "drop 4 (enc_schedule key 10)"] by simp
  have last: "aes_round fwd_lrnd (units (fips_rounds key 9 b)) (drop 40 (enc_schedule key 10)) = units (fips_cipher key b)"
    using enc_schedule_drop [of 10 10 key] k(1) assms(2)
    by (simp add: aes_round_last [where r = "[]", simplified] fips_cipher_def)
  note r = enc_round [OF k(1) assms(2)]
  show ?thesis
    using r [of 0] r [of 1] r [of 2] r [of 3] r [of 4] r [of 5] r [of 6] r [of 7] r [of 8] assms(3) k(1)
    by (simp add: aes_encrypt_def k(2,3) N_COLS_def Let_def start last state_out_units assms(2)
      del: fips_rounds.simps round_key.simps flip: numeral_2_eq_2)
qed

subsection \<open>Undoing a round\<close>

lemma gf8_mul_xor_right: "gf8_mul a (b XOR c) = gf8_mul a b XOR gf8_mul a c"
proof -
  have "(if p then v XOR w else 0) = (if p then v else 0) XOR (if p then w else (0 :: byte))" for p v w by simp
  then show ?thesis by (simp add: gf8_mul_sum xtime_xor ac_simps split del: if_split cong: if_cong)
qed

lemma gf8_mul_0_right [simp]: "gf8_mul a 0 = 0"
  by (simp add: gf8_mul_sum)

lemma inv_mix_column_mix: "mix_column a b c d = [a', b', c', d'] \<Longrightarrow> inv_mix_column a' b' c' d' = [a, b, c, d]"
  by (auto simp: mix_column_def inv_mix_column_def gf8_mul_consts xtime_xor ac_simps)

lemma InvMixColumns_MixColumns: "length b = 16 \<Longrightarrow> InvMixColumns (MixColumns b) = b"
  by (elim list16_cases)
    (simp add: MixColumns_def InvMixColumns_def mix_column_def inv_mix_column_mix [unfolded mix_column_def, OF refl])

lemma inv_mcol_word: "inv_mcol (ui32_of a b c d) = (case inv_mix_column a b c d of [a', b', c', d'] \<Rightarrow> ui32_of a' b' c' d')"
  by (simp add: inv_mcol_def four_tables_def vf1_def rf1_def bval_of table_lookups ui32_of_xor' inv_mix_column_def ac_simps)

lemma inv_mcol_xor: "inv_mcol (v XOR w) = inv_mcol v XOR inv_mcol w"
proof -
  obtain a b c d where v: "v = ui32_of a b c d" using ui32_of_bytes by metis
  obtain e f g h where w: "w = ui32_of e f g h" using ui32_of_bytes by metis
  show ?thesis unfolding v w ui32_of_xor' inv_mcol_word by (simp add: inv_mix_column_def gf8_mul_xor_right ui32_of_xor' ac_simps)
qed

lemma aes_round_inv:
  assumes "length b = 16" "length k = 16"
  shows "aes_round inv_rnd (units (ShiftRows (SubBytes b))) (map inv_mcol (units k) @ r) = units (InvMixColumns (AddRoundKey b k))"
  using assms
  by (elim list16_cases)
    (simp add: units_16 aes_round_def inv_rnd_def four_tables_def inv_var_def rf1_def bval_of table_lookups ui32_of_xor'
      AddRoundKey_def InvMixColumns_def ShiftRows_def SubBytes_def inv_mix_column_def upt_word_bits isbox_sbox [unfolded sbox_eq]
      inv_mcol_word gf8_mul_xor_right ac_simps)

lemma aes_round_inv_last:
  assumes "length b = 16" "length k = 16"
  shows "aes_round inv_lrnd (units (ShiftRows (SubBytes b))) (units k @ r) = units (AddRoundKey b k)"
  using assms
  by (elim list16_cases)
    (simp add: units_16 aes_round_def inv_lrnd_def four_tables_def inv_var_def rf1_def bval_of table_lookups ui32_of_xor'
      AddRoundKey_def ShiftRows_def SubBytes_def upt_word_bits isbox_sbox [unfolded sbox_eq] ac_simps)

lemma AddRoundKey_twice: "length b = 16 \<Longrightarrow> length k = 16 \<Longrightarrow> AddRoundKey (AddRoundKey b k) k = b"
  by (elim list16_cases) (simp add: AddRoundKey_def ac_simps)

end
