(* ===== verification/Aes_Decrypt.thy ===== *)
theory Aes_Decrypt
  imports Aes_Cipher
begin

text \<open>
  The decryption key schedule of \<open>aeskey.c\<close> and the proof that \<open>aes_decrypt\<close> inverts
  \<open>aes_encrypt\<close>. The schedule is stored with the round keys in reverse order and, except
  for the first and the last, already multiplied by the inverse of \<open>MixColumns\<close>. The
  macros do not keep the last round key but four sums of its words, from which the next
  one follows with a single exclusive or; \<open>ss_inv\<close> is that invariant.
\<close>

subsection \<open>The sums the macros keep\<close>

definition ss_inv :: "nat \<Rightarrow> u32 list \<Rightarrow> u32 list \<Rightarrow> bool" where
  "ss_inv i w ss \<longleftrightarrow> length ss = 5 \<and> ss ! ((i + 3) mod 4) = w ! 3 \<and> ss ! (i mod 4) = w ! 0 XOR w ! 1 XOR w ! 2 XOR w ! 3 \<and>
     ss ! ((i + 1) mod 4) = w ! 1 XOR w ! 3 \<and> ss ! ((i + 2) mod 4) = w ! 2 XOR w ! 3"

definition key_words :: "u32 \<Rightarrow> u32 list \<Rightarrow> u32 list" where
  "key_words t w = [w ! 0 XOR t, w ! 1 XOR (w ! 0 XOR t), w ! 2 XOR (w ! 1 XOR (w ! 0 XOR t)),
     w ! 3 XOR (w ! 2 XOR (w ! 1 XOR (w ! 0 XOR t)))]"

lemma mod4_cases:
  obtains q where "i = 4 * q" | q where "i = 4 * q + 1" | q where "i = 4 * q + 2" | q where "i = 4 * q + (3 :: nat)"
proof -
  have "i = 4 * (i div 4) + i mod 4" "i mod 4 < 4" by simp_all
  then have "i = 4 * (i div 4) \<or> i = 4 * (i div 4) + 1 \<or> i = 4 * (i div 4) + 2 \<or> i = 4 * (i div 4) + 3" by linarith
  then show thesis using that by blast
qed

lemma ss_inv_step:
  assumes "ss_inv i w ss"
  shows "ss_inv (Suc i) (key_words t w) (ss[i mod 4 := ss ! (i mod 4) XOR t, 4 := s4])"
proof -
  have "(4 * q + 4) mod 4 = 0" "(4 * q + 5) mod 4 = 1" "(4 * q + 6) mod 4 = 2" for q :: nat
    by presburger+
  with assms show ?thesis
    by (cases i rule: mod4_cases)
      (auto simp: ss_inv_def key_words_def nth_list_update ac_simps mod_Suc)
qed

subsection \<open>One step of the schedule\<close>

lemma v_rev_block: "i \<le> 10 \<Longrightarrow> c < 4 \<Longrightarrow> v_rev 40 (4 * i + c) = 4 * (10 - i) + c"
  by (simp add: v_rev_def)

lemma v_rev_read:
  assumes "i \<le> 9"
  shows "v_rev 40 (4 * i) = 4 * (9 - i) + 4" "v_rev 40 (Suc (4 * i)) = 4 * (9 - i) + 5" "v_rev 40 (4 * i + 2) = 4 * (9 - i) + 6"
    "v_rev 40 (4 * i + 3) = 4 * (9 - i) + 7"
  using assms v_rev_block [of i 0] v_rev_block [of i 1] v_rev_block [of i 2] v_rev_block [of i 3] by simp_all

lemma v_rev_write:
  assumes "i \<le> 9"
  shows "v_rev 40 (4 * i + 4) = 4 * (9 - i)" "v_rev 40 (4 * i + 5) = 4 * (9 - i) + 1" "v_rev 40 (4 * i + 6) = 4 * (9 - i) + 2"
    "v_rev 40 (4 * i + 7) = 4 * (9 - i) + 3"
proof -
  have e: "4 * i + 4 = 4 * Suc i + 0" "4 * i + 5 = 4 * Suc i + 1" "4 * i + 6 = 4 * Suc i + 2" "4 * i + 7 = 4 * Suc i + 3" by simp_all
  show "v_rev 40 (4 * i + 4) = 4 * (9 - i)" "v_rev 40 (4 * i + 5) = 4 * (9 - i) + 1" "v_rev 40 (4 * i + 6) = 4 * (9 - i) + 2"
    "v_rev 40 (4 * i + 7) = 4 * (9 - i) + 3"
    unfolding e using assms by (subst v_rev_block; simp)+
qed

lemma nth_past: "length p = n \<Longrightarrow> (p @ xs) ! (n + m) = xs ! m" "length p = n \<Longrightarrow> (p @ xs) ! n = xs ! 0"
  by (simp_all add: nth_append)

lemma update_past:
  "length p = n \<Longrightarrow> (p @ xs)[n + m := v] = p @ xs[m := v]" "length p = n \<Longrightarrow> (p @ xs)[n := v] = p @ xs[0 := v]"
  by (simp_all add: list_update_append)

lemma kd4_block:
  assumes "i \<le> 9" "length p = 4 * (9 - i)"
  shows "kd4 (p @ x0 # x1 # x2 # x3 # d0 # d1 # d2 # d3 # r, ss) i =
    (let t = ls_box (ss ! ((i + 3) mod 4)) 3 XOR t_rc ! i; e0 = ff t XOR d0; e1 = e0 XOR d1; e2 = e1 XOR d2; e3 = e2 XOR d3
     in (p @ e0 # e1 # e2 # e3 # d0 # d1 # d2 # d3 # r, ss[i mod 4 := ss ! (i mod 4) XOR t, 4 := e3]))"
  by (simp add: kd4_def v_rev_read [OF assms(1)] v_rev_write [OF assms(1)] nth_past [OF assms(2)] update_past [OF assms(2)] Let_def
      update_past(1) [OF assms(2), where m = 1, simplified] del: add_2_eq_Suc')

lemma kdl4_block:
  assumes "length p = 0" "ss_inv 9 w ss" "length w = 4"
  shows "fst (kdl4 (p @ x0 # x1 # x2 # x3 # r, ss) 9) = p @ key_words (ls_box (w ! 3) 3 XOR t_rc ! 9) w @ r"
proof -
  have ss: "length ss = 5" "ss ! 0 = w ! 3" "ss ! 1 = w ! 0 XOR w ! 1 XOR w ! 2 XOR w ! 3" "ss ! 2 = w ! 1 XOR w ! 3" "ss ! 3 = w ! 2 XOR w ! 3"
    using assms(2) by (simp_all add: ss_inv_def)
  then show ?thesis
    using assms(1) v_rev_write [of 9] by (simp add: kdl4_def key_words_def Let_def ac_simps)
qed

lemma kdf4_block:
  assumes "length p = 36" "length w = 4"
  shows "kdf4 (p @ x0 # x1 # x2 # x3 # w @ r, w @ [z]) 0 =
    (let t = ls_box (w ! 3) 3 XOR t_rc ! 0; w' = key_words t w
     in (p @ map ff w' @ w @ r, [w' ! 3, w ! 1 XOR w ! 3, w ! 2 XOR w ! 3, w ! 3, w' ! 3]))"
proof -
  obtain a b c d where w: "w = [a, b, c, d]" using list4_cases assms(2) by metis
  show ?thesis
    using v_rev_read [of 0] v_rev_write [of 0] nth_past [OF assms(1)] update_past [OF assms(1)]
    by (simp add: kdf4_def w key_words_def Let_def nth_append list_update_append assms(1) ac_simps)
qed

subsection \<open>The whole schedule\<close>

definition dec_key :: "block \<Rightarrow> nat \<Rightarrow> u32 list" where
  "dec_key key i = (if i = 0 \<or> i = 10 then units (round_key key i) else map inv_mcol (units (round_key key i)))"

primrec dec_schedule :: "block \<Rightarrow> nat \<Rightarrow> u32 list" where
  "dec_schedule key 0 = dec_key key 0"
| "dec_schedule key (Suc n) = dec_key key (Suc n) @ dec_schedule key n"

lemma dec_key_length [simp]: "length (dec_key key i) = 4"
  by (simp add: dec_key_def)

lemma dec_schedule_length [simp]: "length (dec_schedule key n) = 4 * n + 4"
  by (induction n) simp_all

lemma dec_schedule_split: "\<exists>r. dec_schedule key n = dec_key key n @ r"
  by (cases n) auto

lemma round_key_words:
  assumes "length key = 16" "i < 10"
  shows "units (round_key key (Suc i)) = key_words (ls_box (units (round_key key i) ! 3) 3 XOR t_rc ! i) (units (round_key key i))"
proof -
  obtain a b c d where u: "units (round_key key i) = [a, b, c, d]" using list4_cases units_length by metis
  show ?thesis using key_step [OF _ u] assms by (simp add: u key_words_def rc_entry Let_def)
qed

lemma last_four:
  assumes "n + 4 \<le> length (k :: 'a list)"
  obtains x0 x1 x2 x3 where "take (n + 4) k = take n k @ [x0, x1, x2, x3]"
proof -
  have "length (take 4 (drop n k)) = 4" using assms by simp
  then obtain x0 x1 x2 x3 where "take 4 (drop n k) = [x0, x1, x2, x3]" by (rule list4_cases)
  then show thesis using that by (simp add: take_add)
qed

definition dec_inv :: "block \<Rightarrow> u32 list \<Rightarrow> nat \<Rightarrow> u32 list \<times> u32 list \<Rightarrow> bool" where
  "dec_inv key k0 i kss \<longleftrightarrow> fst kss = take (40 - 4 * i) k0 @ dec_schedule key i \<and> ss_inv i (units (round_key key i)) (snd kss)"

lemma kd4_inv:
  assumes key: "length key = 16" and k0: "length k0 = 44" and i: "0 < i" "i < 9" and inv: "dec_inv key k0 i (k, ss)"
  shows "dec_inv key k0 (Suc i) (kd4 (k, ss) i)"
proof -
  define w where "w = units (round_key key i)"
  define t where "t = ls_box (w ! 3) 3 XOR t_rc ! i"
  have w: "length w = 4" "units (round_key key (Suc i)) = key_words t w"
    using round_key_words [OF key, of i] i by (simp_all add: w_def t_def)
  have ss: "ss_inv i w ss" "ss ! ((i + 3) mod 4) = w ! 3" using inv by (simp_all add: dec_inv_def w_def ss_inv_def)
  have n: "4 * (9 - i) + 4 \<le> length k0" "40 - 4 * i = 4 * (9 - i) + 4" using k0 i by simp_all
  obtain x0 x1 x2 x3 where x: "take (40 - 4 * i) k0 = take (4 * (9 - i)) k0 @ [x0, x1, x2, x3]"
    using last_four [OF n(1)] unfolding n(2) .
  obtain a b c d where abcd: "w = [a, b, c, d]" using list4_cases w(1) by metis
  obtain r where r: "dec_schedule key i = map ff w @ r" using dec_schedule_split [of key i] i by (auto simp: dec_key_def w_def ff_def)
  have k: "k = take (4 * (9 - i)) k0 @ x0 # x1 # x2 # x3 # ff a # ff b # ff c # ff d # r"
    using inv by (simp add: dec_inv_def x r abcd)
  have "kd4 (k, ss) i = (take (4 * (9 - i)) k0 @ map ff (key_words t w) @ dec_schedule key i,
      ss[i mod 4 := ss ! (i mod 4) XOR t, 4 := ff (key_words t w ! 3)])"
    unfolding k using i kd4_block [of i "take (4 * (9 - i)) k0" x0 x1 x2 x3 "ff a" "ff b" "ff c" "ff d" r ss] k0
    by (simp add: r abcd key_words_def Let_def ss(2) t_def ff_def inv_mcol_xor ac_simps)
  moreover have "dec_schedule key (Suc i) = map ff (key_words t w) @ dec_schedule key i"
    using i w(2) by (simp add: dec_key_def ff_def del: round_key.simps)
  ultimately show ?thesis using ss_inv_step [OF ss(1), of t] w(2) i by (simp add: dec_inv_def diff_mult_distrib2 del: round_key.simps)
qed

lemma dec_schedule_last:
  assumes key: "length key = 16" and k0: "length k0 = 44" and inv: "dec_inv key k0 9 kss"
  shows "fst (kdl4 kss 9) = dec_schedule key 10"
proof -
  obtain k ss where kss: "kss = (k, ss)" by (cases kss)
  have "length (take 4 k0) = 4" using k0 by simp
  then obtain x0 x1 x2 x3 where x: "take 4 k0 = [x0, x1, x2, x3]" by (rule list4_cases)
  have ss: "ss_inv 9 (units (round_key key 9)) ss" "k = [x0, x1, x2, x3] @ dec_schedule key 9"
    using inv x by (simp_all add: dec_inv_def kss)
  have "fst (kdl4 kss 9) = units (round_key key (Suc 9)) @ dec_schedule key 9"
    using kdl4_block [of "[]", OF _ ss(1)] round_key_words [OF key, of 9] by (simp add: kss ss(2) del: round_key.simps)
  moreover have "dec_schedule key (Suc 9) = units (round_key key (Suc 9)) @ dec_schedule key 9"
    unfolding dec_schedule.simps dec_key_def by simp
  ultimately show ?thesis by simp
qed

lemma kdf4_inv:
  assumes key: "length key = 16" and k0: "length k0 = 44"
  shows "dec_inv key k0 1 (kdf4 (take 40 k0 @ units key, units key @ [z]) 0)"
proof -
  have "36 + 4 \<le> length k0" using k0 by simp
  then obtain x0 x1 x2 x3 where x: "take (36 + 4) k0 = take 36 k0 @ [x0, x1, x2, x3]" by (rule last_four)
  have w: "units (round_key key (Suc 0)) = key_words (ls_box (units key ! 3) 3 XOR t_rc ! 0) (units key)"
    using round_key_words [OF key, of 0] by simp
  obtain a b c d where abcd: "units key = [a, b, c, d]" using list4_cases units_length by metis
  show ?thesis
    using kdf4_block [of "take 36 k0" "units key" x0 x1 x2 x3 "[]" z] k0 w
    by (simp add: dec_inv_def x [simplified] dec_key_def ff_def Let_def abcd ss_inv_def key_words_def ac_simps del: round_key.simps) (simp add: abcd)
qed

lemma kd4_fold:
  assumes key: "length key = 16" and k0: "length k0 = 44" and inv: "dec_inv key k0 1 kss" and n: "n \<le> 8"
  shows "dec_inv key k0 (Suc n) (foldl kd4 kss [1..<Suc n])"
  using n
proof (induction n)
  case (Suc n)
  obtain k ss where "foldl kd4 kss [1..<Suc n] = (k, ss)" by (cases "foldl kd4 kss [1..<Suc n]")
  then show ?case using Suc kd4_inv [OF key k0, of "Suc n" k ss] by simp
qed (use inv in simp)

lemma aes_decrypt_key128_schedule:
  assumes "length key = 16" "length (ks cx) = 44"
  shows "aes_decrypt_key128 key cx = (0, cx\<lparr>ks := dec_schedule key 10, inf_b := [160, 0, 0, 0]\<rparr>)"
proof -
  have u: "units key = [word_in key 0, word_in key 1, word_in key 2, word_in key 3]" by (simp add: word_in_units units_def)
  have k: "(ks cx)[v_rev 40 0 := word_in key 0, v_rev 40 1 := word_in key 1, v_rev 40 2 := word_in key 2, v_rev 40 3 := word_in key 3] =
      take 40 (ks cx) @ units key"
    using update4 [of "take 40 (ks cx)" 40 "drop 40 (ks cx)"] assms(2) by (simp add: v_rev_def u)
  have "[1..<Suc 8] = [1, 2, 3, 4, 5, 6, 7, 8]" by code_simp
  then have "dec_inv key (ks cx) 9 (foldl kd4 (kdf4 (take 40 (ks cx) @ units key, units key @ [0]) 0) [1, 2, 3, 4, 5, 6, 7, 8])"
    using kd4_fold [OF assms kdf4_inv [OF assms], of 8] by simp
  from dec_schedule_last [OF assms this]
  show ?thesis unfolding aes_decrypt_key128_def by (simp add: Let_def k [simplified] u)
qed

subsection \<open>Decryption inverts encryption\<close>

lemma dec_schedule_drop: "m \<le> n \<Longrightarrow> drop (4 * m) (dec_schedule key n) = dec_schedule key (n - m)"
proof (induction n arbitrary: m)
  case (Suc n)
  then show ?case by (cases m) simp_all
qed simp

definition dec_keyed :: "block \<Rightarrow> aes_ctx \<Rightarrow> bool" where
  "dec_keyed key cx \<longleftrightarrow> length key = 16 \<and> ks cx = dec_schedule key 10 \<and> inf_b cx = [160, 0, 0, 0]"

lemma rnd_key_keyed:
  assumes "dec_keyed key cx" "n \<le> 10"
  shows "rnd_key cx n = dec_schedule key n"
  using assms dec_schedule_drop [of "10 - n" 10 key] by (simp add: rnd_key_def dec_keyed_def N_COLS_def diff_mult_distrib2 mult.commute)

definition before_mix :: "block \<Rightarrow> nat \<Rightarrow> block \<Rightarrow> block" where
  "before_mix key n b = ShiftRows (SubBytes (fips_rounds key n b))"

lemma dec_round:
  assumes "dec_keyed key cx" "length b = 16" "n < 9"
  shows "aes_round inv_rnd (units (before_mix key (Suc n) b)) (rnd_key cx (Suc n)) = units (before_mix key n b)"
proof -
  have key: "length key = 16" using assms(1) by (simp add: dec_keyed_def)
  have "rnd_key cx (Suc n) = map inv_mcol (units (round_key key (Suc n))) @ dec_schedule key n"
    using assms by (simp add: rnd_key_keyed dec_key_def del: round_key.simps)
  moreover have "AddRoundKey (fips_rounds key (Suc n) b) (round_key key (Suc n)) = MixColumns (before_mix key n b)"
    using key assms(2) by (simp add: AddRoundKey_twice before_mix_def)
  ultimately show ?thesis
    using key assms(2) by (simp add: before_mix_def aes_round_inv InvMixColumns_MixColumns del: fips_rounds.simps round_key.simps)
qed

lemma aes_decrypt_keyed:
  assumes cx: "dec_keyed key cx" and b: "length b = 16" and out: "length out = 16"
  shows "aes_decrypt (fips_cipher key b) out cx = Some (0, b)"
proof -
  have k: "length key = 16" "ks cx = dec_schedule key 10" "inf_b cx = [160, 0, 0, 0]" using cx by (simp_all add: dec_keyed_def)
  have "dec_schedule key (Suc 9) = units (round_key key 10) @ dec_schedule key 9"
    unfolding dec_schedule.simps dec_key_def by simp
  then have start: "state_in (fips_cipher key b) (dec_schedule key 10) = units (before_mix key 9 b)"
    using state_in_key [of "fips_cipher key b" "round_key key 10" "dec_schedule key 9"] k(1) b
    by (simp add: fips_cipher_def AddRoundKey_twice before_mix_def)
  have last: "aes_round inv_lrnd (units (before_mix key 0 b)) (rnd_key cx 0) = units b"
    using aes_round_inv_last [of "fips_rounds key 0 b" key "[]"] k(1) b rnd_key_keyed [OF cx, of 0]
    by (simp add: before_mix_def dec_key_def AddRoundKey_twice)
  note r = dec_round [OF cx b]
  show ?thesis
    using r [of 0] r [of 1] r [of 2] r [of 3] r [of 4] r [of 5] r [of 6] r [of 7] r [of 8] out
    by (simp add: aes_decrypt_def k(2,3) N_COLS_def Let_def start last state_out_units b
        del: fips_rounds.simps round_key.simps dec_schedule.simps flip: numeral_2_eq_2)
qed

subsection \<open>Properties\<close>

text \<open>
  C4. Encryption is AES. Expanding a 16-byte key into any context and encrypting a block
  with it returns 0 and writes the block that the cipher of FIPS 197 assigns to key and
  input, whatever the output buffer held; the output buffer may be the input.
\<close>

theorem aes_encrypt_fips:
  assumes "length key = 16" "length (ks cx) = KS_LENGTH" "length b = 16" "length out = 16"
  shows "fst (aes_encrypt_key128 key cx) = 0 \<and> aes_encrypt b out (snd (aes_encrypt_key128 key cx)) = Some (0, fips_cipher key b)"
  using assms by (simp add: aes_encrypt_key128_schedule KS_LENGTH_def aes_encrypt_keyed keyed_def)

theorem aes_encrypt_fips_witness:
  "aes_encrypt (replicate 16 0x11) (replicate 16 0) (snd (aes_encrypt_key128 (replicate 16 0x2b) \<lparr>ks = replicate 44 0, inf_b = [0, 0, 0, 0]\<rparr>)) =
    Some (0, fips_cipher (replicate 16 0x2b) (replicate 16 0x11))"
  using aes_encrypt_fips [of "replicate 16 0x2b" "\<lparr>ks = replicate 44 0, inf_b = [0, 0, 0, 0]\<rparr>" "replicate 16 0x11" "replicate 16 0"]
  by (simp add: KS_LENGTH_def)

text \<open>
  C7. Decryption inverts encryption. With contexts set up from the same key, decrypting an
  encrypted block returns 0 and gives the block back, although the decryption key
  schedule is computed by a different recurrence, stored in reverse and premixed.
\<close>

theorem aes_decrypt_encrypt:
  assumes "length key = 16" "length (ks ce) = KS_LENGTH" "length (ks cd) = KS_LENGTH" "length b = 16" "length out = 16" "length out' = 16"
  shows "\<exists>c. aes_encrypt b out (snd (aes_encrypt_key128 key ce)) = Some (0, c) \<and>
    aes_decrypt c out' (snd (aes_decrypt_key128 key cd)) = Some (0, b)"
  using assms
  by (simp add: aes_encrypt_key128_schedule aes_decrypt_key128_schedule KS_LENGTH_def aes_encrypt_keyed keyed_def aes_decrypt_keyed
      dec_keyed_def)

theorem aes_decrypt_encrypt_witness:
  "\<exists>c. aes_encrypt (replicate 16 0x11) (replicate 16 0) (snd (aes_encrypt_key128 (replicate 16 0x2b) \<lparr>ks = replicate 44 0, inf_b = [0, 0, 0, 0]\<rparr>)) =
      Some (0, c) \<and>
    aes_decrypt c (replicate 16 0) (snd (aes_decrypt_key128 (replicate 16 0x2b) \<lparr>ks = replicate 44 0, inf_b = [0, 0, 0, 0]\<rparr>)) =
      Some (0, replicate 16 0x11)"
  using aes_decrypt_encrypt [of "replicate 16 0x2b" "\<lparr>ks = replicate 44 0, inf_b = [0, 0, 0, 0]\<rparr>" "\<lparr>ks = replicate 44 0, inf_b = [0, 0, 0, 0]\<rparr>"
      "replicate 16 0x11" "replicate 16 0" "replicate 16 0"]
  by (simp add: KS_LENGTH_def)

text \<open>
  Contexts that were not keyed. A context whose round count is none of 10, 12 and 14
  makes both directions return -1 and leave the output alone; a round count of 12 or 14 in
  a context of 44 words, which the check of the code lets through, makes both read past
  the end of the key schedule.
\<close>

lemma aes_unkeyed:
  assumes "length (ks cx) = KS_LENGTH"
  shows "(inf_b cx ! 0 \<notin> {160, 192, 224} \<longrightarrow> aes_encrypt b out cx = Some (-1, out) \<and> aes_decrypt b out cx = Some (-1, out)) \<and>
    (inf_b cx ! 0 \<in> {192, 224} \<longrightarrow> aes_encrypt b out cx = None \<and> aes_decrypt b out cx = None)"
  using assms by (auto simp: aes_encrypt_def aes_decrypt_def KS_LENGTH_def N_COLS_def)

lemma aes_unkeyed_witness:
  "aes_encrypt [1] [2] \<lparr>ks = replicate 44 0, inf_b = [0, 0, 0, 0]\<rparr> = Some (-1, [2]) \<and>
   aes_encrypt [1] [2] \<lparr>ks = replicate 44 0, inf_b = [192, 0, 0, 0]\<rparr> = None"
  using aes_unkeyed [of "\<lparr>ks = replicate 44 0, inf_b = [0, 0, 0, 0]\<rparr>" "[1]" "[2]"]
    aes_unkeyed [of "\<lparr>ks = replicate 44 0, inf_b = [192, 0, 0, 0]\<rparr>" "[1]" "[2]"]
  by (simp add: KS_LENGTH_def)

end
