(* ===== verification/Aes_Options.thy ===== *)
theory Aes_Options
  imports Aes_Cipher
begin

text \<open>
  The options of \<open>aesopt.h\<close> that the target does not select. The rounds can use four
  tables, one table or none, and the tables can be compiled in or built at run time by the
  \<open>aes_init\<close> of \<open>aestab.c\<close>, here with logarithm tables (\<open>FF_TABLES\<close>). The lemmas show that
  every choice computes the same: the comment of \<open>aescrypt.c\<close> says so of the macros.
\<close>

subsection \<open>Building the tables\<close>

partial_function (option) ff_loop :: "nat \<Rightarrow> u32 \<Rightarrow> byte list \<Rightarrow> byte list \<Rightarrow> (byte list \<times> byte list) option" where
  "ff_loop i w pow log = do {
     pow \<leftarrow> buf_write pow i (ucast w);
     pow \<leftarrow> buf_write pow (i + 255) (ucast w);
     log \<leftarrow> buf_write log (unat w) (word_of_nat i);
     let w = w XOR (push_bit 1 w XOR (if w AND 0x80 \<noteq> 0 then WPOLY else 0));
     if w \<noteq> 1 then ff_loop (i + 1) w pow log else Some (pow, log) }"

definition ff_mul :: "byte list \<Rightarrow> byte list \<Rightarrow> nat \<Rightarrow> u32 \<Rightarrow> u32" where
  "ff_mul pow log n x = (if x \<noteq> 0 then ucast (pow ! (unat (log ! unat x) + n)) else 0)"

definition gf_inv :: "byte list \<Rightarrow> byte list \<Rightarrow> byte \<Rightarrow> byte" where
  "gf_inv pow log x = (if x \<noteq> 0 then pow ! (255 - unat (log ! unat x)) else 0)"

definition fwd_affine :: "byte \<Rightarrow> byte" where
  "fwd_affine x = (let w = ucast x :: u32; w = w XOR (push_bit 1 w XOR push_bit 2 w XOR push_bit 3 w XOR push_bit 4 w)
     in 0x63 XOR ucast ((w XOR drop_bit 8 w) AND 0xff))"

definition inv_affine :: "byte \<Rightarrow> byte" where
  "inv_affine x = (let w = ucast x :: u32; w = push_bit 1 w XOR push_bit 3 w XOR push_bit 6 w
     in 0x05 XOR ucast ((w XOR drop_bit 8 w) AND 0xff))"

record aes_tabs =
  init :: int
  d_rc :: "u32 list"
  d_fn :: "u32 list list"
  d_fl :: "u32 list list"
  d_im :: "u32 list list"
  d_in :: "u32 list list"
  d_il :: "u32 list list"

definition set4 :: "u32 list list \<Rightarrow> nat \<Rightarrow> u32 \<Rightarrow> u32 list list" where
  "set4 t i w = [(t ! 0)[i := w], (t ! 1)[i := upr w 1], (t ! 2)[i := upr w 2], (t ! 3)[i := upr w 3]]"

definition init_rc :: "byte list \<Rightarrow> byte list \<Rightarrow> u32 list \<times> u32 \<Rightarrow> nat \<Rightarrow> u32 list \<times> u32" where
  "init_rc pow log tw i = (case tw of (t, w) \<Rightarrow> (t[i := bytes2word w 0 0 0], ff_mul pow log 0x19 w))"

definition init_entry :: "byte list \<Rightarrow> byte list \<Rightarrow> aes_tabs \<Rightarrow> nat \<Rightarrow> aes_tabs" where
  "init_entry pow log T i =
    (let b = fwd_affine (gf_inv pow log (word_of_nat i));
         w = bytes2word (ff_mul pow log 0x19 (ucast b)) (ucast b) (ucast b) (ff_mul pow log 0x01 (ucast b));
         T = T\<lparr>d_fn := set4 (d_fn T) i w\<rparr>;
         w = bytes2word (ucast b) 0 0 0;
         T = T\<lparr>d_fl := set4 (d_fl T) i w\<rparr>;
         b = gf_inv pow log (inv_affine (word_of_nat i));
         w = bytes2word (ff_mul pow log 0xdf (ucast b)) (ff_mul pow log 0xc7 (ucast b)) (ff_mul pow log 0xee (ucast b))
           (ff_mul pow log 0x68 (ucast b));
         T = T\<lparr>d_im := set4 (d_im T) (unat b) w\<rparr>;
         T = T\<lparr>d_in := set4 (d_in T) i w\<rparr>;
         w = bytes2word (ucast b) 0 0 0
     in T\<lparr>d_il := set4 (d_il T) i w\<rparr>)"

text \<open>The two local arrays are arguments, as they hold anything when the function is entered.\<close>

definition aes_init :: "byte list \<Rightarrow> byte list \<Rightarrow> aes_tabs \<Rightarrow> (int \<times> aes_tabs) option" where
  "aes_init pow log T =
    (if init T \<noteq> 0 then Some (0, T) else do {
       (pow, log) \<leftarrow> ff_loop 0 1 pow log;
       let T = T\<lparr>d_rc := fst (foldl (init_rc pow log) (d_rc T, 1) [0..<RC_LENGTH])\<rparr>;
       let T = foldl (init_entry pow log) T [0..<256];
       Some (0, T\<lparr>init := 1\<rparr>) })"

subsection \<open>Rounds with fewer tables\<close>

lemma upr_of:
  "upr (ui32_of a b c d) 1 = ui32_of d a b c" "upr (ui32_of a b c d) (Suc 0) = ui32_of d a b c"
  "upr (ui32_of a b c d) 2 = ui32_of c d a b" "upr (ui32_of a b c d) 3 = ui32_of b c d a"
  by (rule word_bits_eqI, simp add: upr_def bit_simps bit_ui32_of upt_word_bits bit_beyond)+

lemma ups_of:
  "ups (ui32_of a 0 0 0) 1 = ui32_of 0 a 0 0" "ups (ui32_of a 0 0 0) (Suc 0) = ui32_of 0 a 0 0"
  "ups (ui32_of a 0 0 0) 2 = ui32_of 0 0 a 0" "ups (ui32_of a 0 0 0) 3 = ui32_of 0 0 0 a"
  by (rule word_bits_eqI, simp add: ups_def bit_simps bit_ui32_of upt_word_bits bit_beyond)+

lemma gf_mulx_of: "gf_mulx (ui32_of a b c d) = ui32_of (xtime a) (xtime b) (xtime c) (xtime d)"
proof -
  have m: "drop_bit 7 (ui32_of a b c d AND gf_c1) =
    (if bit a 7 then 1 else 0) OR (if bit b 7 then 0x100 else 0) OR (if bit c 7 then 0x10000 else 0) OR (if bit d 7 then 0x1000000 else 0)"
    by (rule word_bits_eqI) (simp add: gf_c1_def bit_simps bit_ui32_of bit_if if_bool_eq_conj upt_word_bits bit_beyond split del: if_split)
  have "drop_bit 7 (ui32_of a b c d AND gf_c1) * BPOLY = ui32_of (if bit a 7 then 0x1b else 0) (if bit b 7 then 0x1b else 0)
    (if bit c 7 then 0x1b else 0) (if bit d 7 then 0x1b else 0)"
    unfolding m by (simp add: BPOLY_def ui32_of_def)
  moreover have "push_bit 1 (ui32_of a b c d AND gf_c2) = ui32_of (push_bit 1 a) (push_bit 1 b) (push_bit 1 c) (push_bit 1 d)"
    by (rule word_bits_eqI) (simp add: gf_c2_def bit_simps bit_ui32_of bit_times_2 upt_word_bits bit_beyond)
  ultimately show ?thesis by (simp add: gf_mulx_def ui32_of_xor' xtime_def)
qed

lemma bval_byte: "\<exists>e :: byte. bval w n = ucast e"
proof
  show "bval w n = ucast (ucast (drop_bit (8 * n) w) :: byte)"
    by (rule word_bits_eqI) (simp add: bval_def to_byte_def bit_simps upt_word_bits)
qed

lemma four_tables_options:
  "four_tables x t_fn vf rf c = one_table x upr (sb_data u0) vf rf c"
  "four_tables x t_fn vf rf c = fwd_mcol (no_table x (sb_data h0) vf rf c)"
  "four_tables x t_fl vf rf c = one_table x ups (sb_data w0) vf rf c"
  "four_tables x t_fl vf rf c = one_table x upr (sb_data w0) vf rf c"
  "four_tables x t_fl vf rf c = no_table x (sb_data h0) vf rf c"
  "four_tables x t_in vf rf c = one_table x upr (isb_data v0) vf rf c"
  "four_tables x t_in vf rf c = inv_mcol (no_table x (isb_data h0) vf rf c)"
  "four_tables x t_il vf rf c = one_table x ups (isb_data w0) vf rf c"
  "four_tables x t_il vf rf c = no_table x (isb_data h0) vf rf c"
proof -
  obtain e0 e1 e2 e3 :: byte where e: "bval (vf x 0 c) (rf 0 c) = ucast e0" "bval (vf x 1 c) (rf 1 c) = ucast e1"
    "bval (vf x 2 c) (rf 2 c) = ucast e2" "bval (vf x 3 c) (rf 3 c) = ucast e3" using bval_byte by metis
  note defs = four_tables_def one_table_def no_table_def e e [unfolded One_nat_def] table_lookups h0_def bytes2word_of upr_of ups_of
    ui32_of_xor'
  show "four_tables x t_fn vf rf c = one_table x upr (sb_data u0) vf rf c" by (simp add: defs)
  show "four_tables x t_fn vf rf c = fwd_mcol (no_table x (sb_data h0) vf rf c)"
    by (simp add: defs fwd_mcol_def gf_mulx_of Let_def gf8_mul_consts ac_simps)
  show "four_tables x t_fl vf rf c = one_table x ups (sb_data w0) vf rf c" by (simp add: defs)
  show "four_tables x t_fl vf rf c = one_table x upr (sb_data w0) vf rf c" by (simp add: defs)
  show "four_tables x t_fl vf rf c = no_table x (sb_data h0) vf rf c" by (simp add: defs)
  show "four_tables x t_in vf rf c = one_table x upr (isb_data v0) vf rf c" by (simp add: defs)
  show "four_tables x t_in vf rf c = inv_mcol (no_table x (isb_data h0) vf rf c)"
    by (simp add: defs inv_mcol_word inv_mix_column_def ac_simps)
  show "four_tables x t_il vf rf c = one_table x ups (isb_data w0) vf rf c" by (simp add: defs)
  show "four_tables x t_il vf rf c = no_table x (isb_data h0) vf rf c" by (simp add: defs)
qed

lemma inv_mcol_options: "inv_mcol x = one_table x upr (mm_data v0) vf1 rf1 0" "inv_mcol x = inv_mcol_calc x"
proof -
  obtain a b c d where x: "x = ui32_of a b c d" using ui32_of_bytes by metis
  show "inv_mcol x = one_table x upr (mm_data v0) vf1 rf1 0"
    by (simp add: x inv_mcol_def four_tables_def one_table_def vf1_def rf1_def bval_of table_lookups upr_of)
  show "inv_mcol x = inv_mcol_calc x"
    by (simp add: x inv_mcol_word inv_mix_column_def inv_mcol_calc_def gf_mulx_of upr_of ui32_of_xor' Let_def gf8_mul_consts xtime_xor
        ac_simps)
qed

subsection \<open>The logarithm tables\<close>

lemma ff_step: "ucast e XOR (push_bit 1 (ucast e) XOR (if (ucast e :: u32) AND 0x80 \<noteq> 0 then WPOLY else 0)) = (ucast (tri e) :: u32)"
proof -
  have "(ucast e AND 0x80 = (0 :: u32)) \<longleftrightarrow> \<not> bit e 7"
    using and_exp_eq_0_iff_not_bit [of "ucast e :: u32" 7] by (simp add: bit_simps)
  then show ?thesis
    by (intro word_bits_eqI) (simp add: tri_def bit_xtime WPOLY_def bit_simps bit_times_2 bit_if if_bool_eq_conj upt_word_bits bit_beyond
      split del: if_split, auto)
qed

definition pow_fill :: "byte list \<Rightarrow> nat \<Rightarrow> byte list" where
  "pow_fill p n = foldl (\<lambda>p i. p[i := exp_table ! i, i + 255 := exp_table ! i]) p [0..<n]"

definition log_fill :: "byte list \<Rightarrow> nat \<Rightarrow> byte list" where
  "log_fill l n = foldl (\<lambda>l i. l[unat (exp_table ! i) := word_of_nat i]) l [0..<n]"

lemma pow_fill_length [simp]: "length (pow_fill p n) = length p"
  by (induction n) (simp_all add: pow_fill_def)

lemma log_fill_length [simp]: "length (log_fill l n) = length l"
  by (simp add: log_fill_def)

lemma fill_Suc:
  "pow_fill p (Suc n) = (pow_fill p n)[n := exp_table ! n, n + 255 := exp_table ! n]"
  "log_fill l (Suc n) = (log_fill l n)[unat (exp_table ! n) := word_of_nat n]"
  by (simp_all add: pow_fill_def log_fill_def)

lemma fill_step:
  assumes "length p = 512" "length l = 256" "n < 255"
  shows "ff_loop n (ucast (exp_table ! n)) (pow_fill p n) (log_fill l n) =
    (let w = ucast (tri (exp_table ! n)) in
     if w \<noteq> 1 then ff_loop (n + 1) w (pow_fill p (Suc n)) (log_fill l (Suc n)) else Some (pow_fill p (Suc n), log_fill l (Suc n)))"
  unfolding ff_loop.simps [of n "ucast (exp_table ! n)"] ff_step
  using assms unat_byte_less [of "exp_table ! n"] by (simp add: fill_Suc Let_def)

lemma exp_not_1: "0 < k \<Longrightarrow> k < 255 \<Longrightarrow> exp_table ! k \<noteq> 1"
  using log_exp [of k] log_exp [of 0] by (auto simp: exp_table_def)

lemma ff_loop_from:
  assumes "length p = 512" "length l = 256"
  shows "k + m = 254 \<Longrightarrow> ff_loop k (ucast (exp_table ! k)) (pow_fill p k) (log_fill l k) = Some (pow_fill p (Suc 254), log_fill l (Suc 254))"
proof (induction m arbitrary: k)
  case 0
  then have k: "k = 254" by simp
  have t: "(ucast (tri (exp_table ! 254)) :: u32) = 1" by (simp add: exp_table_def tri_def xtime_def)
  show ?case unfolding k fill_step [OF assms, of 254, simplified] Let_def t by simp
next
  case (Suc m)
  have t: "exp_table ! Suc k = tri (exp_table ! k)" using Suc.prems by (simp add: exp_table_tri)
  have "exp_table ! Suc k \<noteq> 1" using exp_not_1 [of "Suc k"] Suc.prems by simp
  then have "(ucast (exp_table ! Suc k) :: u32) \<noteq> ucast (1 :: byte)" by (metis ucast_ucast_byte)
  then show ?case
    using Suc.IH [of "Suc k"] Suc.prems fill_step [OF assms, of k] by (simp add: t Let_def)
qed

lemma pow_fill_nth: "length p = 512 \<Longrightarrow> n \<le> 255 \<Longrightarrow> j < n \<Longrightarrow> pow_fill p n ! j = exp_table ! j \<and> pow_fill p n ! (j + 255) = exp_table ! j"
proof (induction n)
  case (Suc n)
  then show ?case by (cases "j = n") (simp_all add: fill_Suc nth_list_update_neq)
qed simp

definition ff_tables :: "byte list \<Rightarrow> byte list \<Rightarrow> bool" where
  "ff_tables pow log \<longleftrightarrow> (\<forall>j<510. pow ! j = (tri ^^ j) 1) \<and> (\<forall>k<255. log ! unat (exp_table ! k) = word_of_nat k)"

lemma ff_start: "length p = 512 \<Longrightarrow> length l = 256 \<Longrightarrow> ff_loop 0 1 p l = Some (pow_fill p (Suc 254), log_fill l (Suc 254))"
proof -
  assume a: "length p = 512" "length l = 256"
  have start: "pow_fill p 0 = p" "log_fill l 0 = l" "exp_table ! 0 = 1" by (simp_all add: pow_fill_def log_fill_def exp_table_def)
  show ?thesis using ff_loop_from [OF a, of 0 254] unfolding start by simp
qed

lemma pow_fill_tri:
  assumes "length p = 512" "j < 510"
  shows "pow_fill p (Suc 254) ! j = (tri ^^ j) 1"
proof (cases "j < 255")
  case True
  then show ?thesis using pow_fill_nth [OF assms(1), of "Suc 254" j] exp_table_tri [of j] by simp
next
  case False
  then have j: "j - 255 < 255" "j - 255 + 255 = j" "255 * 1 + (j - 255) = j" using assms(2) by simp_all
  then show ?thesis
    using pow_fill_nth [OF assms(1), of "Suc 254" "j - 255"] tri_period [of 1 "j - 255"] exp_table_tri [of "j - 255"] unfolding j by simp
qed

lemma exp_inj: "inj_on (\<lambda>i. unat (exp_table ! i)) {0..<255}"
proof (rule inj_onI)
  fix x y assume "x \<in> {0..<255}" "y \<in> {0..<255}" and e: "unat (exp_table ! x) = unat (exp_table ! y)"
  then have "logarithm (exp_table ! x) = x" "logarithm (exp_table ! y) = y" by (simp_all add: log_exp)
  then show "x = y" using e by (simp add: logarithm_def)
qed

lemma log_fill_exp:
  assumes "length l = 256" "k < 255"
  shows "log_fill l (Suc 254) ! unat (exp_table ! k) = word_of_nat k"
  unfolding log_fill_def
proof (rule foldl_update_at [where g = "\<lambda>i. unat (exp_table ! i)"])
  show "inj_on (\<lambda>i. unat (exp_table ! i)) (set [0..<Suc 254])" using exp_inj unfolding set_upt by simp
  show "k \<in> set [0..<Suc 254]" using assms(2) unfolding set_upt by simp
  show "unat (exp_table ! k) < length l" using assms(1) unat_byte_less by simp
qed

lemma ff_loop_tables:
  assumes "length p = 512" "length l = 256"
  shows "\<exists>pow log. ff_loop 0 1 p l = Some (pow, log) \<and> ff_tables pow log"
  unfolding ff_tables_def using ff_start [OF assms] pow_fill_tri [OF assms(1)] log_fill_exp [OF assms(2)] by blast

lemma ff_log:
  assumes "ff_tables pow log" "x \<noteq> 0"
  obtains k where "k < 255" "x = exp_table ! k" "unat (log ! unat x) = k"
proof -
  define k where "k = log_table ! unat x"
  have k: "k < 255" "x = exp_table ! k" using exp_log [OF assms(2)] by (simp_all add: k_def)
  then have "unat (log ! unat x) = k" using assms(1) by (simp add: ff_tables_def unat_of_nat)
  with k show thesis using that by blast
qed

lemma ff_mul_eq:
  assumes "ff_tables pow log" "n < 255"
  shows "ff_mul pow log n (ucast b) = ucast (gf8_mul (exp_table ! n) b)"
proof (cases "b = 0")
  case True
  then show ?thesis by (simp add: ff_mul_def)
next
  case False
  have ne: "(ucast b :: u32) \<noteq> 0" using False ucast_ucast_byte [of b] by (metis ucast_0)
  obtain k where k: "k < 255" "b = exp_table ! k" "unat (log ! unat b) = k" using ff_log [OF assms(1) False] .
  have "pow ! (k + n) = (tri ^^ n) ((tri ^^ k) 1)"
    using assms k(1) by (simp add: ff_tables_def funpow_add [symmetric, THEN fun_cong, unfolded o_apply] add.commute)
  also have "\<dots> = gf8_mul (exp_table ! n) b" using k(1,2) assms(2) by (simp add: exp_table_tri gf8_mul_tri_pow)
  finally show ?thesis using ne k(3) by (simp add: ff_mul_def)
qed

lemma gf_inv_eq:
  assumes "ff_tables pow log"
  shows "gf_inv pow log x = gf8_inv x"
proof (cases "x = 0")
  case False
  obtain k where k: "k < 255" "x = exp_table ! k" "unat (log ! unat x) = k" using ff_log [OF assms False] .
  then show ?thesis using assms False gf8_inv_exp [of k] exp_table_tri [of "255 - k"] by (simp add: gf_inv_def ff_tables_def)
qed (simp add: gf_inv_def)

lemma fwd_affine_eq: "fwd_affine x = fips_affine x"
  by (rule word_bits_eqI, simp add: fwd_affine_def fips_affine_def rotl8_def Let_def bit_simps upt_word_bits bit_times_2 bit_beyond
      flip: numeral_2_eq_2 numeral_3_eq_3, cases "bit x 0"; cases "bit x 1"; cases "bit x 2"; cases "bit x 3"; cases "bit x 4"; cases "bit x 5"; cases "bit x 6"; cases "bit x 7"; simp)

lemma inv_affine_eq: "fips_affine (inv_affine x) = x"
  by (rule word_bits_eqI, simp add: inv_affine_def fips_affine_def rotl8_def Let_def bit_simps upt_word_bits bit_times_2 bit_beyond
      flip: numeral_2_eq_2 numeral_3_eq_3, cases "bit x 0"; cases "bit x 1"; cases "bit x 2"; cases "bit x 3"; cases "bit x 4"; cases "bit x 5"; cases "bit x 6"; cases "bit x 7"; simp)

lemma isbox_inverse: "isbox x = gf8_inv (inv_affine x)"
  using isbox_sbox [of "gf8_inv (inv_affine x)"] by (simp add: sbox_eq fips_sbox_def gf8_inv_inv inv_affine_eq)

subsection \<open>The tables it builds\<close>

definition shaped :: "u32 list list \<Rightarrow> bool" where
  "shaped t \<longleftrightarrow> length t = 4 \<and> (\<forall>r<4. length (t ! r) = 256)"

lemma set4_nth: "r < 4 \<Longrightarrow> set4 t i w ! r = (t ! r)[i := (if r = 0 then w else upr w r)]"
proof -
  assume "r < 4"
  then have "r = 0 \<or> r = 1 \<or> r = 2 \<or> r = 3" by linarith
  then show ?thesis by (elim disjE) (simp_all add: set4_def)
qed

lemma set4_length [simp]: "length (set4 t i w) = 4"
  by (simp add: set4_def)

lemma set4_fold:
  assumes t: "shaped t" and g: "inj_on g (set js)"
  shows "shaped (foldl (\<lambda>t i. set4 t (g i) (W i)) t js) \<and>
    (\<forall>i\<in>set js. g i < 256 \<longrightarrow> (\<forall>r<4. foldl (\<lambda>t i. set4 t (g i) (W i)) t js ! r ! g i = (if r = 0 then W i else upr (W i) r)))"
  using g
proof (induction js rule: rev_induct)
  case Nil
  then show ?case using t by simp
next
  case (snoc j js)
  define u where "u = foldl (\<lambda>t i. set4 t (g i) (W i)) t js"
  have u: "shaped u" "\<And>i r. i \<in> set js \<Longrightarrow> g i < 256 \<Longrightarrow> r < 4 \<Longrightarrow> u ! r ! g i = (if r = 0 then W i else upr (W i) r)"
    using snoc by (auto simp: u_def inj_on_def)
  have s: "shaped (set4 u (g j) (W j))" using u(1) by (simp add: shaped_def set4_nth)
  have "set4 u (g j) (W j) ! r ! g i = (if r = 0 then W i else upr (W i) r)" if i: "i \<in> set (js @ [j])" "g i < 256" "r < 4" for i r
  proof (cases "g i = g j")
    case True
    then have "i = j" using snoc.prems i(1) by (auto simp: inj_on_def)
    then show ?thesis using i u(1) by (simp add: set4_nth shaped_def)
  next
    case False
    then have "set4 u (g j) (W j) ! r ! g i = u ! r ! g i"
      using i(3) by (simp add: set4_nth)
    with False i show ?thesis using u(2) [of i r] by auto
  qed
  with s show ?case by (simp add: u_def [symmetric])
qed

lemma set4_table:
  assumes "shaped t" "bij_betw g {0..<256} {0..<256}" "length T = 4"
    "\<And>r i. r < 4 \<Longrightarrow> i < 256 \<Longrightarrow> length (T ! r) = 256 \<and> T ! r ! g i = (if r = 0 then W i else upr (W i) r)"
  shows "foldl (\<lambda>t i. set4 t (g i) (W i)) t [0..<256] = T"
proof -
  define u where "u = foldl (\<lambda>t i. set4 t (g i) (W i)) t [0..<256]"
  have range: "g i < 256" if "i < 256" for i using assms(2) that by (auto simp: bij_betw_def)
  have u: "shaped u" "\<And>i r. i < 256 \<Longrightarrow> r < 4 \<Longrightarrow> u ! r ! g i = (if r = 0 then W i else upr (W i) r)"
    using set4_fold [OF assms(1), of g "[0..<256]" W] assms(2) range unfolding u_def by (simp_all add: bij_betw_def)
  have "u ! r = T ! r" if r: "r < 4" for r
  proof (rule nth_equalityI)
    show "length (u ! r) = length (T ! r)" using u(1) assms(4) [of r 0] r by (simp add: shaped_def)
  next
    fix c assume "c < length (u ! r)"
    then have "c \<in> g ` {0..<256}" using u(1) assms(2) r by (simp add: shaped_def bij_betw_def)
    then show "u ! r ! c = T ! r ! c" using u(2) assms(4) r by auto
  qed
  then show ?thesis unfolding u_def [symmetric] using u(1) assms(3) by (intro nth_equalityI) (simp_all add: shaped_def)
qed

lemma exp_values:
  "exp_table ! 0x19 = 2" "exp_table ! 1 = 3" "exp_table ! 0xdf = 0xe" "exp_table ! 0xc7 = 9" "exp_table ! 0xee = 0xd" "exp_table ! 0x68 = 0xb"
  by (simp_all add: exp_table_def)

lemma init_entry_eq:
  assumes "ff_tables pow log"
  shows "init_entry pow log T i = T\<lparr>d_fn := set4 (d_fn T) i (u0 (ucast (sbox (word_of_nat i)))),
    d_fl := set4 (d_fl T) i (w0 (ucast (sbox (word_of_nat i)))),
    d_im := set4 (d_im T) (unat (isbox (word_of_nat i))) (v0 (ucast (isbox (word_of_nat i)))),
    d_in := set4 (d_in T) i (v0 (ucast (isbox (word_of_nat i)))),
    d_il := set4 (d_il T) i (w0 (ucast (isbox (word_of_nat i))))\<rparr>"
proof -
  have b: "fwd_affine (gf_inv pow log x) = sbox x" "gf_inv pow log (inv_affine x) = isbox x" for x
    by (simp_all add: fwd_affine_eq gf_inv_eq [OF assms] sbox_eq fips_sbox_def isbox_inverse)
  have m: "ff_mul pow log 0x19 (ucast x) = ucast (gf8_mul 2 x)" "ff_mul pow log 0x01 (ucast x) = ucast (gf8_mul 3 x)"
    "ff_mul pow log 0xdf (ucast x) = ucast (gf8_mul 0xe x)" "ff_mul pow log 0xc7 (ucast x) = ucast (gf8_mul 9 x)"
    "ff_mul pow log 0xee (ucast x) = ucast (gf8_mul 0xd x)" "ff_mul pow log 0x68 (ucast x) = ucast (gf8_mul 0xb x)" for x :: byte
    using ff_mul_eq [OF assms] exp_values by simp_all
  show ?thesis unfolding init_entry_def b m bytes2word_of bytes2word_of_zero mix_words inv_mix_words last_words Let_def by simp
qed

lemma init_fold:
  assumes "ff_tables pow log"
  shows "foldl (init_entry pow log) T js = T\<lparr>
    d_fn := foldl (\<lambda>t i. set4 t i (u0 (ucast (sbox (word_of_nat i))))) (d_fn T) js,
    d_fl := foldl (\<lambda>t i. set4 t i (w0 (ucast (sbox (word_of_nat i))))) (d_fl T) js,
    d_im := foldl (\<lambda>t i. set4 t (unat (isbox (word_of_nat i))) (v0 (ucast (isbox (word_of_nat i))))) (d_im T) js,
    d_in := foldl (\<lambda>t i. set4 t i (v0 (ucast (isbox (word_of_nat i))))) (d_in T) js,
    d_il := foldl (\<lambda>t i. set4 t i (w0 (ucast (isbox (word_of_nat i))))) (d_il T) js\<rparr>"
  by (induction js arbitrary: T) (simp_all add: init_entry_eq [OF assms])

lemma unat_word_of_nat_byte: "i < 256 \<Longrightarrow> unat (word_of_nat i :: byte) = i"
  by (simp add: unat_of_nat)

lemma sb_nth: "i < 256 \<Longrightarrow> sb_data w ! i = w (ucast (sbox (word_of_nat i)))" "i < 256 \<Longrightarrow> isb_data w ! i = w (ucast (isbox (word_of_nat i)))"
  using sb_entry [of w "word_of_nat i"] isb_entry [of w "word_of_nat i"] by (simp_all add: unat_word_of_nat_byte)

lemma sbox_isbox: "sbox (isbox x) = x"
  by (simp add: isbox_inverse sbox_eq fips_sbox_def gf8_inv_inv inv_affine_eq)

lemma isbox_bij: "bij_betw (\<lambda>i. unat (isbox (word_of_nat i))) {0..<256} {0..<256}"
proof (rule bij_betw_byWitness [where f' = "\<lambda>i. unat (sbox (word_of_nat i))"])
qed (auto simp: sbox_isbox isbox_sbox unat_word_of_nat_byte unat_byte_less)

text \<open>The rows of the fixed tables are the first row with its bytes rotated.\<close>

lemma row_cases: "r < 4 \<Longrightarrow> (r = 0 \<Longrightarrow> P) \<Longrightarrow> (r = 1 \<Longrightarrow> P) \<Longrightarrow> (r = 2 \<Longrightarrow> P) \<Longrightarrow> (r = (3 :: nat) \<Longrightarrow> P) \<Longrightarrow> P"
  by linarith

lemma fixed_rows:
  assumes "r < 4" "i < 256"
  shows "length (t_fn ! r) = 256 \<and> t_fn ! r ! i = (if r = 0 then u0 (ucast (sbox (word_of_nat i))) else upr (u0 (ucast (sbox (word_of_nat i)))) r)"
    "length (t_fl ! r) = 256 \<and> t_fl ! r ! i = (if r = 0 then w0 (ucast (sbox (word_of_nat i))) else upr (w0 (ucast (sbox (word_of_nat i)))) r)"
    "length (t_in ! r) = 256 \<and> t_in ! r ! i = (if r = 0 then v0 (ucast (isbox (word_of_nat i))) else upr (v0 (ucast (isbox (word_of_nat i)))) r)"
    "length (t_il ! r) = 256 \<and> t_il ! r ! i = (if r = 0 then w0 (ucast (isbox (word_of_nat i))) else upr (w0 (ucast (isbox (word_of_nat i)))) r)"
  using assms(1)
  by (rule row_cases; simp add: t_fn_def t_fl_def t_in_def t_il_def sb_data_map(2) isb_data_map(2) sb_nth [OF assms(2)] mix_words inv_mix_words
      last_words upr_of)+

lemma fixed_rows_im:
  assumes "r < 4"
  shows "length (t_im ! r) = 256 \<and> t_im ! r ! unat x = (if r = 0 then v0 (ucast (x :: byte)) else upr (v0 (ucast x)) r)"
  using assms by (rule row_cases; simp add: t_im_def mm_entry inv_mix_words upr_of; simp add: mm_data_def)

lemma init_rc_fold:
  assumes "ff_tables pow log"
  shows "foldl (init_rc pow log) (t, 1) [0..<n] = (foldl (\<lambda>t i. t[i := ui32_of ((xtime ^^ i) 1) 0 0 0]) t [0..<n], ucast ((xtime ^^ n) 1))"
proof (induction n)
  case (Suc n)
  have "ff_mul pow log 0x19 (ucast x) = ucast (xtime x)" for x :: byte
    using ff_mul_eq [OF assms, of 25 x] exp_values(1) by (simp add: gf8_mul_consts)
  then show ?case using Suc by (simp add: init_rc_def bytes2word_of_zero)
qed simp

lemma init_rc_table:
  assumes "ff_tables pow log" "length t = RC_LENGTH"
  shows "fst (foldl (init_rc pow log) (t, 1) [0..<RC_LENGTH]) = t_rc"
proof (rule nth_equalityI)
  show "length (fst (foldl (init_rc pow log) (t, 1) [0..<RC_LENGTH])) = length t_rc"
    using assms(2) by (simp add: init_rc_fold [OF assms(1)] t_rc_def rc_data_def RC_LENGTH_def AES_BLOCK_SIZE_def)
next
  fix i assume "i < length (fst (foldl (init_rc pow log) (t, 1) [0..<RC_LENGTH]))"
  then have i: "i < RC_LENGTH" "i < 10" using assms(2) by (simp_all add: init_rc_fold [OF assms(1)] RC_LENGTH_def AES_BLOCK_SIZE_def)
  then show "fst (foldl (init_rc pow log) (t, 1) [0..<RC_LENGTH]) ! i = t_rc ! i"
    using assms(2) by (simp add: init_rc_fold [OF assms(1)] foldl_update_nth rc_entry)
qed

lemma init_tables:
  assumes "ff_tables pow log" "shaped (d_fn T)" "shaped (d_fl T)" "shaped (d_im T)" "shaped (d_in T)" "shaped (d_il T)"
  shows "foldl (init_entry pow log) T [0..<256] = T\<lparr>d_fn := t_fn, d_fl := t_fl, d_im := t_im, d_in := t_in, d_il := t_il\<rparr>"
proof -
  have id: "bij_betw (\<lambda>i. i) {0..<256} {0..<256 :: nat}" by (simp add: bij_betw_def)
  have len: "length t_fn = 4" "length t_fl = 4" "length t_im = 4" "length t_in = 4" "length t_il = 4"
    by (simp_all add: t_fn_def t_fl_def t_im_def t_in_def t_il_def)
  note table = set4_table [of _ "\<lambda>i. i", OF _ id]
  have "foldl (\<lambda>t i. set4 t i (u0 (ucast (sbox (word_of_nat i))))) (d_fn T) [0..<256] = t_fn"
    by (rule table) (simp_all only: assms len fixed_rows)
  moreover have "foldl (\<lambda>t i. set4 t i (w0 (ucast (sbox (word_of_nat i))))) (d_fl T) [0..<256] = t_fl"
    by (rule table) (simp_all only: assms len fixed_rows)
  moreover have "foldl (\<lambda>t i. set4 t (unat (isbox (word_of_nat i))) (v0 (ucast (isbox (word_of_nat i))))) (d_im T) [0..<256] = t_im"
    by (rule set4_table [OF _ isbox_bij]) (simp_all only: assms len fixed_rows_im)
  moreover have "foldl (\<lambda>t i. set4 t i (v0 (ucast (isbox (word_of_nat i))))) (d_in T) [0..<256] = t_in"
    by (rule table) (simp_all only: assms len fixed_rows)
  moreover have "foldl (\<lambda>t i. set4 t i (w0 (ucast (isbox (word_of_nat i))))) (d_il T) [0..<256] = t_il"
    by (rule table) (simp_all only: assms len fixed_rows)
  ultimately show ?thesis unfolding init_fold [OF assms(1)] by (simp only:)
qed

subsection \<open>Properties\<close>

text \<open>
  C29. Tables built at run time are the fixed ones. Called for the first time, \<open>aes_init\<close>
  ends its search for the powers of the generator, returns 0 and leaves in the six tables
  exactly what the fixed tables hold, whatever was in them and in its local arrays; called
  again it changes nothing.
\<close>

theorem aes_init_builds_tables:
  assumes "length pow = 512" "length log = 256" "init T = 0" "length (d_rc T) = RC_LENGTH" "shaped (d_fn T)" "shaped (d_fl T)"
    "shaped (d_im T)" "shaped (d_in T)" "shaped (d_il T)"
  shows "aes_init pow log T = Some (0, T\<lparr>init := 1, d_rc := t_rc, d_fn := t_fn, d_fl := t_fl, d_im := t_im, d_in := t_in, d_il := t_il\<rparr>) \<and>
    (init T' \<noteq> 0 \<longrightarrow> aes_init pow log T' = Some (0, T'))"
proof -
  obtain p l where pl: "ff_loop 0 1 pow log = Some (p, l)" "ff_tables p l" using ff_loop_tables [OF assms(1,2)] by blast
  note rc = init_rc_table [OF pl(2) assms(4)]
  have "foldl (init_entry p l) (T\<lparr>d_rc := t_rc\<rparr>) [0..<256] = T\<lparr>d_rc := t_rc, d_fn := t_fn, d_fl := t_fl, d_im := t_im, d_in := t_in, d_il := t_il\<rparr>"
    using init_tables [OF pl(2), of "T\<lparr>d_rc := t_rc\<rparr>"] assms by simp
  then show ?thesis using assms(3) by (simp add: aes_init_def pl(1) rc Let_def)
qed

definition blank_tabs :: aes_tabs where
  "blank_tabs = (let t = replicate 4 (replicate 256 0) in
     \<lparr>init = 0, d_rc = replicate 10 0, d_fn = t, d_fl = t, d_im = t, d_in = t, d_il = t\<rparr>)"

theorem aes_init_builds_tables_witness:
  "\<exists>T. aes_init (replicate 512 0) (replicate 256 0) blank_tabs = Some (0, T) \<and> d_fn T = t_fn \<and> d_im T = t_im"
  using aes_init_builds_tables [of "replicate 512 0" "replicate 256 0" blank_tabs blank_tabs]
  by (simp add: blank_tabs_def Let_def shaped_def RC_LENGTH_def AES_BLOCK_SIZE_def)


end
