(* ===== verification/Gf128_Field.thy ===== *)
theory Gf128_Field
  imports Prelude
begin

text \<open>
  The field \<open>GF(2)[x] / (x\<^sup>1\<^sup>2\<^sup>8 + x\<^sup>7 + x\<^sup>2 + x + 1)\<close> the Galois/Counter mode hashes with.
  An element is a 128-bit word whose bit \<open>k\<close> is the coefficient of the \<open>k\<close>-th power of \<open>x\<close>.
  This is the reference the code's multipliers are proved against: multiplication by \<open>x\<close>
  is a shift and a reduction, and multiplication by a polynomial is the sum of the shifts
  its coefficients select.
\<close>

type_synonym gf128 = "128 word"

definition gmulx :: "gf128 \<Rightarrow> gf128" where
  "gmulx a = push_bit 1 a XOR (if bit a 127 then 0x87 else 0)"

primrec xsum :: "nat \<Rightarrow> (nat \<Rightarrow> gf128) \<Rightarrow> gf128" where
  "xsum 0 f = 0"
| "xsum (Suc n) f = xsum n f XOR f n"

text \<open>The product of an element with the polynomial that has the first \<open>n\<close> coefficients \<open>P\<close>.\<close>

definition gpoly :: "nat \<Rightarrow> (nat \<Rightarrow> bool) \<Rightarrow> gf128 \<Rightarrow> gf128" where
  "gpoly n P a = xsum n (\<lambda>k. if P k then (gmulx ^^ k) a else 0)"

definition gmul :: "gf128 \<Rightarrow> gf128 \<Rightarrow> gf128" where
  "gmul a b = gpoly 128 (bit b) a"

subsection \<open>Linearity\<close>

lemma gmulx_xor: "gmulx (a XOR b) = gmulx a XOR gmulx b"
  by (simp add: gmulx_def push_bit_xor bit_xor_iff ac_simps)

lemma gmulx_0 [simp]: "gmulx 0 = 0"
  by (simp add: gmulx_def)

lemma gmulx_pow_xor: "(gmulx ^^ k) (a XOR b) = (gmulx ^^ k) a XOR (gmulx ^^ k) b"
  by (induction k) (simp_all add: gmulx_xor)

lemma gmulx_pow_0 [simp]: "(gmulx ^^ k) 0 = 0"
  by (induction k) simp_all

lemma gmulx_pow_comp: "(gmulx ^^ i) ((gmulx ^^ j) a) = (gmulx ^^ (i + j)) a"
  by (simp add: funpow_add)

lemma xsum_cong: "m = n \<Longrightarrow> (\<And>k. k < n \<Longrightarrow> f k = g k) \<Longrightarrow> xsum m f = xsum n g"
  by (induction n arbitrary: m) simp_all

lemma xsum_zero [simp]: "xsum n (\<lambda>k. 0) = 0"
  by (induction n) simp_all

lemma xsum_xor: "xsum n (\<lambda>k. f k XOR g k) = xsum n f XOR xsum n g"
  by (induction n) (simp_all add: ac_simps)

lemma xsum_pow: "(gmulx ^^ m) (xsum n f) = xsum n (\<lambda>k. (gmulx ^^ m) (f k))"
  by (induction n) (simp_all add: gmulx_pow_xor)

lemma xsum_add: "xsum (m + n) f = xsum m f XOR xsum n (\<lambda>k. f (m + k))"
  by (induction n) (simp_all add: ac_simps)

lemma xsum_swap: "xsum m (\<lambda>j. xsum n (\<lambda>k. f j k)) = xsum n (\<lambda>k. xsum m (\<lambda>j. f j k))"
  by (induction m) (simp_all add: xsum_xor)

lemma bit_xsum: "bit (xsum n f) i \<longleftrightarrow> odd (card {k. k < n \<and> bit (f k) i})"
proof (induction n)
  case (Suc n)
  have "{k. k < Suc n \<and> bit (f k) i} = {k. k < n \<and> bit (f k) i} \<union> (if bit (f n) i then {n} else {})"
    by (auto simp: less_Suc_eq)
  then have "card {k. k < Suc n \<and> bit (f k) i} = card {k. k < n \<and> bit (f k) i} + of_bool (bit (f n) i)" by simp
  with Suc show ?case by (simp add: bit_xor_iff)
qed simp

lemma gpoly_xor: "gpoly n P (a XOR b) = gpoly n P a XOR gpoly n P b"
  unfolding gpoly_def xsum_xor [symmetric] by (rule xsum_cong) (simp_all add: gmulx_pow_xor)

lemma gpoly_0 [simp]: "gpoly n P 0 = 0"
  by (simp add: gpoly_def cong: if_cong)

lemma gpoly_xsum: "gpoly n P (xsum m f) = xsum m (\<lambda>k. gpoly n P (f k))"
  by (induction m) (simp_all add: gpoly_xor)

lemma gpoly_pow: "(gmulx ^^ m) (gpoly n P a) = gpoly n P ((gmulx ^^ m) a)"
  unfolding gpoly_def xsum_pow
  by (rule xsum_cong) (simp_all add: add.commute flip: funpow_add [THEN fun_cong, unfolded o_apply])

text \<open>A polynomial splits into its low part and \<open>x\<^sup>m\<close> times the rest (Horner).\<close>

lemma gpoly_split: "gpoly (m + n) P a = gpoly m P a XOR (gmulx ^^ m) (gpoly n (\<lambda>k. P (m + k)) a)"
  unfolding gpoly_def xsum_add xsum_pow by (simp add: funpow_add if_distrib [of "gmulx ^^ m"] cong: if_cong)

lemma gpoly_coeff_xor: "gpoly n (\<lambda>k. P k \<noteq> Q k) a = gpoly n P a XOR gpoly n Q a"
  unfolding gpoly_def xsum_xor [symmetric] by (rule xsum_cong) auto

lemma gpoly_commute: "gpoly m P (gpoly n Q a) = gpoly n Q (gpoly m P a)"
proof -
  have "gpoly n Q (gpoly m P a) = xsum m (\<lambda>k. gpoly n Q (if P k then (gmulx ^^ k) a else 0))"
    unfolding gpoly_def [of m] by (rule gpoly_xsum)
  also have "\<dots> = gpoly m P (gpoly n Q a)"
    unfolding gpoly_def [of m P "gpoly n Q a"] by (rule xsum_cong) (simp_all add: gpoly_pow)
  finally show ?thesis by simp
qed

subsection \<open>The multiplication is commutative and associative\<close>

lemma gmulx_pow_1: "k < 128 \<Longrightarrow> (gmulx ^^ k) 1 = push_bit k 1"
proof (induction k)
  case (Suc k)
  then have "\<not> bit (push_bit k 1 :: gf128) 127" by (simp add: bit_simps)
  with Suc show ?case by (simp add: gmulx_def)
qed simp

lemma gmul_1_left: "gmul 1 a = a"
proof (rule bit_eqI)
  fix i assume "possible_bit TYPE(128 word) i"
  then have i: "i < 128" by simp
  have "{k. k < 128 \<and> bit (if bit a k then (gmulx ^^ k) 1 else 0) i} = (if bit a i then {i} else {})"
    using i by (auto simp: gmulx_pow_1 bit_exp_iff split: if_splits)
  then show "bit (gmul 1 a) i = bit a i" by (simp add: gmul_def gpoly_def bit_xsum)
qed

lemma gmul_commute: "gmul a b = gmul b a"
  using gpoly_commute [of 128 "bit b" 128 "bit a" 1] gmul_1_left by (simp add: gmul_def)

lemma gmul_1_right: "gmul a 1 = a"
  by (subst gmul_commute) (rule gmul_1_left)

lemma gmul_swap: "gmul (gmul a b) c = gmul (gmul a c) b"
  by (simp add: gmul_def gpoly_commute)

lemma gmul_assoc: "gmul (gmul a b) c = gmul a (gmul b c)"
  using gmul_swap [of b a c] by (simp add: gmul_commute [of a b] gmul_commute [of "gmul b c" a])

lemma gmul_xor: "gmul (a XOR b) c = gmul a c XOR gmul b c"
  by (simp add: gmul_def gpoly_xor)

lemma gmul_0 [simp]: "gmul 0 a = 0"
  by (simp add: gmul_def)

interpretation gf: comm_monoid gmul 1
  by unfold_locales (rule gmul_assoc gmul_commute gmul_1_right)+

end
