(* ===== verification/Gf_Mul_Lo.thy ===== *)
theory Gf_Mul_Lo
  imports Block_Ops Gf128_Field
begin

text \<open>
  The primitives of \<open>components/pilot/src/aeslib/gf_mul_lo.h\<close>: multiplication of a field
  element by the first, fourth and eighth power of \<open>x\<close>, in the four representations the
  header supports. The representation is a compile-time option, here the argument
  \<open>gf_mode\<close>; unit size (32 bits) and byte order (little-endian) are those of the target.
  The theory proves all twelve primitives correct against the field of \<open>Gf128_Field\<close>.
\<close>

subsection \<open>Model\<close>

datatype gf_mode = LL | BL | LB | BB

definition DATA_256 :: "(byte \<Rightarrow> 'a) \<Rightarrow> 'a list" where
  "DATA_256 q = map (\<lambda>i. q (of_nat i)) [0..<256]"

definition MASK :: "u32 \<Rightarrow> u32" where
  "MASK x = x * ((-1) div 0xff)"

definition ord :: "gf_mode \<Rightarrow> byte \<Rightarrow> byte \<Rightarrow> u16" where
  "ord m hi lo = (if m = LB \<or> m = LL then push_bit 8 (ucast hi) OR ucast lo else push_bit 8 (ucast lo) OR ucast hi)"

definition gf_uint16_xor :: "gf_mode \<Rightarrow> byte \<Rightarrow> u16" where
  "gf_uint16_xor m i = (if m = BL \<or> m = LL then
     (if i AND 0x01 \<noteq> 0 then ord m 0x00 0x87 else 0) XOR (if i AND 0x02 \<noteq> 0 then ord m 0x01 0x0e else 0) XOR
     (if i AND 0x04 \<noteq> 0 then ord m 0x02 0x1c else 0) XOR (if i AND 0x08 \<noteq> 0 then ord m 0x04 0x38 else 0) XOR
     (if i AND 0x10 \<noteq> 0 then ord m 0x08 0x70 else 0) XOR (if i AND 0x20 \<noteq> 0 then ord m 0x10 0xe0 else 0) XOR
     (if i AND 0x40 \<noteq> 0 then ord m 0x21 0xc0 else 0) XOR (if i AND 0x80 \<noteq> 0 then ord m 0x43 0x80 else 0)
   else
     (if i AND 0x80 \<noteq> 0 then ord m 0x00 0xe1 else 0) XOR (if i AND 0x40 \<noteq> 0 then ord m 0x80 0x70 else 0) XOR
     (if i AND 0x20 \<noteq> 0 then ord m 0x40 0x38 else 0) XOR (if i AND 0x10 \<noteq> 0 then ord m 0x20 0x1c else 0) XOR
     (if i AND 0x08 \<noteq> 0 then ord m 0x10 0x0e else 0) XOR (if i AND 0x04 \<noteq> 0 then ord m 0x08 0x07 else 0) XOR
     (if i AND 0x02 \<noteq> 0 then ord m 0x84 0x03 else 0) XOR (if i AND 0x01 \<noteq> 0 then ord m 0xc2 0x01 else 0))"

text \<open>The bits \<open>X_0\<close> to \<open>X_7\<close> of a byte, by their field significance.\<close>

definition x_bit :: "gf_mode \<Rightarrow> byte list" where
  "x_bit m = (if m = BL \<or> m = LL then [0x01, 0x02, 0x04, 0x08, 0x10, 0x20, 0x40, 0x80]
     else [0x80, 0x40, 0x20, 0x10, 0x08, 0x04, 0x02, 0x01])"

definition gf_tab :: "gf_mode \<Rightarrow> u16 list" where
  "gf_tab m = DATA_256 (gf_uint16_xor m)"

text \<open>
  A step \<open>f\<close> of a \<open>rep2\<close> macro writes unit \<open>n\<close> of \<open>r\<close> from unit \<open>n\<close> and a neighbour of
  \<open>x\<close>. The primitives that work in place pass the same array for both; they then read what
  the steps before have left.
\<close>

definition rep2_d4_in :: "(nat \<Rightarrow> 'a list \<Rightarrow> 'a list \<Rightarrow> 'a list) \<Rightarrow> 'a list \<Rightarrow> 'a list" where
  "rep2_d4_in f x = (let x = f 3 x x; x = f 2 x x; x = f 1 x x in f 0 x x)"

definition rep2_u4_in :: "(nat \<Rightarrow> 'a list \<Rightarrow> 'a list \<Rightarrow> 'a list) \<Rightarrow> 'a list \<Rightarrow> 'a list" where
  "rep2_u4_in f x = (let x = f 0 x x; x = f 1 x x; x = f 2 x x in f 3 x x)"

definition f1_ll :: "nat \<Rightarrow> u32 list \<Rightarrow> u32 list \<Rightarrow> u32 list" where
  "f1_ll n r x = r[n := push_bit 1 (x ! n) OR (if n \<noteq> 0 then drop_bit 31 (x ! (n - 1)) else 0)]"

definition f4_ll :: "nat \<Rightarrow> u32 list \<Rightarrow> u32 list \<Rightarrow> u32 list" where
  "f4_ll n r x = r[n := push_bit 4 (x ! n) OR (if n \<noteq> 0 then drop_bit 28 (x ! (n - 1)) else 0)]"

definition f8_ll :: "nat \<Rightarrow> u32 list \<Rightarrow> u32 list \<Rightarrow> u32 list" where
  "f8_ll n r x = r[n := push_bit 8 (x ! n) OR (if n \<noteq> 0 then drop_bit 24 (x ! (n - 1)) else 0)]"

definition gf_mulx1_ll :: "block \<Rightarrow> block \<Rightarrow> block" where
  "gf_mulx1_ll r x = (let x = units x; tt = ucast (gf_tab LL ! unat (drop_bit 31 (x ! 3) AND 0x01)) :: u32;
     r = rep2_d4 f1_ll (units r) x in of_units (r[0 := r ! 0 XOR tt]))"

definition gf_mulx4_ll :: "block \<Rightarrow> block" where
  "gf_mulx4_ll x = (let x = units x; tt = ucast (gf_tab LL ! unat (drop_bit 28 (x ! 3) AND 0x0f)) :: u32;
     x = rep2_d4_in f4_ll x in of_units (x[0 := x ! 0 XOR tt]))"

definition gf_mulx8_ll :: "block \<Rightarrow> block" where
  "gf_mulx8_ll x = (let x = units x; tt = ucast (gf_tab LL ! unat (drop_bit 24 (x ! 3))) :: u32;
     x = rep2_d4_in f8_ll x in of_units (x[0 := x ! 0 XOR tt]))"

definition f1_bl :: "nat \<Rightarrow> u32 list \<Rightarrow> u32 list \<Rightarrow> u32 list" where
  "f1_bl n r x = r[n := (push_bit 1 (x ! n) AND NOT (MASK 0x01)) OR
     ((drop_bit 15 (x ! n) OR (if n < 3 then push_bit 17 (x ! (n + 1)) else 0)) AND MASK 0x01)]"

definition f4_bl :: "nat \<Rightarrow> u32 list \<Rightarrow> u32 list \<Rightarrow> u32 list" where
  "f4_bl n r x = r[n := (push_bit 4 (x ! n) AND NOT (MASK 0x0f)) OR
     ((drop_bit 12 (x ! n) OR (if n < 3 then push_bit 20 (x ! (n + 1)) else 0)) AND MASK 0x0f)]"

definition f8_bl :: "nat \<Rightarrow> u32 list \<Rightarrow> u32 list \<Rightarrow> u32 list" where
  "f8_bl n r x = r[n := drop_bit 8 (x ! n) OR (if n < 3 then push_bit 24 (x ! (n + 1)) else 0)]"

definition gf_mulx1_bl :: "block \<Rightarrow> block \<Rightarrow> block" where
  "gf_mulx1_bl r x = (let x = units x; tt = push_bit 16 (ucast (gf_tab BL ! unat (drop_bit 7 (x ! 0) AND 0x01))) :: u32;
     r = rep2_u4 f1_bl (units r) x in of_units (r[3 := r ! 3 XOR tt]))"

definition gf_mulx4_bl :: "block \<Rightarrow> block" where
  "gf_mulx4_bl x = (let x = units x; tt = push_bit 16 (ucast (gf_tab BL ! unat (drop_bit 4 (x ! 0) AND 0x0f))) :: u32;
     x = rep2_u4_in f4_bl x in of_units (x[3 := x ! 3 XOR tt]))"

definition gf_mulx8_bl :: "block \<Rightarrow> block" where
  "gf_mulx8_bl x = (let x = units x; tt = push_bit 16 (ucast (gf_tab BL ! unat (x ! 0 AND 0xff))) :: u32;
     x = rep2_u4_in f8_bl x in of_units (x[3 := x ! 3 XOR tt]))"

definition f1_lb :: "nat \<Rightarrow> u32 list \<Rightarrow> u32 list \<Rightarrow> u32 list" where
  "f1_lb n r x = r[n := (drop_bit 1 (x ! n) AND NOT (MASK 0x80)) OR
     ((push_bit 15 (x ! n) OR (if n \<noteq> 0 then drop_bit 17 (x ! (n - 1)) else 0)) AND MASK 0x80)]"

definition f4_lb :: "nat \<Rightarrow> u32 list \<Rightarrow> u32 list \<Rightarrow> u32 list" where
  "f4_lb n r x = r[n := (drop_bit 4 (x ! n) AND NOT (MASK 0xf0)) OR
     ((push_bit 12 (x ! n) OR (if n \<noteq> 0 then drop_bit 20 (x ! (n - 1)) else 0)) AND MASK 0xf0)]"

definition f8_lb :: "nat \<Rightarrow> u32 list \<Rightarrow> u32 list \<Rightarrow> u32 list" where
  "f8_lb n r x = r[n := push_bit 8 (x ! n) OR (if n \<noteq> 0 then drop_bit 24 (x ! (n - 1)) else 0)]"

definition gf_mulx1_lb :: "block \<Rightarrow> block \<Rightarrow> block" where
  "gf_mulx1_lb r x = (let x = units x; tt = ucast (gf_tab LB ! unat (drop_bit 17 (x ! 3) AND MASK 0x80)) :: u32;
     r = rep2_d4 f1_lb (units r) x in of_units (r[0 := r ! 0 XOR tt]))"

definition gf_mulx4_lb :: "block \<Rightarrow> block" where
  "gf_mulx4_lb x = (let x = units x; tt = ucast (gf_tab LB ! unat (drop_bit 20 (x ! 3) AND MASK 0xf0)) :: u32;
     x = rep2_d4_in f4_lb x in of_units (x[0 := x ! 0 XOR tt]))"

definition gf_mulx8_lb :: "block \<Rightarrow> block" where
  "gf_mulx8_lb x = (let x = units x; tt = ucast (gf_tab LB ! unat (drop_bit 24 (x ! 3))) :: u32;
     x = rep2_d4_in f8_lb x in of_units (x[0 := x ! 0 XOR tt]))"

definition f1_bb :: "nat \<Rightarrow> u32 list \<Rightarrow> u32 list \<Rightarrow> u32 list" where
  "f1_bb n r x = r[n := drop_bit 1 (x ! n) OR (if n < 3 then push_bit 31 (x ! (n + 1)) else 0)]"

definition f4_bb :: "nat \<Rightarrow> u32 list \<Rightarrow> u32 list \<Rightarrow> u32 list" where
  "f4_bb n r x = r[n := drop_bit 4 (x ! n) OR (if n < 3 then push_bit 28 (x ! (n + 1)) else 0)]"

definition f8_bb :: "nat \<Rightarrow> u32 list \<Rightarrow> u32 list \<Rightarrow> u32 list" where
  "f8_bb n r x = r[n := drop_bit 8 (x ! n) OR (if n < 3 then push_bit 24 (x ! (n + 1)) else 0)]"

definition gf_mulx1_bb :: "block \<Rightarrow> block \<Rightarrow> block" where
  "gf_mulx1_bb r x = (let x = units x; tt = push_bit 16 (ucast (gf_tab BB ! unat (push_bit 7 (x ! 0) AND 0x80))) :: u32;
     r = rep2_u4 f1_bb (units r) x in of_units (r[3 := r ! 3 XOR tt]))"

definition gf_mulx4_bb :: "block \<Rightarrow> block" where
  "gf_mulx4_bb x = (let x = units x; tt = push_bit 16 (ucast (gf_tab BB ! unat (push_bit 4 (x ! 0) AND 0xf0))) :: u32;
     x = rep2_u4_in f4_bb x in of_units (x[3 := x ! 3 XOR tt]))"

definition gf_mulx8_bb :: "block \<Rightarrow> block" where
  "gf_mulx8_bb x = (let x = units x; tt = push_bit 16 (ucast (gf_tab BB ! unat (x ! 0 AND 0xff))) :: u32;
     x = rep2_u4_in f8_bb x in of_units (x[3 := x ! 3 XOR tt]))"

text \<open>The macros that select the primitive of the mode.\<close>

definition gf_mulx1 :: "gf_mode \<Rightarrow> block \<Rightarrow> block \<Rightarrow> block" where
  "gf_mulx1 m = (case m of LL \<Rightarrow> gf_mulx1_ll | BL \<Rightarrow> gf_mulx1_bl | LB \<Rightarrow> gf_mulx1_lb | BB \<Rightarrow> gf_mulx1_bb)"

definition gf_mulx4 :: "gf_mode \<Rightarrow> block \<Rightarrow> block" where
  "gf_mulx4 m = (case m of LL \<Rightarrow> gf_mulx4_ll | BL \<Rightarrow> gf_mulx4_bl | LB \<Rightarrow> gf_mulx4_lb | BB \<Rightarrow> gf_mulx4_bb)"

definition gf_mulx8 :: "gf_mode \<Rightarrow> block \<Rightarrow> block" where
  "gf_mulx8 m = (case m of LL \<Rightarrow> gf_mulx8_ll | BL \<Rightarrow> gf_mulx8_bl | LB \<Rightarrow> gf_mulx8_lb | BB \<Rightarrow> gf_mulx8_bb)"


subsection \<open>The element a block represents\<close>

text \<open>As \<open>gf128mul.h\<close> documents it: the byte and the bit that hold the coefficient of each power of \<open>x\<close>.\<close>

definition gf_byte_index :: "gf_mode \<Rightarrow> nat \<Rightarrow> nat" where
  "gf_byte_index m i = (if m = LL \<or> m = LB then i else 15 - i)"

definition gf_bit_index :: "gf_mode \<Rightarrow> nat \<Rightarrow> nat" where
  "gf_bit_index m j = (if m = LL \<or> m = BL then j else 7 - j)"

definition gf_val :: "gf_mode \<Rightarrow> block \<Rightarrow> gf128" where
  "gf_val m b = horner_sum of_bool 2
     (map (\<lambda>n. bit (b ! gf_byte_index m (n div 8)) (gf_bit_index m (n mod 8))) [0..<128])"

lemma bit_gf_val: "n < 128 \<Longrightarrow> bit (gf_val m b) n \<longleftrightarrow> bit (b ! gf_byte_index m (n div 8)) (gf_bit_index m (n mod 8))"
  by (simp add: gf_val_def bit_horner_sum_bit_word_iff)

text \<open>The same by units: unit \<open>q\<close> in field order, with its bits in field order.\<close>

definition unit_index :: "gf_mode \<Rightarrow> nat \<Rightarrow> nat" where
  "unit_index m q = (if m = LL \<or> m = LB then q else 3 - q)"

definition perm :: "gf_mode \<Rightarrow> nat \<Rightarrow> nat" where
  "perm m r = (case m of LL \<Rightarrow> r | BL \<Rightarrow> 8 * (3 - r div 8) + r mod 8 | LB \<Rightarrow> 8 * (r div 8) + (7 - r mod 8) | BB \<Rightarrow> 31 - r)"

definition norm :: "gf_mode \<Rightarrow> u32 \<Rightarrow> u32" where
  "norm m w = horner_sum of_bool 2 (map (\<lambda>r. bit w (perm m r)) [0..<32])"

definition cat4 :: "u32 \<Rightarrow> u32 \<Rightarrow> u32 \<Rightarrow> u32 \<Rightarrow> gf128" where
  "cat4 a b c d = ucast a OR push_bit 32 (ucast b) OR push_bit 64 (ucast c) OR push_bit 96 (ucast d)"

lemma bit_norm: "r < 32 \<Longrightarrow> bit (norm m w) r \<longleftrightarrow> bit w (perm m r)"
  by (simp add: norm_def bit_horner_sum_bit_word_iff)

lemma bit_cat4:
  assumes "r < 32"
  shows "bit (cat4 a b c d) r = bit a r" "bit (cat4 a b c d) (32 + r) = bit b r"
    "bit (cat4 a b c d) (64 + r) = bit c r" "bit (cat4 a b c d) (96 + r) = bit d r"
  using assms by (simp_all add: cat4_def bit_simps bit_beyond)

lemma less_128_cases:
  assumes "n < (128 :: nat)"
  obtains q r where "q = 0 \<or> q = 1 \<or> q = 2 \<or> q = 3" "r < 32" "n = 32 * q + r"
proof
  show "n div 32 = 0 \<or> n div 32 = 1 \<or> n div 32 = 2 \<or> n div 32 = 3" using assms by auto
  show "n mod 32 < 32" "n = 32 * (n div 32) + n mod 32" by simp_all
qed

lemma perm_facts:
  assumes "r < 32"
  shows "perm m r < 32" "perm m r mod 8 = gf_bit_index m (r mod 8)"
    "q < 4 \<Longrightarrow> 4 * unit_index m q + perm m r div 8 = gf_byte_index m (4 * q + r div 8)"
proof -
  have "list_all (\<lambda>r. perm m r < 32 \<and> perm m r mod 8 = gf_bit_index m (r mod 8) \<and>
      list_all (\<lambda>q. 4 * unit_index m q + perm m r div 8 = gf_byte_index m (4 * q + r div 8)) [0..<4]) [0..<32]"
    by (cases m) (simp_all add: perm_def gf_bit_index_def unit_index_def gf_byte_index_def upt_word_bits)
  with assms show "perm m r < 32" "perm m r mod 8 = gf_bit_index m (r mod 8)"
    "q < 4 \<Longrightarrow> 4 * unit_index m q + perm m r div 8 = gf_byte_index m (4 * q + r div 8)"
    by (simp_all add: list_all_iff)
qed

lemma gf_val_cat4:
  assumes "length b = 16"
  shows "gf_val m b = cat4 (norm m (units b ! unit_index m 0)) (norm m (units b ! unit_index m 1))
    (norm m (units b ! unit_index m 2)) (norm m (units b ! unit_index m 3))"
proof (rule bit_word_eqI)
  fix n assume "n < LENGTH(128)"
  then have n: "n < 128" by simp
  then obtain q r where q: "q = 0 \<or> q = 1 \<or> q = 2 \<or> q = 3" and r: "r < 32" and nqr: "n = 32 * q + r"
    by (rule less_128_cases)
  have d: "n div 8 = 4 * q + r div 8" "n mod 8 = r mod 8"
    using div_mult_self2 [of 8 r "4 * q"] mod_mult_self2 [of r 8 "4 * q"]
    by (simp_all add: nqr add.commute [of "32 * q"])
  have "q < 4" and u: "unit_index m q < 4" using q by (auto simp: unit_index_def)
  then have "bit (gf_val m b) n \<longleftrightarrow> bit (norm m (units b ! unit_index m q)) r"
    using bit_units [OF assms u perm_facts(1) [OF r]] perm_facts(1,2) [OF r, of m] perm_facts(3) [OF r, of q m] r n
    by (simp add: bit_norm bit_gf_val d)
  with q show "bit (gf_val m b) n \<longleftrightarrow> bit (cat4 (norm m (units b ! unit_index m 0)) (norm m (units b ! unit_index m 1))
    (norm m (units b ! unit_index m 2)) (norm m (units b ! unit_index m 3))) n"
    using bit_cat4 [OF r] nqr by (elim disjE) simp_all
qed

subsection \<open>Shifts and reduction by units\<close>

definition sh :: "nat \<Rightarrow> u32 \<Rightarrow> u32 \<Rightarrow> u32" where
  "sh k w p = push_bit k w OR drop_bit (32 - k) p"

definition red :: "u32 \<Rightarrow> u32" where
  "red t = (if bit t 0 then 0x87 else 0) XOR (if bit t 1 then 0x10e else 0) XOR (if bit t 2 then 0x21c else 0) XOR
    (if bit t 3 then 0x438 else 0) XOR (if bit t 4 then 0x870 else 0) XOR (if bit t 5 then 0x10e0 else 0) XOR
    (if bit t 6 then 0x21c0 else 0) XOR (if bit t 7 then 0x4380 else 0)"

lemma norm_0 [simp]: "norm m 0 = 0"
  by (rule bit_word_eqI) (simp add: bit_norm)

lemma norm_xor: "norm m (a XOR b) = norm m a XOR norm m b"
  by (rule bit_word_eqI) (simp add: bit_norm bit_xor_iff)


lemmas unit_bits = bit_norm sh_def MASK_def perm_def bit_simps upt_word_bits bit_beyond bit_times_2

lemma norm_f1:
  "norm LL (push_bit 1 w OR drop_bit 31 p) = sh 1 (norm LL w) (norm LL p)"
  "norm BL ((push_bit 1 w AND NOT (MASK 0x01)) OR ((drop_bit 15 w OR push_bit 17 p) AND MASK 0x01)) = sh 1 (norm BL w) (norm BL p)"
  "norm LB ((drop_bit 1 w AND NOT (MASK 0x80)) OR ((push_bit 15 w OR drop_bit 17 p) AND MASK 0x80)) = sh 1 (norm LB w) (norm LB p)"
  "norm BB (drop_bit 1 w OR push_bit 31 p) = sh 1 (norm BB w) (norm BB p)"
  by (rule word_bits_eqI; simp add: unit_bits flip: numeral_2_eq_2)+

lemma norm_f4:
  "norm LL (push_bit 4 w OR drop_bit 28 p) = sh 4 (norm LL w) (norm LL p)"
  "norm BL ((push_bit 4 w AND NOT (MASK 0x0f)) OR ((drop_bit 12 w OR push_bit 20 p) AND MASK 0x0f)) = sh 4 (norm BL w) (norm BL p)"
  "norm LB ((drop_bit 4 w AND NOT (MASK 0xf0)) OR ((push_bit 12 w OR drop_bit 20 p) AND MASK 0xf0)) = sh 4 (norm LB w) (norm LB p)"
  "norm BB (drop_bit 4 w OR push_bit 28 p) = sh 4 (norm BB w) (norm BB p)"
  by (rule word_bits_eqI; simp add: unit_bits flip: numeral_2_eq_2)+

lemma norm_f8:
  "norm LL (push_bit 8 w OR drop_bit 24 p) = sh 8 (norm LL w) (norm LL p)"
  "norm BL (drop_bit 8 w OR push_bit 24 p) = sh 8 (norm BL w) (norm BL p)"
  "norm LB (push_bit 8 w OR drop_bit 24 p) = sh 8 (norm LB w) (norm LB p)"
  "norm BB (drop_bit 8 w OR push_bit 24 p) = sh 8 (norm BB w) (norm BB p)"
  by (rule word_bits_eqI; simp add: unit_bits flip: numeral_2_eq_2)+


lemma gf_tab_lookup:
  assumes "take_bit 8 w = (w :: u32)"
  shows "gf_tab m ! unat w = gf_uint16_xor m (ucast w)"
proof -
  have "unat w = take_bit 8 (unat w)" by (subst assms [symmetric]) (rule unsigned_take_bit_eq)
  then have "unat w < 256" using take_bit_nat_less_exp [of 8 "unat w"] by simp
  moreover have "of_nat (unat w) = (ucast w :: byte)" by simp
  ultimately show ?thesis by (simp add: gf_tab_def DATA_256_def)
qed

lemmas tab_bits = unit_bits gf_uint16_xor_def ord_def and_bit_tests red_def bit_if if_bool_eq_conj

text \<open>The reduction the table supplies, for each primitive and representation.\<close>

lemma norm_tab1:
  "norm LL (ucast (gf_tab LL ! unat (drop_bit 31 w AND 0x01))) = red (drop_bit 31 (norm LL w))"
  "norm BL (push_bit 16 (ucast (gf_tab BL ! unat (drop_bit 7 w AND 0x01)))) = red (drop_bit 31 (norm BL w))"
  "norm LB (ucast (gf_tab LB ! unat (drop_bit 17 w AND MASK 0x80))) = red (drop_bit 31 (norm LB w))"
  "norm BB (push_bit 16 (ucast (gf_tab BB ! unat (push_bit 7 w AND 0x80)))) = red (drop_bit 31 (norm BB w))"
  by (subst gf_tab_lookup; rule word_bits_eqI; simp add: tab_bits split del: if_split flip: numeral_2_eq_2)+

lemma norm_tab4:
  "norm LL (ucast (gf_tab LL ! unat (drop_bit 28 w AND 0x0f))) = red (drop_bit 28 (norm LL w))"
  "norm BL (push_bit 16 (ucast (gf_tab BL ! unat (drop_bit 4 w AND 0x0f)))) = red (drop_bit 28 (norm BL w))"
  "norm LB (ucast (gf_tab LB ! unat (drop_bit 20 w AND MASK 0xf0))) = red (drop_bit 28 (norm LB w))"
  "norm BB (push_bit 16 (ucast (gf_tab BB ! unat (push_bit 4 w AND 0xf0)))) = red (drop_bit 28 (norm BB w))"
  by (subst gf_tab_lookup; rule word_bits_eqI; simp add: tab_bits split del: if_split flip: numeral_2_eq_2)+

lemma norm_tab8:
  "norm LL (ucast (gf_tab LL ! unat (drop_bit 24 w))) = red (drop_bit 24 (norm LL w))"
  "norm BL (push_bit 16 (ucast (gf_tab BL ! unat (w AND 0xff)))) = red (drop_bit 24 (norm BL w))"
  "norm LB (ucast (gf_tab LB ! unat (drop_bit 24 w))) = red (drop_bit 24 (norm LB w))"
  "norm BB (push_bit 16 (ucast (gf_tab BB ! unat (w AND 0xff)))) = red (drop_bit 24 (norm BB w))"
  by (subst gf_tab_lookup; rule word_bits_eqI; simp add: tab_bits split del: if_split flip: numeral_2_eq_2)+

subsection \<open>Powers of \<open>x\<close>\<close>

lemma gmulx_pow_formula:
  "k \<le> 8 \<Longrightarrow> (gmulx ^^ k) v = push_bit k v XOR xsum k (\<lambda>i. if bit v (128 - k + i) then push_bit i 0x87 else 0)"
proof (induction k)
  case (Suc k)
  let ?f = "\<lambda>i. if bit v (128 - Suc k + i) then push_bit i 0x87 else 0"
  have top: "gmulx (push_bit k v) = push_bit (Suc k) v XOR (if bit v (127 - k) then 0x87 else 0)"
    using Suc.prems by (simp add: gmulx_def bit_push_bit_iff push_bit_push_bit)
  have shift: "gmulx (push_bit i 0x87) = push_bit (Suc i) 0x87" if "i < 8" for i
  proof -
    have "\<not> bit (0x87 :: gf128) (127 - i)" using that bit_ge [of "0x87 :: gf128" 8 "127 - i"] by simp
    then show ?thesis by (simp add: gmulx_def bit_push_bit_iff push_bit_push_bit)
  qed
  have "gmulx (xsum k (\<lambda>i. if bit v (128 - k + i) then push_bit i 0x87 else 0)) =
      xsum k (\<lambda>i. gmulx (if bit v (128 - k + i) then push_bit i 0x87 else 0))"
    using xsum_pow [of 1] by simp
  also have "\<dots> = xsum k (\<lambda>i. if bit v (128 - Suc k + (1 + i)) then push_bit (1 + i) 0x87 else 0)"
  proof (rule xsum_cong)
    fix i assume "i < k"
    moreover have "128 - Suc k + (1 + i) = 128 - k + i" using Suc.prems by simp
    ultimately show "gmulx (if bit v (128 - k + i) then push_bit i 0x87 else 0) =
        (if bit v (128 - Suc k + (1 + i)) then push_bit (1 + i) 0x87 else 0)"
      using Suc.prems shift [of i] by (simp only: if_distrib [of gmulx] gmulx_0) simp
  qed simp
  finally have "(gmulx ^^ Suc k) v = push_bit (Suc k) v XOR (?f 0 XOR xsum k (\<lambda>i. ?f (1 + i)))"
    using Suc.IH Suc.prems top by (simp only: funpow.simps o_apply gmulx_xor xor.assoc) simp
  also have "?f 0 XOR xsum k (\<lambda>i. ?f (1 + i)) = xsum (Suc k) ?f"
    using xsum_add [of 1 k ?f] by simp
  finally show ?case .
qed simp

lemma xsum_unfold:
  "xsum 1 f = f 0" "xsum 4 f = f 0 XOR f 1 XOR f 2 XOR f 3"
  "xsum 8 f = f 0 XOR f 1 XOR f 2 XOR f 3 XOR f 4 XOR f 5 XOR f 6 XOR f 7"
  by (simp_all add: eval_nat_numeral ac_simps)

lemma gmulx_cat4:
  "(gmulx ^^ 1) (cat4 a b c d) = cat4 (sh 1 a 0 XOR red (drop_bit 31 d)) (sh 1 b a) (sh 1 c b) (sh 1 d c)"
  "(gmulx ^^ 4) (cat4 a b c d) = cat4 (sh 4 a 0 XOR red (drop_bit 28 d)) (sh 4 b a) (sh 4 c b) (sh 4 d c)"
  "(gmulx ^^ 8) (cat4 a b c d) = cat4 (sh 8 a 0 XOR red (drop_bit 24 d)) (sh 8 b a) (sh 8 c b) (sh 8 d c)"
  by (subst gmulx_pow_formula, simp, rule word_bits_eqI,
      simp add: xsum_unfold cat4_def tab_bits bit_times_2 split del: if_split flip: numeral_2_eq_2)+

subsection \<open>The primitives\<close>

lemmas norm_shifts = norm_f1 [simplified] norm_f4 [simplified] norm_f8 [simplified] norm_f1 [where p = 0, simplified] norm_f4 [where p = 0, simplified]
  norm_f8 [where p = 0, simplified] norm_tab1 norm_tab4 norm_tab8 norm_xor

lemmas gf_steps = f1_ll_def f4_ll_def f8_ll_def f1_bl_def f4_bl_def f8_bl_def f1_lb_def f4_lb_def f8_lb_def
  f1_bb_def f4_bb_def f8_bb_def rep2_d4_def rep2_u4_def rep2_d4_in_def rep2_u4_in_def

lemmas gf_mulx_defs = gf_mulx1_ll_def gf_mulx1_bl_def gf_mulx1_lb_def gf_mulx1_bb_def gf_mulx4_ll_def gf_mulx4_bl_def
  gf_mulx4_lb_def gf_mulx4_bb_def gf_mulx8_ll_def gf_mulx8_bl_def gf_mulx8_lb_def gf_mulx8_bb_def

lemma gf_mulx1_val:
  assumes "length r = 16" "length x = 16"
  shows "length (gf_mulx1 m r x) = 16" "gf_val m (gf_mulx1 m r x) = gmulx (gf_val m x)"
proof -
  obtain a b c d where x: "units x = [a, b, c, d]" using units_length list4_cases by metis
  obtain e f g h where r: "units r = [e, f, g, h]" using units_length list4_cases by metis
  show "length (gf_mulx1 m r x) = 16"
    by (cases m) (simp_all add: gf_mulx1_def gf_mulx_defs gf_steps x r Let_def)
  then show "gf_val m (gf_mulx1 m r x) = gmulx (gf_val m x)"
    using gmulx_cat4(1) assms(2)
    by (cases m) (simp_all add: gf_val_cat4 gf_mulx1_def gf_mulx_defs gf_steps x r Let_def unit_index_def norm_shifts)
qed


lemma gf_mulx4_val:
  assumes "length x = 16"
  shows "length (gf_mulx4 m x) = 16" "gf_val m (gf_mulx4 m x) = (gmulx ^^ 4) (gf_val m x)"
proof -
  obtain a b c d where x: "units x = [a, b, c, d]" using units_length list4_cases by metis
  show "length (gf_mulx4 m x) = 16"
    by (cases m) (simp_all add: gf_mulx4_def gf_mulx_defs gf_steps x Let_def)
  then show "gf_val m (gf_mulx4 m x) = (gmulx ^^ 4) (gf_val m x)"
    by (cases m) (simp_all add: gf_val_cat4 assms gmulx_cat4 gf_mulx4_def gf_mulx_defs
        gf_steps x Let_def unit_index_def norm_shifts)
qed

lemma gf_mulx8_val:
  assumes "length x = 16"
  shows "length (gf_mulx8 m x) = 16" "gf_val m (gf_mulx8 m x) = (gmulx ^^ 8) (gf_val m x)"
proof -
  obtain a b c d where x: "units x = [a, b, c, d]" using units_length list4_cases by metis
  show "length (gf_mulx8 m x) = 16"
    by (cases m) (simp_all add: gf_mulx8_def gf_mulx_defs gf_steps x Let_def)
  then show "gf_val m (gf_mulx8 m x) = (gmulx ^^ 8) (gf_val m x)"
    by (cases m) (simp_all add: gf_val_cat4 assms gmulx_cat4 gf_mulx8_def gf_mulx_defs
        gf_steps x Let_def unit_index_def norm_shifts)
qed

end
