(* ===== verification/Gf_Mul_Units.thy ===== *)
theory Gf_Mul_Units
  imports Gf_Mul_Lo
begin

text \<open>
  The primitives of \<open>gf_mul_lo.h\<close> for the other two unit sizes that the header supports,
  bytes and 64-bit words, on a little-endian machine, and the proof that they compute the
  same blocks as those for the 32-bit units of the target.
\<close>

subsection \<open>Model\<close>

definition ui64_of :: "byte list \<Rightarrow> nat \<Rightarrow> u64" where
  "ui64_of b i = ucast (ui32_at b i) OR push_bit 32 (ucast (ui32_at b (i + 4)))"

definition ui64_bytes :: "u64 \<Rightarrow> byte list" where
  "ui64_bytes w = ui32_bytes (ucast w) @ ui32_bytes (ucast (drop_bit 32 w))"

definition units_64 :: "block \<Rightarrow> u64 list" where
  "units_64 b = [ui64_of b 0, ui64_of b 8]"

definition of_units_64 :: "u64 list \<Rightarrow> block" where
  "of_units_64 us = concat (map ui64_bytes us)"

text \<open>The steps of a \<open>rep2\<close> macro, in their order, into another array and in place.\<close>

definition rep2_u2 :: "nat list" where "rep2_u2 = [0, 1]"
definition rep2_d2 :: "nat list" where "rep2_d2 = [1, 0]"
definition rep2_u16 :: "nat list" where "rep2_u16 = [0, 1, 2, 3, 4, 5, 6, 7, 8, 9, 10, 11, 12, 13, 14, 15]"
definition rep2_d16 :: "nat list" where "rep2_d16 = [15, 14, 13, 12, 11, 10, 9, 8, 7, 6, 5, 4, 3, 2, 1, 0]"

definition rep2 :: "nat list \<Rightarrow> (nat \<Rightarrow> 'a list \<Rightarrow> 'a list \<Rightarrow> 'a list) \<Rightarrow> 'a list \<Rightarrow> 'a list \<Rightarrow> 'a list" where
  "rep2 ns f r x = foldl (\<lambda>r n. f n r x) r ns"

definition rep2_in :: "nat list \<Rightarrow> (nat \<Rightarrow> 'a list \<Rightarrow> 'a list \<Rightarrow> 'a list) \<Rightarrow> 'a list \<Rightarrow> 'a list" where
  "rep2_in ns f x = foldl (\<lambda>x n. f n x x) x ns"

text \<open>Units of 8 bits.\<close>

definition f1_ll_8 :: "nat \<Rightarrow> byte list \<Rightarrow> byte list \<Rightarrow> byte list" where
  "f1_ll_8 n r x = r[n := push_bit 1 (x ! n) OR (if n \<noteq> 0 then drop_bit 7 (x ! (n - 1)) else 0)]"

definition f4_ll_8 :: "nat \<Rightarrow> byte list \<Rightarrow> byte list \<Rightarrow> byte list" where
  "f4_ll_8 n r x = r[n := push_bit 4 (x ! n) OR (if n \<noteq> 0 then drop_bit 4 (x ! (n - 1)) else 0)]"

definition gf_mulx1_ll_8 :: "block \<Rightarrow> block \<Rightarrow> block" where
  "gf_mulx1_ll_8 r x = (let tt = gf_tab LL ! unat (drop_bit 7 (x ! 15) AND 0x01);
     r = rep2 rep2_d16 f1_ll_8 r x in r[0 := r ! 0 XOR ucast (tt AND 0xff)])"

definition gf_mulx4_ll_8 :: "block \<Rightarrow> block" where
  "gf_mulx4_ll_8 x = (let tt = gf_tab LL ! unat (drop_bit 4 (x ! 15) AND 0x0f);
     x = rep2_in rep2_d16 f4_ll_8 x; x = x[1 := x ! 1 XOR ucast (drop_bit 8 tt)] in x[0 := x ! 0 XOR ucast (tt AND 0xff)])"

definition gf_mulx8_ll_8 :: "block \<Rightarrow> block" where
  "gf_mulx8_ll_8 x = (let tt = gf_tab LL ! unat (x ! 15);
     x = take 1 x @ take 15 x; x = x[1 := x ! 1 XOR ucast (drop_bit 8 tt)] in x[0 := ucast (tt AND 0xff)])"

definition f1_bl_8 :: "nat \<Rightarrow> byte list \<Rightarrow> byte list \<Rightarrow> byte list" where
  "f1_bl_8 n r x = r[n := push_bit 1 (x ! n) OR (if n < 15 then drop_bit 7 (x ! (n + 1)) else 0)]"

definition f4_bl_8 :: "nat \<Rightarrow> byte list \<Rightarrow> byte list \<Rightarrow> byte list" where
  "f4_bl_8 n r x = r[n := push_bit 4 (x ! n) OR (if n < 15 then drop_bit 4 (x ! (n + 1)) else 0)]"

definition gf_mulx1_bl_8 :: "block \<Rightarrow> block \<Rightarrow> block" where
  "gf_mulx1_bl_8 r x = (let tt = gf_tab BL ! unat (drop_bit 7 (x ! 0) AND 0x01);
     r = rep2 rep2_u16 f1_bl_8 r x in r[15 := r ! 15 XOR ucast (drop_bit 8 tt)])"

definition gf_mulx4_bl_8 :: "block \<Rightarrow> block" where
  "gf_mulx4_bl_8 x = (let tt = gf_tab BL ! unat (drop_bit 4 (x ! 0) AND 0x0f);
     x = rep2_in rep2_u16 f4_bl_8 x; x = x[14 := x ! 14 XOR ucast (tt AND 0xff)] in x[15 := x ! 15 XOR ucast (drop_bit 8 tt)])"

definition gf_mulx8_bl_8 :: "block \<Rightarrow> block" where
  "gf_mulx8_bl_8 x = (let tt = gf_tab BL ! unat (x ! 0);
     x = take 15 (drop 1 x) @ drop 15 x; x = x[14 := x ! 14 XOR ucast (tt AND 0xff)] in x[15 := ucast (drop_bit 8 tt)])"

definition f1_lb_8 :: "nat \<Rightarrow> byte list \<Rightarrow> byte list \<Rightarrow> byte list" where
  "f1_lb_8 n r x = r[n := drop_bit 1 (x ! n) OR (if n \<noteq> 0 then push_bit 7 (x ! (n - 1)) else 0)]"

definition f4_lb_8 :: "nat \<Rightarrow> byte list \<Rightarrow> byte list \<Rightarrow> byte list" where
  "f4_lb_8 n r x = r[n := drop_bit 4 (x ! n) OR (if n \<noteq> 0 then push_bit 4 (x ! (n - 1)) else 0)]"

definition gf_mulx1_lb_8 :: "block \<Rightarrow> block \<Rightarrow> block" where
  "gf_mulx1_lb_8 r x = (let tt = gf_tab LB ! unat (push_bit 7 (x ! 15) AND 0x80);
     r = rep2 rep2_d16 f1_lb_8 r x in r[0 := r ! 0 XOR ucast tt])"

definition gf_mulx4_lb_8 :: "block \<Rightarrow> block" where
  "gf_mulx4_lb_8 x = (let tt = gf_tab LB ! unat (push_bit 4 (x ! 15) AND 0xf0);
     x = rep2_in rep2_d16 f4_lb_8 x; x = x[1 := x ! 1 XOR ucast (drop_bit 8 tt)] in x[0 := x ! 0 XOR ucast (tt AND 0xff)])"

definition gf_mulx8_lb_8 :: "block \<Rightarrow> block" where
  "gf_mulx8_lb_8 x = (let tt = gf_tab LB ! unat (x ! 15);
     x = take 1 x @ take 15 x; x = x[1 := x ! 1 XOR ucast (drop_bit 8 tt)] in x[0 := ucast (tt AND 0xff)])"

definition f1_bb_8 :: "nat \<Rightarrow> byte list \<Rightarrow> byte list \<Rightarrow> byte list" where
  "f1_bb_8 n r x = r[n := drop_bit 1 (x ! n) OR (if n < 15 then push_bit 7 (x ! (n + 1)) else 0)]"

definition f4_bb_8 :: "nat \<Rightarrow> byte list \<Rightarrow> byte list \<Rightarrow> byte list" where
  "f4_bb_8 n r x = r[n := drop_bit 4 (x ! n) OR (if n < 15 then push_bit 4 (x ! (n + 1)) else 0)]"

definition gf_mulx1_bb_8 :: "block \<Rightarrow> block \<Rightarrow> block" where
  "gf_mulx1_bb_8 r x = (let tt = gf_tab BB ! unat (push_bit 7 (x ! 0) AND 0x80);
     r = rep2 rep2_u16 f1_bb_8 r x in r[15 := r ! 15 XOR ucast (drop_bit 8 tt)])"

definition gf_mulx4_bb_8 :: "block \<Rightarrow> block" where
  "gf_mulx4_bb_8 x = (let tt = gf_tab BB ! unat (push_bit 4 (x ! 0) AND 0xf0);
     x = rep2_in rep2_u16 f4_bb_8 x; x = x[14 := x ! 14 XOR ucast (tt AND 0xff)] in x[15 := x ! 15 XOR ucast (drop_bit 8 tt)])"

definition gf_mulx8_bb_8 :: "block \<Rightarrow> block" where
  "gf_mulx8_bb_8 x = (let tt = gf_tab BB ! unat (x ! 0);
     x = take 15 (drop 1 x) @ drop 15 x; x = x[14 := x ! 14 XOR ucast (tt AND 0xff)] in x[15 := ucast (drop_bit 8 tt)])"

text \<open>Units of 64 bits.\<close>

definition MASK_64 :: "u64 \<Rightarrow> u64" where
  "MASK_64 x = x * ((-1) div 0xff)"

definition f1_ll_64 :: "nat \<Rightarrow> u64 list \<Rightarrow> u64 list \<Rightarrow> u64 list" where
  "f1_ll_64 n r x = r[n := push_bit 1 (x ! n) OR (if n \<noteq> 0 then drop_bit 63 (x ! (n - 1)) else 0)]"

definition f4_ll_64 :: "nat \<Rightarrow> u64 list \<Rightarrow> u64 list \<Rightarrow> u64 list" where
  "f4_ll_64 n r x = r[n := push_bit 4 (x ! n) OR (if n \<noteq> 0 then drop_bit 60 (x ! (n - 1)) else 0)]"

definition f8_ll_64 :: "nat \<Rightarrow> u64 list \<Rightarrow> u64 list \<Rightarrow> u64 list" where
  "f8_ll_64 n r x = r[n := push_bit 8 (x ! n) OR (if n \<noteq> 0 then drop_bit 56 (x ! (n - 1)) else 0)]"

definition gf_mulx1_ll_64 :: "block \<Rightarrow> block \<Rightarrow> block" where
  "gf_mulx1_ll_64 r x = (let x = units_64 x; tt = ucast (gf_tab LL ! unat (drop_bit 63 (x ! 1) AND 0x01)) :: u64;
     r = rep2 rep2_d2 f1_ll_64 (units_64 r) x in of_units_64 (r[0 := r ! 0 XOR tt]))"

definition gf_mulx4_ll_64 :: "block \<Rightarrow> block" where
  "gf_mulx4_ll_64 x = (let x = units_64 x; tt = ucast (gf_tab LL ! unat (drop_bit 60 (x ! 1) AND 0x0f)) :: u64;
     x = rep2_in rep2_d2 f4_ll_64 x in of_units_64 (x[0 := x ! 0 XOR tt]))"

definition gf_mulx8_ll_64 :: "block \<Rightarrow> block" where
  "gf_mulx8_ll_64 x = (let x = units_64 x; tt = ucast (gf_tab LL ! unat (drop_bit 56 (x ! 1))) :: u64;
     x = rep2_in rep2_d2 f8_ll_64 x in of_units_64 (x[0 := x ! 0 XOR tt]))"

definition f1_bl_64 :: "nat \<Rightarrow> u64 list \<Rightarrow> u64 list \<Rightarrow> u64 list" where
  "f1_bl_64 n r x = r[n := (push_bit 1 (x ! n) AND NOT (MASK_64 0x01)) OR
     ((drop_bit 15 (x ! n) OR (if n = 0 then push_bit 49 (x ! (n + 1)) else 0)) AND MASK_64 0x01)]"

definition f4_bl_64 :: "nat \<Rightarrow> u64 list \<Rightarrow> u64 list \<Rightarrow> u64 list" where
  "f4_bl_64 n r x = r[n := (push_bit 4 (x ! n) AND NOT (MASK_64 0x0f)) OR
     ((drop_bit 12 (x ! n) OR (if n = 0 then push_bit 52 (x ! (n + 1)) else 0)) AND MASK_64 0x0f)]"

definition f8_bl_64 :: "nat \<Rightarrow> u64 list \<Rightarrow> u64 list \<Rightarrow> u64 list" where
  "f8_bl_64 n r x = r[n := drop_bit 8 (x ! n) OR (if n = 0 then push_bit 56 (x ! (n + 1)) else 0)]"

definition gf_mulx1_bl_64 :: "block \<Rightarrow> block \<Rightarrow> block" where
  "gf_mulx1_bl_64 r x = (let x = units_64 x; tt = push_bit 48 (ucast (gf_tab BL ! unat (drop_bit 7 (x ! 0) AND 0x01))) :: u64;
     r = rep2 rep2_u2 f1_bl_64 (units_64 r) x in of_units_64 (r[1 := r ! 1 XOR tt]))"

definition gf_mulx4_bl_64 :: "block \<Rightarrow> block" where
  "gf_mulx4_bl_64 x = (let x = units_64 x; tt = push_bit 48 (ucast (gf_tab BL ! unat (drop_bit 4 (x ! 0) AND 0x0f))) :: u64;
     x = rep2_in rep2_u2 f4_bl_64 x in of_units_64 (x[1 := x ! 1 XOR tt]))"

definition gf_mulx8_bl_64 :: "block \<Rightarrow> block" where
  "gf_mulx8_bl_64 x = (let x = units_64 x; tt = push_bit 48 (ucast (gf_tab BL ! unat (x ! 0 AND 0xff))) :: u64;
     x = rep2_in rep2_u2 f8_bl_64 x in of_units_64 (x[1 := x ! 1 XOR tt]))"

definition f1_lb_64 :: "nat \<Rightarrow> u64 list \<Rightarrow> u64 list \<Rightarrow> u64 list" where
  "f1_lb_64 n r x = r[n := (drop_bit 1 (x ! n) AND NOT (MASK_64 0x80)) OR
     ((push_bit 15 (x ! n) OR (if n \<noteq> 0 then drop_bit 49 (x ! (n - 1)) else 0)) AND MASK_64 0x80)]"

definition f4_lb_64 :: "nat \<Rightarrow> u64 list \<Rightarrow> u64 list \<Rightarrow> u64 list" where
  "f4_lb_64 n r x = r[n := (drop_bit 4 (x ! n) AND NOT (MASK_64 0xf0)) OR
     ((push_bit 12 (x ! n) OR (if n \<noteq> 0 then drop_bit 52 (x ! (n - 1)) else 0)) AND MASK_64 0xf0)]"

definition f8_lb_64 :: "nat \<Rightarrow> u64 list \<Rightarrow> u64 list \<Rightarrow> u64 list" where
  "f8_lb_64 n r x = r[n := push_bit 8 (x ! n) OR (if n \<noteq> 0 then drop_bit 56 (x ! (n - 1)) else 0)]"

definition gf_mulx1_lb_64 :: "block \<Rightarrow> block \<Rightarrow> block" where
  "gf_mulx1_lb_64 r x = (let x = units_64 x; tt = ucast (gf_tab LB ! unat (drop_bit 49 (x ! 1) AND MASK_64 0x80)) :: u64;
     r = rep2 rep2_d2 f1_lb_64 (units_64 r) x in of_units_64 (r[0 := r ! 0 XOR tt]))"

definition gf_mulx4_lb_64 :: "block \<Rightarrow> block" where
  "gf_mulx4_lb_64 x = (let x = units_64 x; tt = ucast (gf_tab LB ! unat (drop_bit 52 (x ! 1) AND MASK_64 0xf0)) :: u64;
     x = rep2_in rep2_d2 f4_lb_64 x in of_units_64 (x[0 := x ! 0 XOR tt]))"

definition gf_mulx8_lb_64 :: "block \<Rightarrow> block" where
  "gf_mulx8_lb_64 x = (let x = units_64 x; tt = ucast (gf_tab LB ! unat (drop_bit 56 (x ! 1))) :: u64;
     x = rep2_in rep2_d2 f8_lb_64 x in of_units_64 (x[0 := x ! 0 XOR tt]))"

definition f1_bb_64 :: "nat \<Rightarrow> u64 list \<Rightarrow> u64 list \<Rightarrow> u64 list" where
  "f1_bb_64 n r x = r[n := drop_bit 1 (x ! n) OR (if n = 0 then push_bit 63 (x ! (n + 1)) else 0)]"

definition f4_bb_64 :: "nat \<Rightarrow> u64 list \<Rightarrow> u64 list \<Rightarrow> u64 list" where
  "f4_bb_64 n r x = r[n := drop_bit 4 (x ! n) OR (if n = 0 then push_bit 60 (x ! (n + 1)) else 0)]"

definition f8_bb_64 :: "nat \<Rightarrow> u64 list \<Rightarrow> u64 list \<Rightarrow> u64 list" where
  "f8_bb_64 n r x = r[n := drop_bit 8 (x ! n) OR (if n = 0 then push_bit 56 (x ! (n + 1)) else 0)]"

definition gf_mulx1_bb_64 :: "block \<Rightarrow> block \<Rightarrow> block" where
  "gf_mulx1_bb_64 r x = (let x = units_64 x; tt = push_bit 48 (ucast (gf_tab BB ! unat (push_bit 7 (x ! 0) AND 0x80))) :: u64;
     r = rep2 rep2_u2 f1_bb_64 (units_64 r) x in of_units_64 (r[1 := r ! 1 XOR tt]))"

definition gf_mulx4_bb_64 :: "block \<Rightarrow> block" where
  "gf_mulx4_bb_64 x = (let x = units_64 x; tt = push_bit 48 (ucast (gf_tab BB ! unat (push_bit 4 (x ! 0) AND 0xf0))) :: u64;
     x = rep2_in rep2_u2 f4_bb_64 x in of_units_64 (x[1 := x ! 1 XOR tt]))"

definition gf_mulx8_bb_64 :: "block \<Rightarrow> block" where
  "gf_mulx8_bb_64 x = (let x = units_64 x; tt = push_bit 48 (ucast (gf_tab BB ! unat (x ! 0 AND 0xff))) :: u64;
     x = rep2_in rep2_u2 f8_bb_64 x in of_units_64 (x[1 := x ! 1 XOR tt]))"


text \<open>The macros that select the primitive of the mode, for the two unit sizes.\<close>

definition gf_mulx1_8 :: "gf_mode \<Rightarrow> block \<Rightarrow> block \<Rightarrow> block" where
  "gf_mulx1_8 m = (case m of LL \<Rightarrow> gf_mulx1_ll_8 | BL \<Rightarrow> gf_mulx1_bl_8 | LB \<Rightarrow> gf_mulx1_lb_8 | BB \<Rightarrow> gf_mulx1_bb_8)"
definition gf_mulx4_8 :: "gf_mode \<Rightarrow> block \<Rightarrow> block" where
  "gf_mulx4_8 m = (case m of LL \<Rightarrow> gf_mulx4_ll_8 | BL \<Rightarrow> gf_mulx4_bl_8 | LB \<Rightarrow> gf_mulx4_lb_8 | BB \<Rightarrow> gf_mulx4_bb_8)"
definition gf_mulx8_8 :: "gf_mode \<Rightarrow> block \<Rightarrow> block" where
  "gf_mulx8_8 m = (case m of LL \<Rightarrow> gf_mulx8_ll_8 | BL \<Rightarrow> gf_mulx8_bl_8 | LB \<Rightarrow> gf_mulx8_lb_8 | BB \<Rightarrow> gf_mulx8_bb_8)"
definition gf_mulx1_64 :: "gf_mode \<Rightarrow> block \<Rightarrow> block \<Rightarrow> block" where
  "gf_mulx1_64 m = (case m of LL \<Rightarrow> gf_mulx1_ll_64 | BL \<Rightarrow> gf_mulx1_bl_64 | LB \<Rightarrow> gf_mulx1_lb_64 | BB \<Rightarrow> gf_mulx1_bb_64)"
definition gf_mulx4_64 :: "gf_mode \<Rightarrow> block \<Rightarrow> block" where
  "gf_mulx4_64 m = (case m of LL \<Rightarrow> gf_mulx4_ll_64 | BL \<Rightarrow> gf_mulx4_bl_64 | LB \<Rightarrow> gf_mulx4_lb_64 | BB \<Rightarrow> gf_mulx4_bb_64)"
definition gf_mulx8_64 :: "gf_mode \<Rightarrow> block \<Rightarrow> block" where
  "gf_mulx8_64 m = (case m of LL \<Rightarrow> gf_mulx8_ll_64 | BL \<Rightarrow> gf_mulx8_bl_64 | LB \<Rightarrow> gf_mulx8_lb_64 | BB \<Rightarrow> gf_mulx8_bb_64)"

subsection \<open>64-bit units as pairs of 32-bit units\<close>

definition join :: "u32 \<Rightarrow> u32 \<Rightarrow> u64" where
  "join a b = ucast a OR push_bit 32 (ucast b)"

lemma bit_join: "bit (join a b) n = (if n < 32 then bit a n else bit b (n - 32))"
  using bit_imp_le_length [of b "n - 32"] by (auto simp: join_def bit_simps bit_beyond)

lemmas join_bits = bit_join MASK_64_def MASK_def bit_simps bit_beyond bit_times_2 upt_word_bits

lemma join_f1:
  "push_bit 1 (join a b) OR drop_bit 63 (join c d) = join (push_bit 1 a OR drop_bit 31 d) (push_bit 1 b OR drop_bit 31 a)"
  "(push_bit 1 (join a b) AND NOT (MASK_64 0x01)) OR ((drop_bit 15 (join a b) OR push_bit 49 (join c d)) AND MASK_64 0x01) =
    join ((push_bit 1 a AND NOT (MASK 0x01)) OR ((drop_bit 15 a OR push_bit 17 b) AND MASK 0x01))
      ((push_bit 1 b AND NOT (MASK 0x01)) OR ((drop_bit 15 b OR push_bit 17 c) AND MASK 0x01))"
  "(drop_bit 1 (join a b) AND NOT (MASK_64 0x80)) OR ((push_bit 15 (join a b) OR drop_bit 49 (join c d)) AND MASK_64 0x80) =
    join ((drop_bit 1 a AND NOT (MASK 0x80)) OR ((push_bit 15 a OR drop_bit 17 d) AND MASK 0x80))
      ((drop_bit 1 b AND NOT (MASK 0x80)) OR ((push_bit 15 b OR drop_bit 17 a) AND MASK 0x80))"
  "drop_bit 1 (join a b) OR push_bit 63 (join c d) = join (drop_bit 1 a OR push_bit 31 b) (drop_bit 1 b OR push_bit 31 c)"
  by (rule word_bits_eqI; simp add: join_bits flip: numeral_2_eq_2)+

lemma join_f4:
  "push_bit 4 (join a b) OR drop_bit 60 (join c d) = join (push_bit 4 a OR drop_bit 28 d) (push_bit 4 b OR drop_bit 28 a)"
  "(push_bit 4 (join a b) AND NOT (MASK_64 0x0f)) OR ((drop_bit 12 (join a b) OR push_bit 52 (join c d)) AND MASK_64 0x0f) =
    join ((push_bit 4 a AND NOT (MASK 0x0f)) OR ((drop_bit 12 a OR push_bit 20 b) AND MASK 0x0f))
      ((push_bit 4 b AND NOT (MASK 0x0f)) OR ((drop_bit 12 b OR push_bit 20 c) AND MASK 0x0f))"
  "(drop_bit 4 (join a b) AND NOT (MASK_64 0xf0)) OR ((push_bit 12 (join a b) OR drop_bit 52 (join c d)) AND MASK_64 0xf0) =
    join ((drop_bit 4 a AND NOT (MASK 0xf0)) OR ((push_bit 12 a OR drop_bit 20 d) AND MASK 0xf0))
      ((drop_bit 4 b AND NOT (MASK 0xf0)) OR ((push_bit 12 b OR drop_bit 20 a) AND MASK 0xf0))"
  "drop_bit 4 (join a b) OR push_bit 60 (join c d) = join (drop_bit 4 a OR push_bit 28 b) (drop_bit 4 b OR push_bit 28 c)"
  by (rule word_bits_eqI; simp add: join_bits flip: numeral_2_eq_2)+

lemma join_f8:
  "push_bit 8 (join a b) OR drop_bit 56 (join c d) = join (push_bit 8 a OR drop_bit 24 d) (push_bit 8 b OR drop_bit 24 a)"
  "drop_bit 8 (join a b) OR push_bit 56 (join c d) = join (drop_bit 8 a OR push_bit 24 b) (drop_bit 8 b OR push_bit 24 c)"
  by (rule word_bits_eqI; simp add: join_bits flip: numeral_2_eq_2)+

lemma join_0 [simp]: "join 0 0 = 0"
  by (simp add: join_def)

lemma join_xor:
  "join a b XOR ucast (t :: u16) = join (a XOR ucast t) b"
  "join a b XOR push_bit 48 (ucast (t :: u16)) = join a (b XOR push_bit 16 (ucast t))"
  by (rule word_bits_eqI; simp add: join_bits flip: numeral_2_eq_2)+

lemma unat_join:
  "unat (drop_bit 63 (join a b) AND 0x01) = unat (drop_bit 31 b AND 0x01)"
  "unat (drop_bit 60 (join a b) AND 0x0f) = unat (drop_bit 28 b AND 0x0f)"
  "unat (drop_bit 56 (join a b)) = unat (drop_bit 24 b)"
  "unat (drop_bit 7 (join a b) AND 0x01) = unat (drop_bit 7 a AND 0x01)"
  "unat (drop_bit 4 (join a b) AND 0x0f) = unat (drop_bit 4 a AND 0x0f)"
  "unat (join a b AND 0xff) = unat (a AND 0xff)"
  "unat (drop_bit 49 (join a b) AND MASK_64 0x80) = unat (drop_bit 17 b AND MASK 0x80)"
  "unat (drop_bit 52 (join a b) AND MASK_64 0xf0) = unat (drop_bit 20 b AND MASK 0xf0)"
  "unat (push_bit 7 (join a b) AND 0x80) = unat (push_bit 7 a AND 0x80)"
  "unat (push_bit 4 (join a b) AND 0xf0) = unat (push_bit 4 a AND 0xf0)"
proof -
  have u: "unat v = unat w" if "v = (ucast w :: u64)" for v and w :: u32
    using that unsigned_less [of w, where ?'a = nat] by (simp add: unsigned_ucast_eq take_bit_nat_eq_self)
  show "unat (drop_bit 63 (join a b) AND 0x01) = unat (drop_bit 31 b AND 0x01)"
    "unat (drop_bit 60 (join a b) AND 0x0f) = unat (drop_bit 28 b AND 0x0f)"
    "unat (drop_bit 56 (join a b)) = unat (drop_bit 24 b)"
    "unat (drop_bit 7 (join a b) AND 0x01) = unat (drop_bit 7 a AND 0x01)"
    "unat (drop_bit 4 (join a b) AND 0x0f) = unat (drop_bit 4 a AND 0x0f)"
    "unat (join a b AND 0xff) = unat (a AND 0xff)"
    "unat (drop_bit 49 (join a b) AND MASK_64 0x80) = unat (drop_bit 17 b AND MASK 0x80)"
    "unat (drop_bit 52 (join a b) AND MASK_64 0xf0) = unat (drop_bit 20 b AND MASK 0xf0)"
    "unat (push_bit 7 (join a b) AND 0x80) = unat (push_bit 7 a AND 0x80)"
    "unat (push_bit 4 (join a b) AND 0xf0) = unat (push_bit 4 a AND 0xf0)"
    by (rule u, rule word_bits_eqI, simp add: join_bits flip: numeral_2_eq_2)+
qed

lemma units_64_join: "units x = [a, b, c, d] \<Longrightarrow> units_64 x = [join a b, join c d]"
  by (simp add: units_def units_64_def ui64_of_def join_def)

lemma of_units_64_join: "of_units_64 [join a b, join c d] = of_units [a, b, c, d]"
proof -
  have "ucast (join p q) = p" "ucast (drop_bit 32 (join p q)) = q" for p q
    by (rule word_bits_eqI, simp add: join_bits flip: numeral_2_eq_2)+
  then show ?thesis by (simp add: of_units_64_def of_units_def ui64_bytes_def)
qed

lemmas join_shifts = join_f1 [simplified] join_f4 [simplified] join_f8 [simplified] join_xor unat_join [simplified]

lemmas steps_64 = rep2_def rep2_in_def rep2_u2_def rep2_d2_def f1_ll_64_def f4_ll_64_def f8_ll_64_def f1_bl_64_def f4_bl_64_def f8_bl_64_def f1_lb_64_def f4_lb_64_def f8_lb_64_def f1_bb_64_def f4_bb_64_def f8_bb_64_def

lemmas mulx_defs_64 = gf_mulx1_64_def gf_mulx4_64_def gf_mulx8_64_def gf_mulx1_ll_64_def gf_mulx4_ll_64_def gf_mulx8_ll_64_def gf_mulx1_bl_64_def gf_mulx4_bl_64_def gf_mulx8_bl_64_def gf_mulx1_lb_64_def gf_mulx4_lb_64_def gf_mulx8_lb_64_def gf_mulx1_bb_64_def gf_mulx4_bb_64_def gf_mulx8_bb_64_def

lemma gf_mulx1_64_eq:
  "gf_mulx1_64 m r x = gf_mulx1 m r x"
proof -
  obtain a b c d where x: "units x = [a, b, c, d]" using units_length list4_cases by metis
  obtain e f g h where r: "units r = [e, f, g, h]" using units_length list4_cases by metis
  note u = x r units_64_join [OF x] units_64_join [OF r] of_units_64_join
  show ?thesis
  proof (cases m)
    case LL
    then show ?thesis
      by (simp add: gf_mulx1_def gf_mulx_defs mulx_defs_64 gf_steps steps_64 u join_shifts Let_def) (simp add: join_f1(1) [where c = 0 and d = 0, simplified] join_xor of_units_64_join)
  next
    case BL
    then show ?thesis
      by (simp add: gf_mulx1_def gf_mulx_defs mulx_defs_64 gf_steps steps_64 u join_shifts Let_def) (simp add: join_f1(2) [where c = 0 and d = 0, simplified] join_xor of_units_64_join)
  next
    case LB
    then show ?thesis
      by (simp add: gf_mulx1_def gf_mulx_defs mulx_defs_64 gf_steps steps_64 u join_shifts Let_def) (simp add: join_f1(3) [where c = 0 and d = 0, simplified] join_xor of_units_64_join)
  next
    case BB
    then show ?thesis
      by (simp add: gf_mulx1_def gf_mulx_defs mulx_defs_64 gf_steps steps_64 u join_shifts Let_def) (simp add: join_f1(4) [where c = 0 and d = 0, simplified] join_xor of_units_64_join)
  qed
qed

lemma gf_mulx4_64_eq:
  "gf_mulx4_64 m x = gf_mulx4 m x"
proof -
  obtain a b c d where x: "units x = [a, b, c, d]" using units_length list4_cases by metis
  note u = x units_64_join [OF x] of_units_64_join
  show ?thesis
  proof (cases m)
    case LL
    then show ?thesis
      by (simp add: gf_mulx4_def gf_mulx_defs mulx_defs_64 gf_steps steps_64 u join_shifts Let_def) (simp add: join_f4(1) [where c = 0 and d = 0, simplified] join_xor of_units_64_join)
  next
    case BL
    then show ?thesis
      by (simp add: gf_mulx4_def gf_mulx_defs mulx_defs_64 gf_steps steps_64 u join_shifts Let_def) (simp add: join_f4(2) [where c = 0 and d = 0, simplified] join_xor of_units_64_join)
  next
    case LB
    then show ?thesis
      by (simp add: gf_mulx4_def gf_mulx_defs mulx_defs_64 gf_steps steps_64 u join_shifts Let_def) (simp add: join_f4(3) [where c = 0 and d = 0, simplified] join_xor of_units_64_join)
  next
    case BB
    then show ?thesis
      by (simp add: gf_mulx4_def gf_mulx_defs mulx_defs_64 gf_steps steps_64 u join_shifts Let_def) (simp add: join_f4(4) [where c = 0 and d = 0, simplified] join_xor of_units_64_join)
  qed
qed

lemma gf_mulx8_64_eq:
  "gf_mulx8_64 m x = gf_mulx8 m x"
proof -
  obtain a b c d where x: "units x = [a, b, c, d]" using units_length list4_cases by metis
  note u = x units_64_join [OF x] of_units_64_join
  show ?thesis
  proof (cases m)
    case LL
    then show ?thesis
      by (simp add: gf_mulx8_def gf_mulx_defs mulx_defs_64 gf_steps steps_64 u join_shifts Let_def) (simp add: join_f8(1) [where c = 0 and d = 0, simplified] join_xor of_units_64_join)
  next
    case BL
    then show ?thesis
      by (simp add: gf_mulx8_def gf_mulx_defs mulx_defs_64 gf_steps steps_64 u join_shifts Let_def) (simp add: join_f8(2) [where c = 0 and d = 0, simplified] join_xor of_units_64_join)
  next
    case LB
    then show ?thesis
      by (simp add: gf_mulx8_def gf_mulx_defs mulx_defs_64 gf_steps steps_64 u join_shifts Let_def) (simp add: join_f8(1) [where c = 0 and d = 0, simplified] join_xor of_units_64_join)
  next
    case BB
    then show ?thesis
      by (simp add: gf_mulx8_def gf_mulx_defs mulx_defs_64 gf_steps steps_64 u join_shifts Let_def) (simp add: join_f8(2) [where c = 0 and d = 0, simplified] join_xor of_units_64_join)
  qed
qed

subsection \<open>32-bit units as four bytes\<close>

lemmas byte_bits = ui32_of_def MASK_def bit_simps bit_beyond bit_times_2 upt_word_bits

lemma bytes_f1:
  "push_bit 1 (ui32_of a b c d) OR drop_bit 31 (ui32_of e f g h) =
    ui32_of (push_bit 1 a OR drop_bit 7 h) (push_bit 1 b OR drop_bit 7 a) (push_bit 1 c OR drop_bit 7 b) (push_bit 1 d OR drop_bit 7 c)"
  "(push_bit 1 (ui32_of a b c d) AND NOT (MASK 0x01)) OR ((drop_bit 15 (ui32_of a b c d) OR push_bit 17 (ui32_of e f g h)) AND MASK 0x01) =
    ui32_of (push_bit 1 a OR drop_bit 7 b) (push_bit 1 b OR drop_bit 7 c) (push_bit 1 c OR drop_bit 7 d) (push_bit 1 d OR drop_bit 7 e)"
  "(drop_bit 1 (ui32_of a b c d) AND NOT (MASK 0x80)) OR ((push_bit 15 (ui32_of a b c d) OR drop_bit 17 (ui32_of e f g h)) AND MASK 0x80) =
    ui32_of (drop_bit 1 a OR push_bit 7 h) (drop_bit 1 b OR push_bit 7 a) (drop_bit 1 c OR push_bit 7 b) (drop_bit 1 d OR push_bit 7 c)"
  "drop_bit 1 (ui32_of a b c d) OR push_bit 31 (ui32_of e f g h) =
    ui32_of (drop_bit 1 a OR push_bit 7 b) (drop_bit 1 b OR push_bit 7 c) (drop_bit 1 c OR push_bit 7 d) (drop_bit 1 d OR push_bit 7 e)"
  by (rule word_bits_eqI; simp add: byte_bits flip: numeral_2_eq_2)+

lemma bytes_f4:
  "push_bit 4 (ui32_of a b c d) OR drop_bit 28 (ui32_of e f g h) =
    ui32_of (push_bit 4 a OR drop_bit 4 h) (push_bit 4 b OR drop_bit 4 a) (push_bit 4 c OR drop_bit 4 b) (push_bit 4 d OR drop_bit 4 c)"
  "(push_bit 4 (ui32_of a b c d) AND NOT (MASK 0x0f)) OR ((drop_bit 12 (ui32_of a b c d) OR push_bit 20 (ui32_of e f g h)) AND MASK 0x0f) =
    ui32_of (push_bit 4 a OR drop_bit 4 b) (push_bit 4 b OR drop_bit 4 c) (push_bit 4 c OR drop_bit 4 d) (push_bit 4 d OR drop_bit 4 e)"
  "(drop_bit 4 (ui32_of a b c d) AND NOT (MASK 0xf0)) OR ((push_bit 12 (ui32_of a b c d) OR drop_bit 20 (ui32_of e f g h)) AND MASK 0xf0) =
    ui32_of (drop_bit 4 a OR push_bit 4 h) (drop_bit 4 b OR push_bit 4 a) (drop_bit 4 c OR push_bit 4 b) (drop_bit 4 d OR push_bit 4 c)"
  "drop_bit 4 (ui32_of a b c d) OR push_bit 28 (ui32_of e f g h) =
    ui32_of (drop_bit 4 a OR push_bit 4 b) (drop_bit 4 b OR push_bit 4 c) (drop_bit 4 c OR push_bit 4 d) (drop_bit 4 d OR push_bit 4 e)"
  by (rule word_bits_eqI; simp add: byte_bits flip: numeral_2_eq_2)+

lemma bytes_f8:
  "push_bit 8 (ui32_of a b c d) OR drop_bit 24 (ui32_of e f g h) = ui32_of h a b c"
  "drop_bit 8 (ui32_of a b c d) OR push_bit 24 (ui32_of e f g h) = ui32_of b c d e"
  by (rule word_bits_eqI; simp add: byte_bits flip: numeral_2_eq_2)+

lemma ui32_of_0 [simp]: "ui32_of 0 0 0 0 = 0"
  by (simp add: ui32_of_def)

lemma bytes_xor:
  "ui32_of a b c d XOR ucast (t :: u16) = ui32_of (a XOR ucast t) (b XOR ucast (drop_bit 8 t)) c d"
  "ui32_of a b c d XOR push_bit 16 (ucast (t :: u16)) = ui32_of a b (c XOR ucast t) (d XOR ucast (drop_bit 8 t))"
  by (rule word_bits_eqI; simp add: byte_bits flip: numeral_2_eq_2)+

lemma low_byte: "ucast ((t :: u16) AND 0xff) = (ucast t :: byte)"
  by (rule word_bits_eqI) (simp add: byte_bits flip: numeral_2_eq_2)

lemma unat_bytes:
  "unat (drop_bit 31 (ui32_of a b c d) AND 0x01) = unat (drop_bit 7 d AND 0x01)"
  "unat (drop_bit 28 (ui32_of a b c d) AND 0x0f) = unat (drop_bit 4 d AND 0x0f)"
  "unat (drop_bit 24 (ui32_of a b c d)) = unat d"
  "unat (drop_bit 7 (ui32_of a b c d) AND 0x01) = unat (drop_bit 7 a AND 0x01)"
  "unat (drop_bit 4 (ui32_of a b c d) AND 0x0f) = unat (drop_bit 4 a AND 0x0f)"
  "unat (ui32_of a b c d AND 0xff) = unat a"
  "unat (drop_bit 17 (ui32_of a b c d) AND MASK 0x80) = unat (push_bit 7 d AND 0x80)"
  "unat (drop_bit 20 (ui32_of a b c d) AND MASK 0xf0) = unat (push_bit 4 d AND 0xf0)"
  "unat (push_bit 7 (ui32_of a b c d) AND 0x80) = unat (push_bit 7 a AND 0x80)"
  "unat (push_bit 4 (ui32_of a b c d) AND 0xf0) = unat (push_bit 4 a AND 0xf0)"
proof -
  have u: "unat v = unat w" if "v = (ucast w :: u32)" for v and w :: byte
    using that unsigned_less [of w, where ?'a = nat] by (simp add: unsigned_ucast_eq take_bit_nat_eq_self)
  show "unat (drop_bit 31 (ui32_of a b c d) AND 0x01) = unat (drop_bit 7 d AND 0x01)"
    "unat (drop_bit 28 (ui32_of a b c d) AND 0x0f) = unat (drop_bit 4 d AND 0x0f)"
    "unat (drop_bit 24 (ui32_of a b c d)) = unat d"
    "unat (drop_bit 7 (ui32_of a b c d) AND 0x01) = unat (drop_bit 7 a AND 0x01)"
    "unat (drop_bit 4 (ui32_of a b c d) AND 0x0f) = unat (drop_bit 4 a AND 0x0f)"
    "unat (ui32_of a b c d AND 0xff) = unat a"
    "unat (drop_bit 17 (ui32_of a b c d) AND MASK 0x80) = unat (push_bit 7 d AND 0x80)"
    "unat (drop_bit 20 (ui32_of a b c d) AND MASK 0xf0) = unat (push_bit 4 d AND 0xf0)"
    "unat (push_bit 7 (ui32_of a b c d) AND 0x80) = unat (push_bit 7 a AND 0x80)"
    "unat (push_bit 4 (ui32_of a b c d) AND 0xf0) = unat (push_bit 4 a AND 0xf0)"
    by (rule u, rule word_bits_eqI, simp add: byte_bits flip: numeral_2_eq_2)+
qed

text \<open>A single bit selects a table entry that lies in one byte.\<close>

lemma gf_tab_byte: "gf_tab m ! unat (b :: byte) = gf_uint16_xor m b"
  using unsigned_less [of b, where ?'a = nat] by (simp add: gf_tab_def DATA_256_def)

lemma gf_tab_one_bit:
  "ucast (drop_bit 8 (gf_tab LL ! unat (drop_bit 7 w AND 0x01 :: byte))) = (0 :: byte)"
  "ucast (gf_tab BL ! unat (drop_bit 7 w AND 0x01 :: byte)) = (0 :: byte)"
  "ucast (drop_bit 8 (gf_tab LB ! unat (push_bit 7 w AND 0x80 :: byte))) = (0 :: byte)"
  "ucast (gf_tab BB ! unat (push_bit 7 w AND 0x80 :: byte)) = (0 :: byte)"
  by (subst gf_tab_byte; rule word_bits_eqI; simp add: tab_bits split del: if_split flip: numeral_2_eq_2)+

lemmas bytes_shifts = bytes_f1 [simplified] bytes_f4 [simplified] bytes_f8 [simplified] bytes_xor unat_bytes [simplified]
  gf_tab_one_bit [simplified] low_byte

lemmas steps_8 = rep2_def rep2_in_def rep2_u16_def rep2_d16_def f1_ll_8_def f4_ll_8_def f1_bl_8_def f4_bl_8_def f1_lb_8_def f4_lb_8_def f1_bb_8_def f4_bb_8_def

lemmas mulx_defs_8 = gf_mulx1_8_def gf_mulx4_8_def gf_mulx8_8_def gf_mulx1_ll_8_def gf_mulx4_ll_8_def gf_mulx8_ll_8_def gf_mulx1_bl_8_def gf_mulx4_bl_8_def gf_mulx8_bl_8_def gf_mulx1_lb_8_def gf_mulx4_lb_8_def gf_mulx8_lb_8_def gf_mulx1_bb_8_def gf_mulx4_bb_8_def gf_mulx8_bb_8_def

lemma block_cases:
  assumes "length (x :: block) = 16"
  obtains x0 x1 x2 x3 x4 x5 x6 x7 x8 x9 x10 x11 x12 x13 x14 x15 where "x = [x0, x1, x2, x3, x4, x5, x6, x7, x8, x9, x10, x11, x12, x13, x14, x15]"
    "units x = [ui32_of x0 x1 x2 x3, ui32_of x4 x5 x6 x7, ui32_of x8 x9 x10 x11, ui32_of x12 x13 x14 x15]"
proof -
  obtain x0 x1 x2 x3 x4 x5 x6 x7 x8 x9 x10 x11 x12 x13 x14 x15 where "x = [x0, x1, x2, x3, x4, x5, x6, x7, x8, x9, x10, x11, x12, x13, x14, x15]"
    using assms by (auto simp: length_Suc_conv numeral_eq_Suc)
  then show ?thesis by (intro that) (simp_all add: units_def ui32_at_def)
qed

lemma gf_mulx1_8_eq:
  assumes "length x = 16" "length r = 16"
  shows "gf_mulx1_8 m r x = gf_mulx1 m r x"
proof -
  obtain x0 x1 x2 x3 x4 x5 x6 x7 x8 x9 x10 x11 x12 x13 x14 x15 where x: "x = [x0, x1, x2, x3, x4, x5, x6, x7, x8, x9, x10, x11, x12, x13, x14, x15]"
    "units x = [ui32_of x0 x1 x2 x3, ui32_of x4 x5 x6 x7, ui32_of x8 x9 x10 x11, ui32_of x12 x13 x14 x15]" by (rule block_cases [OF assms(1)])
  obtain r0 r1 r2 r3 r4 r5 r6 r7 r8 r9 r10 r11 r12 r13 r14 r15 where r: "r = [r0, r1, r2, r3, r4, r5, r6, r7, r8, r9, r10, r11, r12, r13, r14, r15]"
    "units r = [ui32_of r0 r1 r2 r3, ui32_of r4 r5 r6 r7, ui32_of r8 r9 r10 r11, ui32_of r12 r13 r14 r15]" by (rule block_cases [OF assms(2)])
  show ?thesis
  proof (cases m)
    case LL
    then show ?thesis
      by (simp add: gf_mulx1_def gf_mulx_defs mulx_defs_8 gf_steps steps_8 x(2) r(2) bytes_shifts of_units_def Let_def) (simp add: bytes_f1(1) [where e = 0 and f = 0 and g = 0 and h = 0, simplified] bytes_xor x(1) r(1) gf_tab_one_bit [simplified])
  next
    case BL
    then show ?thesis
      by (simp add: gf_mulx1_def gf_mulx_defs mulx_defs_8 gf_steps steps_8 x(2) r(2) bytes_shifts of_units_def Let_def) (simp add: bytes_f1(2) [where e = 0 and f = 0 and g = 0 and h = 0, simplified] bytes_xor x(1) r(1) gf_tab_one_bit [simplified])
  next
    case LB
    then show ?thesis
      by (simp add: gf_mulx1_def gf_mulx_defs mulx_defs_8 gf_steps steps_8 x(2) r(2) bytes_shifts of_units_def Let_def) (simp add: bytes_f1(3) [where e = 0 and f = 0 and g = 0 and h = 0, simplified] bytes_xor x(1) r(1) gf_tab_one_bit [simplified])
  next
    case BB
    then show ?thesis
      by (simp add: gf_mulx1_def gf_mulx_defs mulx_defs_8 gf_steps steps_8 x(2) r(2) bytes_shifts of_units_def Let_def) (simp add: bytes_f1(4) [where e = 0 and f = 0 and g = 0 and h = 0, simplified] bytes_xor x(1) r(1) gf_tab_one_bit [simplified])
  qed
qed

lemma gf_mulx4_8_eq:
  assumes "length x = 16"
  shows "gf_mulx4_8 m x = gf_mulx4 m x"
proof -
  obtain x0 x1 x2 x3 x4 x5 x6 x7 x8 x9 x10 x11 x12 x13 x14 x15 where x: "x = [x0, x1, x2, x3, x4, x5, x6, x7, x8, x9, x10, x11, x12, x13, x14, x15]"
    "units x = [ui32_of x0 x1 x2 x3, ui32_of x4 x5 x6 x7, ui32_of x8 x9 x10 x11, ui32_of x12 x13 x14 x15]" by (rule block_cases [OF assms])
  show ?thesis
  proof (cases m)
    case LL
    then show ?thesis
      by (simp add: gf_mulx4_def gf_mulx_defs mulx_defs_8 gf_steps steps_8 x(2) bytes_shifts of_units_def Let_def) (simp add: bytes_f4(1) [where e = 0 and f = 0 and g = 0 and h = 0, simplified] bytes_xor x(1) gf_tab_one_bit [simplified])
  next
    case BL
    then show ?thesis
      by (simp add: gf_mulx4_def gf_mulx_defs mulx_defs_8 gf_steps steps_8 x(2) bytes_shifts of_units_def Let_def) (simp add: bytes_f4(2) [where e = 0 and f = 0 and g = 0 and h = 0, simplified] bytes_xor x(1) gf_tab_one_bit [simplified])
  next
    case LB
    then show ?thesis
      by (simp add: gf_mulx4_def gf_mulx_defs mulx_defs_8 gf_steps steps_8 x(2) bytes_shifts of_units_def Let_def) (simp add: bytes_f4(3) [where e = 0 and f = 0 and g = 0 and h = 0, simplified] bytes_xor x(1) gf_tab_one_bit [simplified])
  next
    case BB
    then show ?thesis
      by (simp add: gf_mulx4_def gf_mulx_defs mulx_defs_8 gf_steps steps_8 x(2) bytes_shifts of_units_def Let_def) (simp add: bytes_f4(4) [where e = 0 and f = 0 and g = 0 and h = 0, simplified] bytes_xor x(1) gf_tab_one_bit [simplified])
  qed
qed

lemma gf_mulx8_8_eq:
  assumes "length x = 16"
  shows "gf_mulx8_8 m x = gf_mulx8 m x"
proof -
  obtain x0 x1 x2 x3 x4 x5 x6 x7 x8 x9 x10 x11 x12 x13 x14 x15 where x: "x = [x0, x1, x2, x3, x4, x5, x6, x7, x8, x9, x10, x11, x12, x13, x14, x15]"
    "units x = [ui32_of x0 x1 x2 x3, ui32_of x4 x5 x6 x7, ui32_of x8 x9 x10 x11, ui32_of x12 x13 x14 x15]" by (rule block_cases [OF assms])
  show ?thesis
  proof (cases m)
    case LL
    then show ?thesis
      by (simp add: gf_mulx8_def gf_mulx_defs mulx_defs_8 gf_steps steps_8 x(2) bytes_shifts of_units_def Let_def) (simp add: bytes_f8(1) [where e = 0 and f = 0 and g = 0 and h = 0, simplified] bytes_xor x(1) gf_tab_one_bit [simplified])
  next
    case BL
    then show ?thesis
      by (simp add: gf_mulx8_def gf_mulx_defs mulx_defs_8 gf_steps steps_8 x(2) bytes_shifts of_units_def Let_def) (simp add: bytes_f8(2) [where e = 0 and f = 0 and g = 0 and h = 0, simplified] bytes_xor x(1) gf_tab_one_bit [simplified])
  next
    case LB
    then show ?thesis
      by (simp add: gf_mulx8_def gf_mulx_defs mulx_defs_8 gf_steps steps_8 x(2) bytes_shifts of_units_def Let_def) (simp add: bytes_f8(1) [where e = 0 and f = 0 and g = 0 and h = 0, simplified] bytes_xor x(1) gf_tab_one_bit [simplified])
  next
    case BB
    then show ?thesis
      by (simp add: gf_mulx8_def gf_mulx_defs mulx_defs_8 gf_steps steps_8 x(2) bytes_shifts of_units_def Let_def) (simp add: bytes_f8(2) [where e = 0 and f = 0 and g = 0 and h = 0, simplified] bytes_xor x(1) gf_tab_one_bit [simplified])
  qed
qed

text \<open>
  C27. Unit sizes. In every representation the primitives for units of 8 and of 64 bits
  produce the same block as those for the 32-bit units of the target, whatever the
  destination of \<open>gf_mulx1\<close> held before, and this block is the product of the field element
  by the first, fourth and eighth power of \<open>x\<close>.
\<close>

theorem gf_mulx_unit_sizes:
  assumes "length r = 16" "length x = 16"
  shows "gf_mulx1_8 m r x = gf_mulx1 m r x \<and> gf_mulx1_64 m r x = gf_mulx1 m r x \<and> gf_val m (gf_mulx1 m r x) = gmulx (gf_val m x) \<and>
    gf_mulx4_8 m x = gf_mulx4 m x \<and> gf_mulx4_64 m x = gf_mulx4 m x \<and> gf_val m (gf_mulx4 m x) = (gmulx ^^ 4) (gf_val m x) \<and>
    gf_mulx8_8 m x = gf_mulx8 m x \<and> gf_mulx8_64 m x = gf_mulx8 m x \<and> gf_val m (gf_mulx8 m x) = (gmulx ^^ 8) (gf_val m x)"
  using assms by (simp add: gf_mulx1_8_eq gf_mulx4_8_eq gf_mulx8_8_eq gf_mulx1_64_eq gf_mulx4_64_eq gf_mulx8_64_eq gf_mulx1_val gf_mulx4_val gf_mulx8_val)

theorem gf_mulx_unit_sizes_witness:
  "gf_mulx8_8 LB (replicate 16 0x5A) = gf_mulx8_64 LB (replicate 16 0x5A) \<and>
    gf_val LB (gf_mulx8_8 LB (replicate 16 0x5A)) = (gmulx ^^ 8) (gf_val LB (replicate 16 0x5A))"
proof -
  have "length (replicate 16 (0 :: byte)) = 16" "length (replicate 16 (0x5A :: byte)) = 16" by simp_all
  from gf_mulx_unit_sizes [OF this, of LB] show ?thesis by (elim conjE) (simp only:)
qed

end
