(* ===== verification/Ping_Client.thy ===== *)
theory Ping_Client
  imports Prelude
begin

text \<open>
  The ping responder of \<open>vm_virtio_net\<close>, \<open>components/PingClient/ping_client.c\<close>: ARP and echo replies
  built in a buffer on the stack and sent through a virtqueue. A buffer is a list of bytes,
  the fields of the packet headers are offsets in it, and 16-bit fields are little-endian
  in memory. The contents of the stack buffer before a call are an argument. The virtqueue
  library is not part of the repository: its functions are the fields of \<open>vq_ops\<close>, over an
  arbitrary state. Reading past a received packet or writing past a buffer gives no result.
\<close>

subsection \<open>Memory\<close>

definition get_bytes :: "byte list \<Rightarrow> nat \<Rightarrow> nat \<Rightarrow> byte list" where
  "get_bytes b i n = take n (drop i b)"

definition put_at :: "byte list \<Rightarrow> nat \<Rightarrow> byte list \<Rightarrow> byte list" where
  "put_at b i vs = take i b @ vs @ drop (i + length vs) b"

definition get16 :: "byte list \<Rightarrow> nat \<Rightarrow> u16" where
  "get16 b i = ucast (b ! i) + push_bit 8 (ucast (b ! (i + 1)))"

definition put16 :: "byte list \<Rightarrow> nat \<Rightarrow> u16 \<Rightarrow> byte list" where
  "put16 b i w = put_at b i [ucast w, ucast (drop_bit 8 w)]"

definition htons :: "u16 \<Rightarrow> u16" where
  "htons w = push_bit 8 w OR drop_bit 8 w"

text \<open>Constants and header layouts of the network headers the file includes.\<close>

definition ETHERMTU :: nat where "ETHERMTU = 1500"
definition ETH_ALEN :: nat where "ETH_ALEN = 6"
definition ETH_P_IP :: u16 where "ETH_P_IP = 0x0800"
definition ETH_P_ARP :: u16 where "ETH_P_ARP = 0x0806"
definition ARPHRD_ETHER :: u16 where "ARPHRD_ETHER = 1"
definition ARPOP_REPLY :: u16 where "ARPOP_REPLY = 2"
definition ICMP_ECHOREPLY :: byte where "ICMP_ECHOREPLY = 0"
definition sizeof_ethhdr :: nat where "sizeof_ethhdr = 14"
definition sizeof_ether_arp :: nat where "sizeof_ether_arp = 28"
definition sizeof_iphdr :: nat where "sizeof_iphdr = 20"
definition sizeof_icmphdr :: nat where "sizeof_icmphdr = 8"
definition ICMP_MSG_SIZE :: nat where "ICMP_MSG_SIZE = 64 - sizeof_icmphdr"
definition IPV4_LENGTH :: nat where "IPV4_LENGTH = 4"

definition h_dest :: nat where "h_dest = 0"
definition h_source :: nat where "h_source = 6"
definition h_proto :: nat where "h_proto = 12"
definition ar_hrd :: nat where "ar_hrd = sizeof_ethhdr + 0"
definition ar_pro :: nat where "ar_pro = sizeof_ethhdr + 2"
definition ar_hln :: nat where "ar_hln = sizeof_ethhdr + 4"
definition ar_pln :: nat where "ar_pln = sizeof_ethhdr + 5"
definition ar_op :: nat where "ar_op = sizeof_ethhdr + 6"
definition arp_sha :: nat where "arp_sha = sizeof_ethhdr + 8"
definition arp_spa :: nat where "arp_spa = sizeof_ethhdr + 14"
definition arp_tha :: nat where "arp_tha = sizeof_ethhdr + 18"
definition arp_tpa :: nat where "arp_tpa = sizeof_ethhdr + 24"
definition ip_hdr :: nat where "ip_hdr = sizeof_ethhdr"
definition ip_check :: nat where "ip_check = ip_hdr + 10"
definition ip_saddr :: nat where "ip_saddr = ip_hdr + 12"
definition ip_daddr :: nat where "ip_daddr = ip_hdr + 16"
definition icmp_hdr :: nat where "icmp_hdr = sizeof_ethhdr + sizeof_iphdr"
definition icmp_type :: nat where "icmp_type = icmp_hdr + 0"
definition icmp_checksum :: nat where "icmp_checksum = icmp_hdr + 2"
definition icmp_id :: nat where "icmp_id = icmp_hdr + 4"
definition icmp_sequence :: nat where "icmp_sequence = icmp_hdr + 6"
definition icmp_msg :: nat where "icmp_msg = icmp_hdr + sizeof_icmphdr"

lemmas layout_defs = ETHERMTU_def ETH_ALEN_def sizeof_ethhdr_def sizeof_ether_arp_def sizeof_iphdr_def sizeof_icmphdr_def
  ICMP_MSG_SIZE_def IPV4_LENGTH_def h_dest_def h_source_def h_proto_def ar_hrd_def ar_pro_def ar_hln_def ar_pln_def ar_op_def
  arp_sha_def arp_spa_def arp_tha_def arp_tpa_def ip_hdr_def ip_check_def ip_saddr_def ip_daddr_def icmp_hdr_def icmp_type_def
  icmp_checksum_def icmp_id_def icmp_sequence_def icmp_msg_def

subsection \<open>The checksum\<close>

function checksum_loop :: "byte list \<Rightarrow> nat \<Rightarrow> u32 \<Rightarrow> nat \<times> u32" where
  "checksum_loop data i s =
    (if i < length data - 1 then checksum_loop data (i + 2) (s + ucast (get16 data i)) else (i, s))"
  by auto
termination by (relation "measure (\<lambda>(data, i, _). length data - i)") auto

declare checksum_loop.simps [simp del]

text \<open>On no data the bound \<open>length - 1\<close> wraps around and the loop leaves the buffer.\<close>

definition one_comp_checksum :: "byte list \<Rightarrow> u16 option" where
  "one_comp_checksum data =
    (if data = [] then None
     else
       let (i, s) = checksum_loop data 0 0;
           s = (if odd (length data) then s + ucast (data ! i) else s);
           s = drop_bit 16 s + (s AND 0xFFFF);
           s = s + drop_bit 16 s
       in Some (ucast (NOT s)))"

subsection \<open>Replies\<close>

record 'v vq_ops =
  vq_buffer_alloc :: "nat \<Rightarrow> 'v \<Rightarrow> int \<times> nat \<times> 'v"
  vq_send_buffer :: "nat \<Rightarrow> byte list \<Rightarrow> 'v \<Rightarrow> int \<times> 'v"
  vq_buffer_free :: "nat \<Rightarrow> 'v \<Rightarrow> 'v"
  send_notify :: "'v \<Rightarrow> 'v"
  vq_get_available_buf :: "'v \<Rightarrow> bool \<times> 'v"
  vq_device_gather :: "'v \<Rightarrow> int \<times> byte list \<times> 'v"
  vq_add_used_buf :: "'v \<Rightarrow> bool \<times> 'v"
  recv_notify :: "'v \<Rightarrow> 'v"
  vq_get_used_buf :: "'v \<Rightarrow> bool \<times> 'v"
  vq_driver_gather :: "'v \<Rightarrow> int \<times> nat \<times> 'v"
  vq_dev_poll :: "'v \<Rightarrow> bool"
  vq_drv_poll :: "'v \<Rightarrow> bool"
  vq_device_init :: "nat \<Rightarrow> 'v \<Rightarrow> int \<times> 'v"
  vq_driver_init :: "nat \<Rightarrow> 'v \<Rightarrow> int \<times> 'v"

definition send_outgoing_packet :: "'v vq_ops \<Rightarrow> byte list \<Rightarrow> 'v \<Rightarrow> int \<times> 'v" where
  "send_outgoing_packet ops outgoing_data v =
    (let (err, buf, v) = vq_buffer_alloc ops (length outgoing_data) v in
     if err \<noteq> 0 then (-1, v)
     else
       let (r, v) = vq_send_buffer ops buf outgoing_data v in
       if r \<noteq> 0 then (-1, vq_buffer_free ops buf v)
       else (0, send_notify ops v))"

text \<open>An ARP reply.\<close>

definition arp_fields :: "byte list \<Rightarrow> byte list \<Rightarrow> byte list" where
  "arp_fields reply_buffer recv_data =
    (let b = put_at reply_buffer h_dest (get_bytes recv_data arp_sha ETH_ALEN);
         b = put16 b h_proto (htons ETH_P_ARP);
         b = put_at b arp_tha (get_bytes recv_data arp_sha ETH_ALEN);
         b = put_at b arp_sha (get_bytes recv_data arp_sha ETH_ALEN);
         b = b[arp_sha + 5 := b ! (arp_sha + 5) + 2];
         b = put_at b h_source (get_bytes b arp_sha ETH_ALEN);
         b = foldl (\<lambda>b i. b[arp_spa + i := recv_data ! (arp_tpa + i)]) b [0..<IPV4_LENGTH];
         b = foldl (\<lambda>b i. b[arp_tpa + i := recv_data ! (arp_spa + i)]) b [0..<IPV4_LENGTH];
         b = put16 b ar_hrd (htons ARPHRD_ETHER);
         b = put16 b ar_pro (htons ETH_P_IP);
         b = put16 b ar_op (htons ARPOP_REPLY);
         b = b[ar_hln := word_of_nat ETH_ALEN]
     in b[ar_pln := word_of_nat IPV4_LENGTH])"

definition create_arp_req_reply :: "'v vq_ops \<Rightarrow> byte list \<Rightarrow> byte list \<Rightarrow> 'v \<Rightarrow> (int \<times> 'v) option" where
  "create_arp_req_reply ops reply_buffer recv_data v =
    (if length recv_data < sizeof_ethhdr + sizeof_ether_arp \<or> length reply_buffer \<noteq> ETHERMTU then None
     else Some (send_outgoing_packet ops (take (sizeof_ethhdr + sizeof_ether_arp) (arp_fields reply_buffer recv_data)) v))"

text \<open>An echo reply before its checksums.\<close>

definition echo_fields :: "byte list \<Rightarrow> byte list \<Rightarrow> byte list" where
  "echo_fields reply_buffer recv_data =
    (let b = put_at reply_buffer h_dest (get_bytes recv_data h_source ETH_ALEN);
         b = put_at b h_source (get_bytes recv_data h_dest ETH_ALEN);
         b = put16 b h_proto (htons ETH_P_IP);
         b = put_at b ip_hdr (get_bytes recv_data ip_hdr sizeof_iphdr);
         saddr = get_bytes b ip_saddr 4;
         b = put_at b ip_saddr (get_bytes b ip_daddr 4);
         b = put_at b ip_daddr saddr;
         b = put_at b icmp_sequence (get_bytes recv_data icmp_sequence 2);
         b = put_at b icmp_id (get_bytes recv_data icmp_id 2);
         b = b[icmp_type := ICMP_ECHOREPLY];
         b = put_at b icmp_msg (get_bytes recv_data icmp_msg ICMP_MSG_SIZE)
     in put16 b icmp_checksum 0)"

definition create_icmp_req_reply :: "'v vq_ops \<Rightarrow> byte list \<Rightarrow> byte list \<Rightarrow> 'v \<Rightarrow> (int \<times> 'v) option" where
  "create_icmp_req_reply ops reply_buffer recv_data v =
    (if length recv_data < icmp_msg + ICMP_MSG_SIZE \<or> length reply_buffer \<noteq> ETHERMTU then None
     else
       let b = echo_fields reply_buffer recv_data
       in do {
         c \<leftarrow> one_comp_checksum (get_bytes b icmp_hdr (sizeof_icmphdr + ICMP_MSG_SIZE));
         let b = put16 b icmp_checksum c;
         let b = put16 b ip_check 0;
         c \<leftarrow> one_comp_checksum (get_bytes b ip_hdr sizeof_iphdr);
         let b = put16 b ip_check c;
         Some (send_outgoing_packet ops (take (icmp_msg + ICMP_MSG_SIZE) b) v) })"

subsection \<open>Callbacks\<close>

text \<open>The packet is also copied to the stack and printed; only the copy's bound matters here.\<close>

definition handle_recv_data :: "'v vq_ops \<Rightarrow> byte list \<Rightarrow> byte list \<Rightarrow> 'v \<Rightarrow> 'v option" where
  "handle_recv_data ops reply_buffer recv_data v =
    (if length recv_data < sizeof_ethhdr then None
     else if htons (get16 recv_data h_proto) = ETH_P_ARP
     then map_option snd (create_arp_req_reply ops reply_buffer recv_data v)
     else if htons (get16 recv_data h_proto) = ETH_P_IP
     then (if ETHERMTU < length recv_data - sizeof_ethhdr then None
           else map_option snd (create_icmp_req_reply ops reply_buffer recv_data v))
     else Some v)"

partial_function (option) recv_loop :: "'v vq_ops \<Rightarrow> ('v \<Rightarrow> byte list) \<Rightarrow> 'v \<Rightarrow> 'v option" where
  "recv_loop ops stack v =
    (let (r, buf, v) = vq_device_gather ops v in
     if 0 \<le> r then do { v \<leftarrow> handle_recv_data ops (stack v) buf v; recv_loop ops stack v } else Some v)"

definition handle_recv_callback :: "'v vq_ops \<Rightarrow> ('v \<Rightarrow> byte list) \<Rightarrow> 'v \<Rightarrow> 'v option" where
  "handle_recv_callback ops stack v =
    (let (ok, v) = vq_get_available_buf ops v in
     if \<not> ok then Some v
     else do {
       v \<leftarrow> recv_loop ops stack v;
       let (ok, v) = vq_add_used_buf ops v;
       Some (if \<not> ok then v else recv_notify ops v) })"

partial_function (option) send_loop :: "'v vq_ops \<Rightarrow> 'v \<Rightarrow> 'v option" where
  "send_loop ops v =
    (let (r, buf, v) = vq_driver_gather ops v in
     if 0 \<le> r then send_loop ops (vq_buffer_free ops buf v) else Some v)"

definition handle_send_callback :: "'v vq_ops \<Rightarrow> 'v \<Rightarrow> 'v option" where
  "handle_send_callback ops v =
    (let (ok, v) = vq_get_used_buf ops v in if \<not> ok then Some v else send_loop ops v)"

definition ping_wait_callback :: "'v vq_ops \<Rightarrow> ('v \<Rightarrow> byte list) \<Rightarrow> 'v \<Rightarrow> 'v option" where
  "ping_wait_callback ops stack v = do {
     v \<leftarrow> (if vq_dev_poll ops v then handle_recv_callback ops stack v else Some v);
     if vq_drv_poll ops v then handle_send_callback ops v else Some v }"

definition ping_run :: "'v vq_ops \<Rightarrow> 'v \<Rightarrow> int \<times> 'v" where
  "ping_run ops v =
    (let (err, v) = vq_device_init ops 0 v in
     if err \<noteq> 0 then (1, v)
     else
       let (err, v) = vq_driver_init ops 1 v in
       if err \<noteq> 0 then (1, v) else (0, v))"

subsection \<open>Reading back what was written\<close>

lemma put_at_length [simp]: "i + length vs \<le> length b \<Longrightarrow> length (put_at b i vs) = length b"
  by (simp add: put_at_def)

lemma get_bytes_length [simp]: "i + n \<le> length b \<Longrightarrow> length (get_bytes b i n) = n"
  by (simp add: get_bytes_def)

lemma put_at_nth:
  "i + length vs \<le> length b \<Longrightarrow> k < length b \<Longrightarrow>
    put_at b i vs ! k = (if i \<le> k \<and> k < i + length vs then vs ! (k - i) else b ! k)"
  by (auto simp: put_at_def nth_append)

lemma get_bytes_nth [simp]: "k < n \<Longrightarrow> i + n \<le> length b \<Longrightarrow> get_bytes b i n ! k = b ! (i + k)"
  by (simp add: get_bytes_def)

lemma get_put_same: "n = length vs \<Longrightarrow> i + n \<le> length b \<Longrightarrow> get_bytes (put_at b i vs) i n = vs"
  by (intro nth_equalityI) (simp_all add: put_at_nth)

lemma get_put_other:
  "j + n \<le> i \<or> i + length vs \<le> j \<Longrightarrow> i + length vs \<le> length b \<Longrightarrow> j + n \<le> length b \<Longrightarrow>
    get_bytes (put_at b i vs) j n = get_bytes b j n"
  by (intro nth_equalityI) (auto simp: put_at_nth)

lemma get_put_inside:
  "i \<le> j \<Longrightarrow> j + length vs \<le> i + n \<Longrightarrow> i + n \<le> length b \<Longrightarrow> get_bytes (put_at b j vs) i n = put_at (get_bytes b i n) (j - i) vs"
  by (intro nth_equalityI) (auto simp: put_at_nth add.commute)

lemma get_put_part:
  "i \<le> j \<Longrightarrow> j + n \<le> i + length vs \<Longrightarrow> i + length vs \<le> length b \<Longrightarrow> get_bytes (put_at b i vs) j n = get_bytes vs (j - i) n"
  by (intro nth_equalityI) (auto simp: put_at_nth)

lemma get_update_same: "i < length b \<Longrightarrow> get_bytes (b[i := v]) i 1 = [v]"
  by (simp add: get_bytes_def drop_update_cancel take_Suc hd_drop_conv_nth)

lemma get_update_other: "i < j \<or> j + n \<le> i \<Longrightarrow> j + n \<le> length b \<Longrightarrow> get_bytes (b[i := v]) j n = get_bytes b j n"
  by (intro nth_equalityI) (auto simp: nth_list_update)

lemma get_take: "j + n \<le> m \<Longrightarrow> get_bytes (take m b) j n = get_bytes b j n"
  by (simp add: get_bytes_def drop_take min_def)

lemma get_get: "j + n \<le> m \<Longrightarrow> get_bytes (get_bytes b i m) j n = get_bytes b (i + j) n"
  by (simp add: get_bytes_def drop_take min_def add.commute)

lemma get16_bytes: "i + 2 \<le> length b \<Longrightarrow> get16 b i = get16 (get_bytes b i 2) 0"
  by (simp add: get16_def)

subsection \<open>The checksum is the one of RFC 1071\<close>

text \<open>The sum of the 16-bit words, an odd byte at the end counting as a word of its own.\<close>

definition word_sum :: "byte list \<Rightarrow> nat" where
  "word_sum d = (\<Sum>i<length d div 2. unat (get16 d (2 * i))) + (if odd (length d) then unat (d ! (length d - 1)) else 0)"

lemma checksum_loop_sum:
  "k \<le> length d div 2 \<Longrightarrow> checksum_loop d (2 * k) s = (2 * (length d div 2), s + word_of_nat (\<Sum>i\<in>{k..<length d div 2}. unat (get16 d (2 * i))))"
proof (induction "length d div 2 - k" arbitrary: k s)
  case 0
  then show ?case by (subst checksum_loop.simps) auto
next
  case (Suc m)
  then have k: "k < length d div 2" "2 * k < length d - 1" by auto
  have "checksum_loop d (2 * k) s = checksum_loop d (2 * Suc k) (s + ucast (get16 d (2 * k)))"
    using k(2) by (subst checksum_loop.simps) simp
  also have "\<dots> = (2 * (length d div 2), s + ucast (get16 d (2 * k)) + word_of_nat (\<Sum>i\<in>{Suc k..<length d div 2}. unat (get16 d (2 * i))))"
    using Suc k(1) by (intro Suc.hyps(1)) auto
  also have "ucast (get16 d (2 * k)) = (word_of_nat (unat (get16 d (2 * k))) :: u32)" by (simp add: of_nat_unat)
  finally show ?case using k(1) by (simp add: sum.atLeast_Suc_lessThan)
qed

lemma fold_nat:
  fixes n :: nat
  assumes "n < 2 ^ 32"
  defines "m \<equiv> n div 65536 + n mod 65536"
  shows "(m + m div 65536) mod 65536 = (if n = 0 then 0 else (n - 1) mod 65535 + 1)"
proof -
  define h where "h = n div 65536"
  have n: "n = 65535 * h + m" by (simp add: m_def h_def)
  have "h < 65536" using assms(1) by (simp add: h_def)
  moreover have "n mod 65536 < 65536" by simp
  ultimately have m: "m \<le> 131070" unfolding m_def h_def by linarith
  have r: "(n - 1) mod 65535 = (m - 1) mod 65535" if "0 < m"
  proof -
    have "n - 1 = 65535 * h + (m - 1)" using n that by simp
    then show ?thesis by simp
  qed
  consider "m = 0" | "0 < m" "m < 65536" | "65536 \<le> m" by linarith
  then show ?thesis
  proof cases
    case 1
    then have "n = 0" using div_mult_mod_eq [of n 65536] by (simp add: m_def)
    with 1 show ?thesis by simp
  next
    case 2
    then have "n \<noteq> 0" "(m - 1) mod 65535 = m - 1" using n by auto
    with 2 r show ?thesis by simp
  next
    case 3
    then have "m div 65536 = 1" using m by (intro div_nat_eqI) simp_all
    moreover have "(m - 1) mod 65535 = m - 1 - 65535" using 3 m by (simp add: mod_if)
    moreover have "(m + 1) mod 65536 = m + 1 - 65536" using 3 m by (simp add: mod_if)
    moreover have "n \<noteq> 0" using n 3 by auto
    moreover have "m + 1 - 65536 = m - 1 - 65535 + 1" using 3 by linarith
    ultimately show ?thesis using r 3 by simp
  qed
qed

lemma ucast_not16: "(ucast (NOT w) :: u16) = NOT (ucast (w :: u32))"
  by (rule word_bits_eqI) (simp add: bit_simps upt_word_bits)

lemma unat_not16: "unat (NOT x :: u16) = 65535 - unat x"
proof -
  have "NOT x = 0xFFFF - x" by (simp add: not_eq_complement)
  moreover have "x \<le> 0xFFFF" using unsigned_less [of x, where ?'a = nat] by (simp add: word_le_nat_alt)
  ultimately show ?thesis by (simp add: unat_sub)
qed

lemma checksum_fold:
  assumes "n < 2 ^ 32"
  shows "unat (ucast (NOT (let s = word_of_nat n :: u32; s = drop_bit 16 s + (s AND 0xFFFF) in s + drop_bit 16 s)) :: u16) =
    65535 - (if n = 0 then 0 else (n - 1) mod 65535 + 1)"
proof -
  let ?s = "word_of_nat n :: u32"
  define m where "m = n div 65536 + n mod 65536"
  have s: "unat ?s = n" using assms by (simp add: unat_of_nat take_bit_nat_eq_self)
  have h: "unat (drop_bit 16 w) = unat w div 65536" for w :: u32
    using take_bit_nat_eq_self [of "unat w" 32] unsigned_less [of w, where ?'a = nat]
    by (simp add: unsigned_drop_bit_eq drop_bit_eq_div [where ?'a = nat])
  have l: "unat (w AND 0xFFFF) = unat w mod 65536" for w :: u32
    using take_bit_eq_mask [of 16 w] unsigned_take_bit_eq [of 16 w, where ?'a = nat]
    by (simp add: mask_eq_exp_minus_1 take_bit_eq_mod [where ?'a = nat])
  have "n div 65536 < 65536" using assms by simp
  moreover have "n mod 65536 < 65536" by simp
  ultimately have m: "m < 131072" unfolding m_def by linarith
  then have m2: "m div 65536 < 2" by simp
  define s1 where "s1 = drop_bit 16 ?s + (?s AND 0xFFFF)"
  have s1: "unat s1 = m" using m by (simp add: s1_def unat_word_ariths h l s m_def)
  have s2: "unat (s1 + drop_bit 16 s1) = m + m div 65536" using m m2 by (simp add: unat_word_ariths h s1)
  have "unat (ucast (s1 + drop_bit 16 s1) :: u16) = (m + m div 65536) mod 65536"
    using s2 by (simp add: unsigned_ucast_eq take_bit_eq_mod [where ?'a = nat])
  then have "unat (NOT (ucast (s1 + drop_bit 16 s1)) :: u16) = 65535 - (m + m div 65536) mod 65536"
    by (simp add: unat_not16)
  then show ?thesis using fold_nat [OF assms] by (simp add: Let_def s1_def m_def ucast_not16)
qed

lemma word_sum_bound: "length d \<le> 131072 \<Longrightarrow> word_sum d < 2 ^ 32"
proof -
  assume l: "length d \<le> 131072"
  have "(\<Sum>i<length d div 2. unat (get16 d (2 * i))) \<le> (\<Sum>i<length d div 2. 65535)"
    using unsigned_less [where ?'a = nat and ?'b = 16] by (intro sum_mono) (simp add: less_Suc_eq_le [symmetric])
  moreover have "(if odd (length d) then unat (d ! (length d - 1)) else 0) \<le> 255"
    using unsigned_less [of "d ! (length d - 1)", where ?'a = nat] by simp
  moreover have "length d div 2 \<le> 65536" using l by simp
  ultimately show ?thesis unfolding word_sum_def by simp
qed

lemma one_comp_checksum_sum:
  assumes "d \<noteq> []" "length d \<le> 131072"
  shows "\<exists>c. one_comp_checksum d = Some c \<and> unat c = 65535 - (if word_sum d = 0 then 0 else (word_sum d - 1) mod 65535 + 1)"
proof -
  have l: "checksum_loop d 0 0 = (2 * (length d div 2), word_of_nat (\<Sum>i<length d div 2. unat (get16 d (2 * i))))"
    using checksum_loop_sum [of 0 d 0] by (simp add: lessThan_atLeast0)
  have o: "odd (length d) \<Longrightarrow> 2 * (length d div 2) = length d - 1" by (metis odd_two_times_div_two_nat)
  have "(let (i, s) = checksum_loop d 0 0 in if odd (length d) then s + ucast (d ! i) else s) = word_of_nat (word_sum d)"
    by (simp add: l word_sum_def o of_nat_unat)
  then have "one_comp_checksum d = Some (ucast (NOT (let s = word_of_nat (word_sum d) :: u32; s = drop_bit 16 s + (s AND 0xFFFF)
      in s + drop_bit 16 s)))"
    using assms(1) by (simp add: one_comp_checksum_def Let_def l)
  then show ?thesis using checksum_fold [OF word_sum_bound [OF assms(2)]] by auto
qed

lemma get16_put16: "i + 2 \<le> length d \<Longrightarrow> get16 (put16 d i c) i = c"
proof -
  have "ucast (ucast c :: byte) + push_bit 8 (ucast (ucast (drop_bit 8 c) :: byte)) = c"
  proof -
    have "ucast (ucast c :: byte) OR push_bit 8 (ucast (ucast (drop_bit 8 c) :: byte)) = c"
      by (rule word_bits_eqI) (simp add: bit_simps upt_word_bits)
    moreover have "ucast (ucast c :: byte) AND push_bit 8 (ucast (ucast (drop_bit 8 c) :: byte)) = (0 :: u16)"
      by (rule word_bits_eqI) (simp add: bit_simps upt_word_bits)
    ultimately show ?thesis by (simp add: disjunctive_add_eq_or)
  qed
  then show "i + 2 \<le> length d \<Longrightarrow> get16 (put16 d i c) i = c" by (simp add: get16_def put16_def put_at_nth)
qed

lemma get16_put16_other: "j + 2 \<le> i \<or> i + 2 \<le> j \<Longrightarrow> i + 2 \<le> length d \<Longrightarrow> j + 2 \<le> length d \<Longrightarrow> get16 (put16 d i c) j = get16 d j"
  by (auto simp: get16_def put16_def put_at_nth)

lemma put16_length [simp]: "i + 2 \<le> length d \<Longrightarrow> length (put16 d i c) = length d"
  by (simp add: put16_def)

lemma word_sum_put16:
  assumes "even (length d)" "2 * k + 2 \<le> length d" "get16 d (2 * k) = 0"
  shows "word_sum (put16 d (2 * k) c) = word_sum d + unat c"
proof -
  have k: "k < length d div 2" using assms(1,2) by auto
  have "(\<Sum>i<length d div 2. unat (get16 (put16 d (2 * k) c) (2 * i))) =
      unat c + (\<Sum>i\<in>{..<length d div 2} - {k}. unat (get16 (put16 d (2 * k) c) (2 * i)))"
    using k assms(2) by (subst sum.remove [of _ k]) (simp_all add: get16_put16)
  also have "(\<Sum>i\<in>{..<length d div 2} - {k}. unat (get16 (put16 d (2 * k) c) (2 * i))) = (\<Sum>i\<in>{..<length d div 2} - {k}. unat (get16 d (2 * i)))"
  proof (intro sum.cong refl)
    fix x assume x: "x \<in> {..<length d div 2} - {k}"
    then have "2 * x + 2 \<le> length d" "2 * x + 2 \<le> 2 * k \<or> 2 * k + 2 \<le> 2 * x" by auto
    then show "unat (get16 (put16 d (2 * k) c) (2 * x)) = unat (get16 d (2 * x))" using assms(2) by (simp only: get16_put16_other)
  qed
  also have "\<dots> = (\<Sum>i<length d div 2. unat (get16 d (2 * i)))"
    using k assms(3) by (subst (2) sum.remove [of _ k]) simp_all
  finally show ?thesis using assms(1,2) by (simp add: word_sum_def)
qed

lemma checksum_verifies:
  assumes "even (length d)" "length d \<le> 131072" "2 * k + 2 \<le> length d" "get16 d (2 * k) = 0" "one_comp_checksum d = Some c"
  shows "one_comp_checksum (put16 d (2 * k) c) = Some 0"
proof -
  let ?s = "word_sum d"
  have d: "d \<noteq> []" using assms(3) by auto
  have c: "unat c = 65535 - (if ?s = 0 then 0 else (?s - 1) mod 65535 + 1)"
    using one_comp_checksum_sum [OF d assms(2)] assms(5) by auto
  have "\<exists>q. ?s + unat c = 65535 * q \<and> 0 < q"
  proof (cases "?s = 0")
    case False
    define q r where "q = (?s - 1) div 65535" and "r = (?s - 1) mod 65535"
    have "?s = 65535 * q + r + 1" using False div_mult_mod_eq [of "?s - 1" 65535] unfolding q_def r_def by linarith
    moreover have "r < 65535" by (simp add: r_def)
    moreover have "unat c = 65535 - (r + 1)" using c False by (simp add: r_def)
    ultimately have "?s + unat c = 65535 * ((?s - 1) div 65535 + 1)" by (simp add: q_def [symmetric])
    then show ?thesis by (intro exI [of _ "(?s - 1) div 65535 + 1"]) simp
  qed (use c in \<open>auto intro: exI [of _ 1]\<close>)
  then obtain q where q: "?s + unat c = 65535 * q" "0 < q" by blast
  then have "?s + unat c - 1 = 65534 + 65535 * (q - 1)" by (cases q) simp_all
  then have "(?s + unat c - 1) mod 65535 = 65534" by simp
  moreover have "put16 d (2 * k) c \<noteq> []" "length (put16 d (2 * k) c) \<le> 131072" using assms(2,3) by (simp_all flip: length_0_conv)
  ultimately obtain c' where "one_comp_checksum (put16 d (2 * k) c) = Some c'" "unat c' = 0"
    using one_comp_checksum_sum [of "put16 d (2 * k) c"] word_sum_put16 [OF assms(1,3,4), of c] q by auto
  then show ?thesis by (simp add: unat_eq_zero)
qed

end
