(* ===== verification/Ping_Reply.thy ===== *)
theory Ping_Reply
  imports Ping_Client
begin

text \<open>
  What the ping responder sends: the contents of its ARP and echo replies, whatever the
  stack held before, and that the receive callback answers every packet of a chain.
\<close>

lemmas field_simps16 = layout_defs put16_def get_put_same get_put_other get_put_part get_get get_update_same [unfolded One_nat_def] get_update_other

lemma get16_field: "i + 2 \<le> length b \<Longrightarrow> get16 b i = get16 (get_bytes b i 2) 0"
  by (simp add: get16_def)

lemma get16_pair: "get16 [ucast w, ucast (drop_bit 8 w)] 0 = w"
  using get16_put16 [of 0 "[0, 0]" w] by (simp add: put16_def put_at_def)

lemma echo_fields_bytes:
  assumes "length r = 1500" "98 \<le> length p"
  defines "b \<equiv> echo_fields r p"
  shows "length b = 1500" "get_bytes b 0 6 = get_bytes p 6 6" "get_bytes b 6 6 = get_bytes p 0 6"
    "get_bytes b 12 2 = [8, 0]" "get_bytes b 14 12 = get_bytes p 14 12" "get_bytes b 26 4 = get_bytes p 30 4"
    "get_bytes b 30 4 = get_bytes p 26 4" "get_bytes b 34 1 = [0]" "get_bytes b 35 1 = get_bytes r 35 1"
    "get_bytes b 36 2 = [0, 0]" "get_bytes b 38 2 = get_bytes p 38 2" "get_bytes b 40 2 = get_bytes p 40 2" "get_bytes b 42 56 = get_bytes p 42 56"
proof -
  have h: "[ucast (htons ETH_P_IP), ucast (drop_bit 8 (htons ETH_P_IP))] = [8, 0 :: byte]" by (simp add: htons_def ETH_P_IP_def)
  define b1 where "b1 = put_at r 0 (get_bytes p 6 6)"
  define b2 where "b2 = put_at b1 6 (get_bytes p 0 6)"
  define b3 where "b3 = put_at b2 12 [8, 0]"
  define b4 where "b4 = put_at b3 14 (get_bytes p 14 20)"
  define b5 where "b5 = put_at b4 26 (get_bytes b4 30 4)"
  define b6 where "b6 = put_at b5 30 (get_bytes b4 26 4)"
  define b7 where "b7 = put_at b6 40 (get_bytes p 40 2)"
  define b8 where "b8 = put_at b7 38 (get_bytes p 38 2)"
  define b9 where "b9 = b8[34 := 0]"
  define b10 where "b10 = put_at b9 42 (get_bytes p 42 56)"
  have b: "b = put_at b10 36 [0, 0]"
    by (simp add: b_def echo_fields_def Let_def layout_defs put16_def h ICMP_ECHOREPLY_def b1_def b2_def b3_def b4_def b5_def b6_def b7_def b8_def
      b9_def b10_def)
  have l1: "length b1 = 1500" using assms(1,2) by (simp add: b1_def)
  have l2: "length b2 = 1500" using l1 assms(2) by (simp add: b2_def)
  have l3: "length b3 = 1500" using l2 by (simp add: b3_def)
  have l4: "length b4 = 1500" using l3 assms(2) by (simp add: b4_def)
  have l5: "length b5 = 1500" using l4 by (simp add: b5_def)
  have l6: "length b6 = 1500" using l5 l4 by (simp add: b6_def)
  have l7: "length b7 = 1500" using l6 assms(2) by (simp add: b7_def)
  have l8: "length b8 = 1500" using l7 assms(2) by (simp add: b8_def)
  have l9: "length b9 = 1500" using l8 by (simp add: b9_def)
  have l10: "length b10 = 1500" using l9 assms(2) by (simp add: b10_def)
  note ls = l1 l2 l3 l4 l5 l6 l7 l8 l9 l10 assms(1) get_bytes_length [OF order_trans [OF _ assms(2)]]
  have o: "j + n \<le> 0 \<or> 6 \<le> j \<Longrightarrow> j + n \<le> 1500 \<Longrightarrow> get_bytes b1 j n = get_bytes r j n"
    "j + n \<le> 6 \<or> 12 \<le> j \<Longrightarrow> j + n \<le> 1500 \<Longrightarrow> get_bytes b2 j n = get_bytes b1 j n"
    "j + n \<le> 12 \<or> 14 \<le> j \<Longrightarrow> j + n \<le> 1500 \<Longrightarrow> get_bytes b3 j n = get_bytes b2 j n"
    "j + n \<le> 14 \<or> 34 \<le> j \<Longrightarrow> j + n \<le> 1500 \<Longrightarrow> get_bytes b4 j n = get_bytes b3 j n"
    "j + n \<le> 26 \<or> 30 \<le> j \<Longrightarrow> j + n \<le> 1500 \<Longrightarrow> get_bytes b5 j n = get_bytes b4 j n"
    "j + n \<le> 30 \<or> 34 \<le> j \<Longrightarrow> j + n \<le> 1500 \<Longrightarrow> get_bytes b6 j n = get_bytes b5 j n"
    "j + n \<le> 40 \<or> 42 \<le> j \<Longrightarrow> j + n \<le> 1500 \<Longrightarrow> get_bytes b7 j n = get_bytes b6 j n"
    "j + n \<le> 38 \<or> 40 \<le> j \<Longrightarrow> j + n \<le> 1500 \<Longrightarrow> get_bytes b8 j n = get_bytes b7 j n"
    "j + n \<le> 34 \<or> 35 \<le> j \<Longrightarrow> j + n \<le> 1500 \<Longrightarrow> get_bytes b9 j n = get_bytes b8 j n"
    "j + n \<le> 42 \<or> 98 \<le> j \<Longrightarrow> j + n \<le> 1500 \<Longrightarrow> get_bytes b10 j n = get_bytes b9 j n"
    "j + n \<le> 36 \<or> 38 \<le> j \<Longrightarrow> j + n \<le> 1500 \<Longrightarrow> get_bytes b j n = get_bytes b10 j n" for j n
    unfolding b1_def b2_def b3_def b4_def b5_def b6_def b7_def b8_def b9_def b10_def b
    by (rule get_put_other get_update_other; insert ls; fastforce simp: b1_def [symmetric] b2_def [symmetric])+
  show "length b = 1500" by (simp add: b ls)
  show "get_bytes b 0 6 = get_bytes p 6 6" by (simp add: o b1_def get_put_same ls)
  show "get_bytes b 6 6 = get_bytes p 0 6" by (simp add: o b2_def get_put_same ls)
  show "get_bytes b 12 2 = [8, 0]" by (simp add: o b3_def get_put_same ls)
  show "get_bytes b 14 12 = get_bytes p 14 12" by (simp add: o b4_def get_put_part get_get ls)
  show "get_bytes b 26 4 = get_bytes p 30 4" by (simp add: o b5_def get_put_same ls) (simp add: b4_def get_put_part get_get ls)
  show "get_bytes b 30 4 = get_bytes p 26 4" by (simp add: o b6_def get_put_same ls) (simp add: b4_def get_put_part get_get ls)
  show "get_bytes b 34 1 = [0]" by (simp add: o) (simp add: b9_def get_update_same [unfolded One_nat_def] ls)
  show "get_bytes b 35 1 = get_bytes r 35 1" by (simp add: o)
  show "get_bytes b 36 2 = [0, 0]" by (simp add: b get_put_same ls)
  show "get_bytes b 38 2 = get_bytes p 38 2" by (simp add: o b8_def get_put_same ls)
  show "get_bytes b 40 2 = get_bytes p 40 2" by (simp add: o b7_def get_put_same ls)
  show "get_bytes b 42 56 = get_bytes p 42 56" by (simp add: o b10_def get_put_same ls)
qed

lemma get_bytes_split: "get_bytes b i (m + n) = get_bytes b i m @ get_bytes b (i + m) n"
  by (simp add: get_bytes_def take_add add.commute)

lemma get_bytes_not_Nil: "0 < n \<Longrightarrow> i + n \<le> length b \<Longrightarrow> get_bytes b i n \<noteq> []"
  by (auto simp: get_bytes_def)

text \<open>A virtqueue that keeps the packets sent in a list and delivers the packets of another one.\<close>

definition ops0 :: "byte list list vq_ops" where
  "ops0 = \<lparr>vq_buffer_alloc = \<lambda>n v. (0, 0, v), vq_send_buffer = \<lambda>b d v. (0, v @ [d]), vq_buffer_free = \<lambda>b v. v, send_notify = \<lambda>v. v,
     vq_get_available_buf = \<lambda>v. (False, v), vq_device_gather = \<lambda>v. (-1, [], v), vq_add_used_buf = \<lambda>v. (True, v), recv_notify = \<lambda>v. v,
     vq_get_used_buf = \<lambda>v. (False, v), vq_driver_gather = \<lambda>v. (-1, 0, v), vq_dev_poll = \<lambda>v. False, vq_drv_poll = \<lambda>v. False,
     vq_device_init = \<lambda>n v. (0, v), vq_driver_init = \<lambda>n v. (0, v)\<rparr>"

lemma echo_reply_frame:
  assumes "length reply_buffer = ETHERMTU" "icmp_msg + ICMP_MSG_SIZE \<le> length p"
  shows "\<exists>f. create_icmp_req_reply ops reply_buffer p v = Some (send_outgoing_packet ops f v) \<and> length f = 98 \<and>
    get_bytes f h_dest 6 = get_bytes p h_source 6 \<and> get_bytes f h_source 6 = get_bytes p h_dest 6 \<and> get16 f h_proto = htons ETH_P_IP \<and>
    get_bytes f ip_hdr 10 = get_bytes p ip_hdr 10 \<and> get_bytes f ip_saddr 4 = get_bytes p ip_daddr 4 \<and>
    get_bytes f ip_daddr 4 = get_bytes p ip_saddr 4 \<and> get_bytes f icmp_type 1 = [ICMP_ECHOREPLY] \<and>
    get_bytes f icmp_id 60 = get_bytes p icmp_id 60 \<and> get_bytes f (icmp_type + 1) 1 = get_bytes reply_buffer (icmp_type + 1) 1 \<and>
    one_comp_checksum (get_bytes f ip_hdr sizeof_iphdr) = Some 0 \<and> one_comp_checksum (get_bytes f icmp_hdr 64) = Some 0"
proof -
  define b where "b = echo_fields reply_buffer p"
  have "length reply_buffer = 1500" "98 \<le> length p" using assms by (simp_all add: layout_defs)
  note fs = echo_fields_bytes [OF this, folded b_def]
  obtain c1 where c1: "one_comp_checksum (get_bytes b 34 64) = Some c1"
    using one_comp_checksum_sum [OF get_bytes_not_Nil, of 64 34 b] fs(1) by auto
  define b2 where "b2 = put16 (put16 b 36 c1) 24 0"
  have b2: "length b2 = 1500" by (simp add: b2_def fs(1))
  obtain c2 where c2: "one_comp_checksum (get_bytes b2 14 20) = Some c2"
    using one_comp_checksum_sum [OF get_bytes_not_Nil, of 20 14 b2] b2 by auto
  define f where "f = take 98 (put16 b2 24 c2)"
  have r: "create_icmp_req_reply ops reply_buffer p v = Some (send_outgoing_packet ops f v)"
    using assms c1 c2 by (simp add: create_icmp_req_reply_def b_def b2_def f_def layout_defs)
  have keep: "get_bytes f i n = get_bytes b i n" if "i + n \<le> 98" "i + n \<le> 24 \<or> 26 \<le> i" "i + n \<le> 36 \<or> 38 \<le> i" for i n
    using that fs(1) by (simp add: f_def b2_def get_take put16_def get_put_other)
  have i: "one_comp_checksum (get_bytes f 14 20) = Some 0"
  proof -
    have "get_bytes f 14 20 = put16 (get_bytes b2 14 20) (2 * 5) c2"
      using b2 by (simp add: f_def get_take put16_def get_put_inside)
    moreover have "get16 (get_bytes b2 14 20) (2 * 5) = 0"
      using fs(1) by (simp add: b2_def get16_def put16_def put_at_nth)
    ultimately show ?thesis using checksum_verifies [OF _ _ _ _ c2, of 5] b2 by simp
  qed
  have j: "one_comp_checksum (get_bytes f 34 64) = Some 0"
  proof -
    have "get_bytes f 34 64 = put16 (get_bytes b 34 64) (2 * 1) c1"
      using fs(1) by (simp add: f_def b2_def get_take put16_def get_put_inside get_put_other)
    moreover have "get16 (get_bytes b 34 64) (2 * 1) = 0"
      using fs(1,10) get_bytes_nth [of 0 2 36 b] get_bytes_nth [of 1 2 36 b] by (simp add: get16_def)
    ultimately show ?thesis using checksum_verifies [OF _ _ _ _ c1, of 1] fs(1) by simp
  qed
  have "get_bytes f 14 10 = get_bytes p 14 10"
    using keep [of 14 10] arg_cong [OF fs(5), of "\<lambda>x. get_bytes x 0 10"] by (simp add: get_get)
  moreover have "get_bytes f 38 60 = get_bytes p 38 60"
    using get_bytes_split [of f 38 2 58] get_bytes_split [of f 40 2 56] get_bytes_split [of p 38 2 58] get_bytes_split [of p 40 2 56]
      keep [of 38 2] keep [of 40 2] keep [of 42 56] fs by simp
  moreover have "length f = 98" by (simp add: f_def b2)
  moreover have "get16 f 12 = htons ETH_P_IP"
    using get16_field [of 12 f] keep [of 12 2] fs(4) \<open>length f = 98\<close> by (simp add: get16_def htons_def ETH_P_IP_def)
  ultimately show ?thesis
    using r i j keep [of 0 6] keep [of 6 6] keep [of 26 4] keep [of 30 4] keep [of 34 1] keep [of 35 1] fs
    by (intro exI [of _ f]) (simp add: layout_defs ICMP_ECHOREPLY_def)
qed



lemma get_update_inside: "i \<le> j \<Longrightarrow> j < i + n \<Longrightarrow> i + n \<le> length b \<Longrightarrow> get_bytes (b[j := v]) i n = (get_bytes b i n)[j - i := v]"
  by (intro nth_equalityI) (auto simp: nth_list_update)

lemma copy4:
  "i + 4 \<le> length b \<Longrightarrow> j + 4 \<le> length p \<Longrightarrow> foldl (\<lambda>b k. b[i + k := p ! (j + k)]) b [0..<4] = put_at b i (get_bytes p j 4)"
proof (rule nth_equalityI)
  fix k assume a: "i + 4 \<le> length b" "j + 4 \<le> length p" "k < length (foldl (\<lambda>b k. b[i + k := p ! (j + k)]) b [0..<4])"
  show "foldl (\<lambda>b k. b[i + k := p ! (j + k)]) b [0..<4] ! k = put_at b i (get_bytes p j 4) ! k"
  proof (cases "i \<le> k \<and> k < i + 4")
    case True
    then have "foldl (\<lambda>b k. b[i + k := p ! (j + k)]) b [0..<4] ! (i + (k - i)) = p ! (j + (k - i))"
      using a by (intro foldl_update_at [where g = "\<lambda>k. i + k"]) auto
    moreover have "k - i < 4" using True by auto
    ultimately show ?thesis using True a by (simp add: put_at_nth)
  next
    case False
    then have "k \<noteq> i" "k \<noteq> Suc i" "k \<noteq> Suc (Suc i)" "k \<noteq> Suc (Suc (Suc i))" by auto
    then show ?thesis using a False by (auto simp: put_at_nth upt_rec nth_list_update_neq)
  qed
qed simp

lemma arp_fields_bytes:
  assumes "length r = 1500" "42 \<le> length p"
  defines "b \<equiv> arp_fields r p" and "mac \<equiv> (get_bytes p 22 6)[5 := get_bytes p 22 6 ! 5 + 2]"
  shows "length b = 1500" "get_bytes b 0 6 = get_bytes p 22 6" "get_bytes b 6 6 = mac" "get_bytes b 12 2 = [8, 6]" "get_bytes b 14 2 = [0, 1]"
    "get_bytes b 16 2 = [8, 0]" "get_bytes b 18 1 = [6]" "get_bytes b 19 1 = [4]" "get_bytes b 20 2 = [0, 2]" "get_bytes b 22 6 = mac"
    "get_bytes b 28 4 = get_bytes p 38 4" "get_bytes b 32 6 = get_bytes p 22 6" "get_bytes b 38 4 = get_bytes p 28 4"
proof -
  have h: "[ucast (htons ETH_P_ARP), ucast (drop_bit 8 (htons ETH_P_ARP))] = [8, 6 :: byte]"
    "[ucast (htons ARPHRD_ETHER), ucast (drop_bit 8 (htons ARPHRD_ETHER))] = [0, 1 :: byte]"
    "[ucast (htons ETH_P_IP), ucast (drop_bit 8 (htons ETH_P_IP))] = [8, 0 :: byte]"
    "[ucast (htons ARPOP_REPLY), ucast (drop_bit 8 (htons ARPOP_REPLY))] = [0, 2 :: byte]"
    by (simp_all add: htons_def ETH_P_ARP_def ETH_P_IP_def ARPHRD_ETHER_def ARPOP_REPLY_def)
  define b1 where "b1 = put_at r 0 (get_bytes p 22 6)"
  define b2 where "b2 = put_at b1 12 [8, 6]"
  define b3 where "b3 = put_at b2 32 (get_bytes p 22 6)"
  define b4 where "b4 = put_at b3 22 (get_bytes p 22 6)"
  define b5 where "b5 = b4[27 := b4 ! 27 + 2]"
  define b6 where "b6 = put_at b5 6 (get_bytes b5 22 6)"
  define b7 where "b7 = put_at b6 28 (get_bytes p 38 4)"
  define b8 where "b8 = put_at b7 38 (get_bytes p 28 4)"
  define b9 where "b9 = put_at b8 14 [0, 1]"
  define b10 where "b10 = put_at b9 16 [8, 0]"
  define b11 where "b11 = put_at b10 20 [0, 2]"
  have l1: "length b1 = 1500" using assms(1,2) by (simp add: b1_def)
  have l2: "length b2 = 1500" using l1 by (simp add: b2_def)
  have l3: "length b3 = 1500" using l2 assms(2) by (simp add: b3_def)
  have l4: "length b4 = 1500" using l3 assms(2) by (simp add: b4_def)
  have l5: "length b5 = 1500" using l4 by (simp add: b5_def)
  have l6: "length b6 = 1500" using l5 by (simp add: b6_def)
  have l7: "length b7 = 1500" using l6 assms(2) by (simp add: b7_def)
  have l8: "length b8 = 1500" using l7 assms(2) by (simp add: b8_def)
  have l9: "length b9 = 1500" using l8 by (simp add: b9_def)
  have l10: "length b10 = 1500" using l9 by (simp add: b10_def)
  have l11: "length b11 = 1500" using l10 by (simp add: b11_def)
  note ls = l1 l2 l3 l4 l5 l6 l7 l8 l9 l10 l11 assms(1) get_bytes_length [OF order_trans [OF _ assms(2)]]
  have "foldl (\<lambda>b k. b[28 + k := p ! (38 + k)]) b6 [0..<4] = b7" "foldl (\<lambda>b k. b[38 + k := p ! (28 + k)]) b7 [0..<4] = b8"
    using copy4 [of 28 b6 38 p] copy4 [of 38 b7 28 p] assms(2) ls by (simp_all add: b7_def b8_def)
  then have b: "b = b11[18 := 6, 19 := 4]"
    by (simp add: b_def arp_fields_def Let_def layout_defs put16_def h b1_def [symmetric] b2_def [symmetric] b3_def [symmetric]
      b4_def [symmetric] b5_def [symmetric] b6_def [symmetric] b9_def [symmetric] b10_def [symmetric] b11_def [symmetric])
  have o: "6 \<le> j \<Longrightarrow> j + n \<le> 1500 \<Longrightarrow> get_bytes b1 j n = get_bytes r j n"
    "j + n \<le> 12 \<or> 14 \<le> j \<Longrightarrow> j + n \<le> 1500 \<Longrightarrow> get_bytes b2 j n = get_bytes b1 j n"
    "j + n \<le> 32 \<or> 38 \<le> j \<Longrightarrow> j + n \<le> 1500 \<Longrightarrow> get_bytes b3 j n = get_bytes b2 j n"
    "j + n \<le> 22 \<or> 28 \<le> j \<Longrightarrow> j + n \<le> 1500 \<Longrightarrow> get_bytes b4 j n = get_bytes b3 j n"
    "j + n \<le> 6 \<or> 12 \<le> j \<Longrightarrow> j + n \<le> 1500 \<Longrightarrow> get_bytes b6 j n = get_bytes b5 j n"
    "j + n \<le> 28 \<or> 32 \<le> j \<Longrightarrow> j + n \<le> 1500 \<Longrightarrow> get_bytes b7 j n = get_bytes b6 j n"
    "j + n \<le> 38 \<or> 42 \<le> j \<Longrightarrow> j + n \<le> 1500 \<Longrightarrow> get_bytes b8 j n = get_bytes b7 j n"
    "j + n \<le> 14 \<or> 16 \<le> j \<Longrightarrow> j + n \<le> 1500 \<Longrightarrow> get_bytes b9 j n = get_bytes b8 j n"
    "j + n \<le> 16 \<or> 18 \<le> j \<Longrightarrow> j + n \<le> 1500 \<Longrightarrow> get_bytes b10 j n = get_bytes b9 j n"
    "j + n \<le> 20 \<or> 22 \<le> j \<Longrightarrow> j + n \<le> 1500 \<Longrightarrow> get_bytes b11 j n = get_bytes b10 j n" for j n
    unfolding b1_def b2_def b3_def b4_def b6_def b7_def b8_def b9_def b10_def b11_def
    by (rule get_put_other; insert ls; fastforce simp: b1_def [symmetric] b2_def [symmetric])+
  have u: "j + n \<le> 27 \<or> 28 \<le> j \<Longrightarrow> j + n \<le> 1500 \<Longrightarrow> get_bytes b5 j n = get_bytes b4 j n"
    "j + n \<le> 18 \<or> 20 \<le> j \<Longrightarrow> j + n \<le> 1500 \<Longrightarrow> get_bytes b j n = get_bytes b11 j n" for j n
    unfolding b5_def b using ls by (auto simp: get_update_other)
  have "get_bytes b4 22 6 = get_bytes p 22 6" by (simp add: b4_def get_put_same ls)
  then have m: "get_bytes b5 22 6 = mac"
    using get_bytes_nth [of 5 6 22 b4] ls by (simp add: b5_def get_update_inside mac_def)
  have lm: "length mac = 6" by (simp add: mac_def ls)
  show "length b = 1500" by (simp add: b ls)
  show "get_bytes b 0 6 = get_bytes p 22 6" by (simp add: o u b1_def get_put_same ls)
  show "get_bytes b 6 6 = mac" by (simp add: o u b6_def get_put_same ls m lm)
  show "get_bytes b 12 2 = [8, 6]" by (simp add: o u b2_def get_put_same ls)
  show "get_bytes b 14 2 = [0, 1]" by (simp add: o u b9_def get_put_same ls)
  show "get_bytes b 16 2 = [8, 0]" by (simp add: o u b10_def get_put_same ls)
  show "get_bytes b 18 1 = [6]" by (simp add: b get_update_other get_update_same [unfolded One_nat_def] ls)
  show "get_bytes b 19 1 = [4]" by (simp add: b get_update_same [unfolded One_nat_def] ls)
  show "get_bytes b 20 2 = [0, 2]" by (simp add: o u b11_def get_put_same ls)
  show "get_bytes b 22 6 = mac" by (simp add: o u m)
  show "get_bytes b 28 4 = get_bytes p 38 4" by (simp add: o u b7_def get_put_same ls)
  show "get_bytes b 32 6 = get_bytes p 22 6" by (simp add: o u b3_def get_put_same ls)
  show "get_bytes b 38 4 = get_bytes p 28 4" by (simp add: o u b8_def get_put_same ls)
qed

lemma arp_reply_frame:
  assumes "length reply_buffer = ETHERMTU" "sizeof_ethhdr + sizeof_ether_arp \<le> length p"
  shows "let sha = get_bytes p arp_sha 6; mac = sha[5 := sha ! 5 + 2] in
    create_arp_req_reply ops reply_buffer p v = Some (send_outgoing_packet ops
      (sha @ mac @ [8, 6] @ [0, 1, 8, 0, 6, 4, 0, 2] @ mac @ get_bytes p arp_tpa 4 @ sha @ get_bytes p arp_spa 4) v)"
proof -
  define b where "b = arp_fields reply_buffer p"
  have "length reply_buffer = 1500" "42 \<le> length p" using assms by (simp_all add: layout_defs)
  note fs = arp_fields_bytes [OF this, folded b_def]
  have "take 42 b = get_bytes b 0 42" by (simp add: get_bytes_def)
  also have "\<dots> = get_bytes b 0 6 @ get_bytes b 6 6 @ get_bytes b 12 2 @ get_bytes b 14 2 @ get_bytes b 16 2 @ get_bytes b 18 1 @ get_bytes b 19 1 @
      get_bytes b 20 2 @ get_bytes b 22 6 @ get_bytes b 28 4 @ get_bytes b 32 6 @ get_bytes b 38 4"
    using get_bytes_split [of b 0 6 36] get_bytes_split [of b 6 6 30] get_bytes_split [of b 12 2 28] get_bytes_split [of b 14 2 26]
      get_bytes_split [of b 16 2 24] get_bytes_split [of b 18 1 23] get_bytes_split [of b 19 1 22] get_bytes_split [of b 20 2 20]
      get_bytes_split [of b 22 6 14] get_bytes_split [of b 28 4 10] get_bytes_split [of b 32 6 4] by simp
  finally show ?thesis using assms by (simp add: create_arp_req_reply_def b_def [symmetric] layout_defs fs fs(7,8) [unfolded One_nat_def] Let_def)
qed

text \<open>
  C26. ARP replies. A received ARP packet is answered with exactly this frame, whatever the stack
  held: to the sender's hardware address, from that address with two added to its last
  byte, an Ethernet/IPv4 ARP reply that gives this hardware address for the protocol
  address asked for.
\<close>

theorem ping_arp_reply:
  assumes "length reply_buffer = ETHERMTU" "sizeof_ethhdr + sizeof_ether_arp \<le> length p"
  shows "let sha = get_bytes p arp_sha 6; mac = sha[5 := sha ! 5 + 2] in
    create_arp_req_reply ops reply_buffer p v = Some (send_outgoing_packet ops
      (sha @ mac @ [8, 6] @ [0, 1, 8, 0, 6, 4, 0, 2] @ mac @ get_bytes p arp_tpa 4 @ sha @ get_bytes p arp_spa 4) v)"
  by (rule arp_reply_frame [OF assms])

theorem ping_arp_reply_witness:
  "create_arp_req_reply ops0 (replicate 1500 0xAA) ([0, 0, 0, 0, 0, 0, 1, 2, 3, 4, 5, 6, 8, 6] @ [0, 1, 8, 0, 6, 4, 0, 1] @ [1, 2, 3, 4, 5, 6] @
      [10, 0, 0, 1] @ [0, 0, 0, 0, 0, 0] @ [10, 0, 0, 2]) [] =
    Some (0, [[1, 2, 3, 4, 5, 6] @ [1, 2, 3, 4, 5, 8] @ [8, 6] @ [0, 1, 8, 0, 6, 4, 0, 2] @ [1, 2, 3, 4, 5, 8] @ [10, 0, 0, 2] @ [1, 2, 3, 4, 5, 6] @ [10, 0, 0, 1]])"
  using ping_arp_reply [of "replicate 1500 0xAA" "[0, 0, 0, 0, 0, 0, 1, 2, 3, 4, 5, 6, 8, 6] @ [0, 1, 8, 0, 6, 4, 0, 1] @ [1, 2, 3, 4, 5, 6] @
      [10, 0, 0, 1] @ [0, 0, 0, 0, 0, 0] @ [10, 0, 0, 2]" ops0 "[]"]
  by (simp add: layout_defs get_bytes_def Let_def send_outgoing_packet_def ops0_def)

subsection \<open>A chain of received buffers\<close>

text \<open>
  What the virtqueue library does, seen through the received buffers \<open>rx\<close> still to be
  gathered and the packets \<open>tx\<close> sent: gathering takes the next buffer and fails when there
  is none, a buffer can be allocated and enqueued, and nothing else sends or receives.
\<close>

definition vq_laws :: "'v vq_ops \<Rightarrow> ('v \<Rightarrow> byte list list) \<Rightarrow> ('v \<Rightarrow> byte list list) \<Rightarrow> bool" where
  "vq_laws ops rx tx \<longleftrightarrow>
    (\<forall>v f fs. rx v = f # fs \<longrightarrow> (\<exists>r v'. vq_device_gather ops v = (r, f, v') \<and> 0 \<le> r \<and> rx v' = fs \<and> tx v' = tx v)) \<and>
    (\<forall>v. rx v = [] \<longrightarrow> (\<exists>r f v'. vq_device_gather ops v = (r, f, v') \<and> r < 0 \<and> rx v' = [] \<and> tx v' = tx v)) \<and>
    (\<forall>n v. \<exists>b v'. vq_buffer_alloc ops n v = (0, b, v') \<and> rx v' = rx v \<and> tx v' = tx v) \<and>
    (\<forall>b d v. \<exists>v'. vq_send_buffer ops b d v = (0, v') \<and> rx v' = rx v \<and> tx v' = tx v @ [d]) \<and>
    (\<forall>v. rx (send_notify ops v) = rx v \<and> tx (send_notify ops v) = tx v) \<and>
    (\<forall>v. \<exists>ok v'. vq_add_used_buf ops v = (ok, v') \<and> rx v' = rx v \<and> tx v' = tx v) \<and>
    (\<forall>v. rx (recv_notify ops v) = rx v \<and> tx (recv_notify ops v) = tx v)"

lemma vq_gather:
  assumes "vq_laws ops rx tx"
  shows "rx v = f # fs \<Longrightarrow> \<exists>r v'. vq_device_gather ops v = (r, f, v') \<and> 0 \<le> r \<and> rx v' = fs \<and> tx v' = tx v"
    "rx v = [] \<Longrightarrow> \<exists>r f v'. vq_device_gather ops v = (r, f, v') \<and> r < 0 \<and> rx v' = [] \<and> tx v' = tx v"
  using assms by (auto simp: vq_laws_def)

lemma vq_return:
  assumes "vq_laws ops rx tx"
  shows "\<exists>ok v'. vq_add_used_buf ops v = (ok, v') \<and> rx v' = rx v \<and> tx v' = tx v"
    "rx (recv_notify ops v) = rx v" "tx (recv_notify ops v) = tx v"
  using assms by (auto simp: vq_laws_def)

lemma packet_sent:
  assumes "vq_laws ops rx tx"
  shows "\<exists>v'. send_outgoing_packet ops d v = (0, v') \<and> rx v' = rx v \<and> tx v' = tx v @ [d]"
proof -
  obtain b v1 where "vq_buffer_alloc ops (length d) v = (0, b, v1)" "rx v1 = rx v" "tx v1 = tx v"
    using assms unfolding vq_laws_def by blast
  moreover obtain v2 where "vq_send_buffer ops b d v1 = (0, v2)" "rx v2 = rx v1" "tx v2 = tx v1 @ [d]"
    using assms unfolding vq_laws_def by blast
  ultimately show ?thesis using assms by (simp add: send_outgoing_packet_def vq_laws_def)
qed

text \<open>The packets that get a reply, the lengths for which it stays inside the buffers, and its addressee.\<close>

definition answered :: "byte list \<Rightarrow> bool" where
  "answered p \<longleftrightarrow> htons (get16 p h_proto) \<in> {ETH_P_ARP, ETH_P_IP}"

definition packet_fits :: "byte list \<Rightarrow> bool" where
  "packet_fits p \<longleftrightarrow> sizeof_ethhdr \<le> length p \<and>
    (htons (get16 p h_proto) = ETH_P_ARP \<longrightarrow> sizeof_ethhdr + sizeof_ether_arp \<le> length p) \<and>
    (htons (get16 p h_proto) = ETH_P_IP \<longrightarrow> icmp_msg + ICMP_MSG_SIZE \<le> length p \<and> length p \<le> sizeof_ethhdr + ETHERMTU)"

definition reply_to :: "byte list \<Rightarrow> byte list \<Rightarrow> bool" where
  "reply_to p g \<longleftrightarrow> get16 g h_proto = get16 p h_proto \<and>
    get_bytes g h_dest 6 = (if htons (get16 p h_proto) = ETH_P_ARP then get_bytes p arp_sha 6 else get_bytes p h_source 6)"

lemma htons_htons [simp]: "htons (htons w) = w"
  by (rule bit_word_eqI) (auto simp: htons_def bit_simps)

lemma packet_answered:
  assumes "vq_laws ops rx tx" "length reply_buffer = ETHERMTU" "packet_fits p" "answered p"
  shows "\<exists>v' g. handle_recv_data ops reply_buffer p v = Some v' \<and> rx v' = rx v \<and> tx v' = tx v @ [g] \<and> reply_to p g"
proof (cases "htons (get16 p h_proto) = ETH_P_ARP")
  case True
  then have "get16 p h_proto = htons ETH_P_ARP" by (metis htons_htons)
  moreover have "length (get_bytes p arp_sha 6) = 6" using assms(3) True by (simp add: packet_fits_def layout_defs)
  moreover obtain g where "create_arp_req_reply ops reply_buffer p v = Some (send_outgoing_packet ops g v)"
    "g = get_bytes p arp_sha 6 @ (get_bytes p arp_sha 6)[5 := get_bytes p arp_sha 6 ! 5 + 2] @ [8, 6] @ [0, 1, 8, 0, 6, 4, 0, 2] @
      (get_bytes p arp_sha 6)[5 := get_bytes p arp_sha 6 ! 5 + 2] @ get_bytes p arp_tpa 4 @ get_bytes p arp_sha 6 @ get_bytes p arp_spa 4"
    using arp_reply_frame [OF assms(2), of p ops v] assms(3) True by (simp add: packet_fits_def Let_def)
  ultimately show ?thesis
    using packet_sent [OF assms(1), of g v] assms(3) True
    by (auto simp: handle_recv_data_def packet_fits_def reply_to_def get_bytes_def h_dest_def get16_def h_proto_def nth_append htons_def ETH_P_ARP_def)
next
  case False
  then have ip: "htons (get16 p h_proto) = ETH_P_IP" using assms(4) by (simp add: answered_def)
  then have "get16 p h_proto = htons ETH_P_IP" by (metis htons_htons)
  moreover obtain g where "create_icmp_req_reply ops reply_buffer p v = Some (send_outgoing_packet ops g v)"
    "get_bytes g h_dest 6 = get_bytes p h_source 6" "get16 g h_proto = htons ETH_P_IP"
    using echo_reply_frame [OF assms(2), of p ops v] assms(3) ip by (auto simp: packet_fits_def)
  ultimately show ?thesis
    using packet_sent [OF assms(1), of g v] assms(3) False ip
    by (auto simp: handle_recv_data_def packet_fits_def reply_to_def)
qed

lemma recv_loop_answers:
  assumes "vq_laws ops rx tx" "\<And>v. length (stack v) = ETHERMTU" "\<forall>p \<in> set (rx v). packet_fits p"
  shows "\<exists>v' gs. recv_loop ops stack v = Some v' \<and> rx v' = [] \<and> tx v' = tx v @ gs \<and> list_all2 reply_to (filter answered (rx v)) gs"
  using assms(3)
proof (induction "rx v" arbitrary: v)
  case Nil
  then show ?case using vq_gather(2) [OF assms(1), of v] by (auto simp: recv_loop.simps [of ops stack v])
next
  case (Cons p ps)
  obtain r v1 where g: "vq_device_gather ops v = (r, p, v1)" "0 \<le> r" "rx v1 = ps" "tx v1 = tx v"
    using vq_gather(1) [OF assms(1)] Cons.hyps(2) by metis
  have fits: "packet_fits p" "\<forall>p \<in> set ps. packet_fits p" using Cons.prems Cons.hyps(2) by (metis list.set_intros)+
  show ?case
  proof (cases "answered p")
    case True
    then obtain v2 q where q: "handle_recv_data ops (stack v1) p v1 = Some v2" "rx v2 = ps" "tx v2 = tx v @ [q]" "reply_to p q"
      using packet_answered [OF assms(1) assms(2) [of v1] fits(1), of v1] g by metis
    then show ?thesis using Cons.hyps(1) [of v2] fits(2) g Cons.hyps(2) [symmetric] True by (auto simp: recv_loop.simps [of ops stack v])
  next
    case False
    then have "handle_recv_data ops (stack v1) p v1 = Some v1"
      using fits(1) by (simp add: handle_recv_data_def packet_fits_def answered_def)
    then show ?thesis using Cons.hyps(1) [of v1] fits(2) g Cons.hyps(2) [symmetric] False by (auto simp: recv_loop.simps [of ops stack v])
  qed
qed


text \<open>A virtqueue with a chain of buffers to gather and the packets sent.\<close>

definition chain_ops :: "(byte list list \<times> byte list list) vq_ops" where
  "chain_ops = \<lparr>vq_buffer_alloc = \<lambda>n v. (0, 0, v), vq_send_buffer = \<lambda>b d v. (0, fst v, snd v @ [d]), vq_buffer_free = \<lambda>b v. v,
     send_notify = \<lambda>v. v, vq_get_available_buf = \<lambda>v. (True, v),
     vq_device_gather = \<lambda>v. (case fst v of [] \<Rightarrow> (-1, [], v) | f # fs \<Rightarrow> (0, f, fs, snd v)), vq_add_used_buf = \<lambda>v. (True, v), recv_notify = \<lambda>v. v,
     vq_get_used_buf = \<lambda>v. (False, v), vq_driver_gather = \<lambda>v. (-1, 0, v), vq_dev_poll = \<lambda>v. True, vq_drv_poll = \<lambda>v. False,
     vq_device_init = \<lambda>n v. (0, v), vq_driver_init = \<lambda>n v. (0, v)\<rparr>"


end
