(* ===== verification/Gf128_Mul.thy ===== *)
theory Gf128_Mul
  imports Gf_Mul_Lo
begin

text \<open>
  The field multipliers of \<open>components/pilot/src/aeslib/gf128mul.c\<close>: the slow multiplier
  \<open>gf_mulTMD\<close> and the four table-driven ones, which the options \<open>TABLES_64K\<close>, \<open>TABLES_8K\<close>,
  \<open>TABLES_4K\<close> (the one selected) and \<open>TABLES_256\<close> choose between. A table-driven multiplier
  is a pair of an initialisation for a fixed factor and a multiplication with it; the
  locale \<open>table_multiplier\<close> is what a client needs of such a pair, and all four are
  interpreted in it, in each field representation.

  A multiplier overwrites its first argument and the scratch block; the model returns the
  new value of the argument. Local arrays start as zeros; every block of them is written
  before it is read.
\<close>

subsection \<open>Model\<close>

definition GF_BYTE_LEN :: nat where "GF_BYTE_LEN = 16"

definition GF_INDEX :: "gf_mode \<Rightarrow> nat \<Rightarrow> nat" where
  "GF_INDEX m i = (if m = LL \<or> m = LB then i else 15 - i)"

definition zero_block :: block where "zero_block = replicate 16 0"

definition gf_mulTMD_step :: "gf_mode \<Rightarrow> block list \<Rightarrow> byte \<Rightarrow> block \<Rightarrow> block" where
  "gf_mulTMD_step m p ch a =
     foldl (\<lambda>a k. if ch AND (x_bit m ! k) \<noteq> 0 then xor_block_aligned a a (p ! k) else a) a [0, 1, 2, 3, 4, 5, 6, 7]"

definition gf_mulTMD :: "gf_mode \<Rightarrow> block \<Rightarrow> block \<Rightarrow> block" where
  "gf_mulTMD m a b =
    (let p = replicate 8 zero_block;
         p = p[0 := copy_block_aligned (p ! 0) a];
         p = foldl (\<lambda>p i. p[i + 1 := gf_mulx1 m (p ! (i + 1)) (p ! i)]) p [0, 1, 2, 3, 4, 5, 6];
         a = foldl (\<lambda>a i. gf_mulx8 m (gf_mulTMD_step m p (b ! GF_INDEX m i) a))
           zero_block [15, 14, 13, 12, 11, 10, 9, 8, 7, 6, 5, 4, 3, 2, 1]
     in gf_mulTMD_step m p (b ! GF_INDEX m 0) a)"

text \<open>The powers of \<open>x\<close> in a table of one digit, and the sums of two entries that fill the rest.\<close>

definition table_powers :: "gf_mode \<Rightarrow> nat list \<Rightarrow> block list \<Rightarrow> block list" where
  "table_powers m js t = foldl (\<lambda>t j. if m = LL \<or> m = BL then t[j + j := gf_mulx1 m (t ! (j + j)) (t ! j)]
     else t[j := gf_mulx1 m (t ! j) (t ! (j + j))]) t js"

definition table_sums :: "nat list \<Rightarrow> block list \<Rightarrow> block list" where
  "table_sums js t = foldl (\<lambda>t j. foldl (\<lambda>t k. t[j + k := xor_block_aligned (t ! (j + k)) (t ! j) (t ! k)]) t [1..<j]) t js"

definition init_4k_table :: "gf_mode \<Rightarrow> block \<Rightarrow> block list \<Rightarrow> block list" where
  "init_4k_table m g t =
    (let t = t[0 := zero_block];
         t = (if m = LL \<or> m = BL then table_powers m [1, 2, 4, 8, 16, 32, 64] (t[1 := g])
              else table_powers m [64, 32, 16, 8, 4, 2, 1] (t[128 := g]))
     in table_sums [2, 4, 8, 16, 32, 64, 128] t)"

definition xor_4k :: "gf_mode \<Rightarrow> block \<Rightarrow> block list \<Rightarrow> block \<Rightarrow> nat \<Rightarrow> block" where
  "xor_4k m ap t r i = (let r = gf_mulx8 m r in xor_block_aligned r r (t ! unat (ap ! GF_INDEX m i)))"

definition gf_mul_4k :: "gf_mode \<Rightarrow> block \<Rightarrow> block list \<Rightarrow> block" where
  "gf_mul_4k m a t = (let r = foldl (xor_4k m a t) zero_block [15, 14, 13, 12, 11, 10, 9, 8, 7, 6, 5, 4, 3, 2, 1, 0] in
     copy_block_aligned a r)"

definition init_256_table :: "gf_mode \<Rightarrow> block \<Rightarrow> block list \<Rightarrow> block list" where
  "init_256_table m g t =
    (let t = t[0 := zero_block];
         t = (if m = LL \<or> m = BL then table_powers m [1, 2, 4] (t[1 := g]) else table_powers m [4, 2, 1] (t[8 := g]))
     in table_sums [2, 4, 8] t)"

definition x_lo :: "gf_mode \<Rightarrow> block \<Rightarrow> block list \<Rightarrow> block \<Rightarrow> nat \<Rightarrow> block" where
  "x_lo m ap t r i = (let r = gf_mulx4 m r in xor_block_aligned r r (t ! unat (ap ! GF_INDEX m i AND 0x0f)))"

definition x_hi :: "gf_mode \<Rightarrow> block \<Rightarrow> block list \<Rightarrow> block \<Rightarrow> nat \<Rightarrow> block" where
  "x_hi m ap t r i = (let r = gf_mulx4 m r in xor_block_aligned r r (t ! unat (drop_bit 4 (ap ! GF_INDEX m i))))"

definition xor_256 :: "gf_mode \<Rightarrow> block \<Rightarrow> block list \<Rightarrow> block \<Rightarrow> nat \<Rightarrow> block" where
  "xor_256 m ap t r i = (if m = LL \<or> m = BL then x_lo m ap t (x_hi m ap t r i) i else x_hi m ap t (x_lo m ap t r i) i)"

definition gf_mul_256 :: "gf_mode \<Rightarrow> block \<Rightarrow> block list \<Rightarrow> block" where
  "gf_mul_256 m a t = (let r = foldl (xor_256 m a t) zero_block [15, 14, 13, 12, 11, 10, 9, 8, 7, 6, 5, 4, 3, 2, 1, 0] in
     copy_block_aligned a r)"

text \<open>In the two larger multipliers there is a table for each digit; the next one is the last times a power of \<open>x\<close>.\<close>

definition table_next :: "gf_mode \<Rightarrow> nat list \<Rightarrow> block list \<Rightarrow> block list \<Rightarrow> block list" where
  "table_next m js prev t = foldl (\<lambda>t j. t[j := gf_mulx8 m (prev ! j)]) (t[0 := zero_block]) js"

fun init_64k_loop :: "gf_mode \<Rightarrow> nat \<Rightarrow> nat \<Rightarrow> block list list \<Rightarrow> block list list" where
  "init_64k_loop m i left t =
    (let t = t[i := table_sums [2, 4, 8, 16, 32, 64, 128] (t ! i)] in
     case left of 0 \<Rightarrow> t
     | Suc n \<Rightarrow> init_64k_loop m (i + 1) n
         (t[i + 1 := table_next m [128, 64, 32, 16, 8, 4, 2, 1] (t ! i) (t ! (i + 1))]))"

definition init_64k_table :: "gf_mode \<Rightarrow> block \<Rightarrow> block list list \<Rightarrow> block list list" where
  "init_64k_table m g t =
    (let t0 = (t ! 0)[0 := zero_block];
         t0 = (if m = LL \<or> m = BL then table_powers m [1, 2, 4, 8, 16, 32, 64] (t0[1 := g])
               else table_powers m [64, 32, 16, 8, 4, 2, 1] (t0[128 := g]))
     in init_64k_loop m 0 (GF_BYTE_LEN - 1) (t[0 := t0]))"

definition xor_64k :: "gf_mode \<Rightarrow> block \<Rightarrow> block list list \<Rightarrow> block \<Rightarrow> nat \<Rightarrow> block" where
  "xor_64k m ap t r i = xor_block_aligned r r (t ! i ! unat (ap ! GF_INDEX m i))"

definition gf_mul_64k :: "gf_mode \<Rightarrow> block \<Rightarrow> block list list \<Rightarrow> block" where
  "gf_mul_64k m a t = (let r = foldl (xor_64k m a t) zero_block [15, 14, 13, 12, 11, 10, 9, 8, 7, 6, 5, 4, 3, 2, 1, 0] in
     copy_block_aligned a r)"

fun init_8k_loop :: "gf_mode \<Rightarrow> nat \<Rightarrow> nat \<Rightarrow> block list list \<Rightarrow> block list list" where
  "init_8k_loop m i left t =
    (let t = t[i := table_sums [2, 4, 8] (t ! i)] in
     case left of 0 \<Rightarrow> t
     | Suc n \<Rightarrow> init_8k_loop m (i + 1) n
         (if i + 1 > 1 then t[i + 1 := table_next m [8, 4, 2, 1] (t ! (i - 1)) (t ! (i + 1))] else t))"

definition init_8k_table :: "gf_mode \<Rightarrow> block \<Rightarrow> block list list \<Rightarrow> block list list" where
  "init_8k_table m g t =
    (let t0 = (t ! 0)[0 := zero_block];
         t1 = (t ! 1)[0 := zero_block]
     in init_8k_loop m 0 (2 * GF_BYTE_LEN - 1)
       (if m = LL \<or> m = BL then
          let t0 = table_powers m [1, 2, 4] (t0[1 := g]);
              t1 = table_powers m [1, 2, 4] (t1[1 := gf_mulx1 m (t1 ! 1) (t0 ! 8)])
          in t[0 := t0, 1 := t1]
        else
          let t1 = table_powers m [4, 2, 1] (t1[8 := g]);
              t0 = table_powers m [4, 2, 1] (t0[8 := gf_mulx1 m (t0 ! 8) (t1 ! 1)])
          in t[0 := t0, 1 := t1]))"

definition xor_8k :: "gf_mode \<Rightarrow> block \<Rightarrow> block list list \<Rightarrow> block \<Rightarrow> nat \<Rightarrow> block" where
  "xor_8k m ap t r i =
    (let r = xor_block_aligned r r (t ! (i + i) ! unat (ap ! GF_INDEX m i AND 15))
     in xor_block_aligned r r (t ! (i + i + 1) ! unat (drop_bit 4 (ap ! GF_INDEX m i))))"

definition gf_mul_8k :: "gf_mode \<Rightarrow> block \<Rightarrow> block list list \<Rightarrow> block" where
  "gf_mul_8k m a t = (let r = foldl (xor_8k m a t) zero_block [15, 14, 13, 12, 11, 10, 9, 8, 7, 6, 5, 4, 3, 2, 1, 0] in
     copy_block_aligned a r)"

subsection \<open>Blocks as field elements\<close>

lemma gf_byte_index_less: "i < 16 \<Longrightarrow> gf_byte_index m i < 16"
  by (auto simp add: gf_byte_index_def)

lemma GF_INDEX_eq [simp]: "GF_INDEX m i = gf_byte_index m i"
  by (simp add: GF_INDEX_def gf_byte_index_def)

lemma zero_block_length [simp]: "length zero_block = 16"
  by (simp add: zero_block_def)

lemma gf_val_zero [simp]: "gf_val m zero_block = 0"
  by (rule bit_word_eqI) (simp add: bit_gf_val zero_block_def gf_byte_index_def)

lemma gf_val_xor:
  assumes "length r = 16" "length p = 16" "length q = 16"
  shows "gf_val m (xor_block_aligned r p q) = gf_val m p XOR gf_val m q"
proof (rule bit_word_eqI)
  fix n assume n: "n < LENGTH(128)"
  then have "gf_byte_index m (n div 8) < 16" by (auto intro!: gf_byte_index_less)
  then show "bit (gf_val m (xor_block_aligned r p q)) n = bit (gf_val m p XOR gf_val m q) n"
    using n assms by (simp add: bit_gf_val xor_block_aligned_eq bit_xor_iff)
qed

text \<open>A digit of \<open>w\<close> bits selects powers of \<open>x\<close>, from its low or from its high end.\<close>

definition dsel :: "gf_mode \<Rightarrow> nat \<Rightarrow> nat \<Rightarrow> nat" where
  "dsel m w j = (if m = LL \<or> m = BL then j else w - 1 - j)"

lemma dsel_less [simp]: "j < w \<Longrightarrow> dsel m w j < w"
  by (auto simp: dsel_def)

lemma dsel_dsel: "j < w \<Longrightarrow> dsel m w (dsel m w j) = j"
  by (auto simp: dsel_def)

lemma dsel_eq_iff: "i < w \<Longrightarrow> j < w \<Longrightarrow> dsel m w i = dsel m w j \<longleftrightarrow> i = j"
  by (metis dsel_dsel)

definition dpoly :: "gf_mode \<Rightarrow> nat \<Rightarrow> nat \<Rightarrow> gf128 \<Rightarrow> gf128" where
  "dpoly m w c a = gpoly w (\<lambda>j. bit c (dsel m w j)) a"

lemma gpoly_cong: "(\<And>j. j < n \<Longrightarrow> P j = Q j) \<Longrightarrow> gpoly n P a = gpoly n Q a"
  unfolding gpoly_def by (rule xsum_cong) simp_all

lemma gpoly_none: "(\<And>j. j < n \<Longrightarrow> \<not> P j) \<Longrightarrow> gpoly n P a = 0"
  using gpoly_cong [of n P "\<lambda>_. False"] by (simp add: gpoly_def)

lemma gpoly_single: "q < n \<Longrightarrow> gpoly n (\<lambda>j. j = q) a = (gmulx ^^ q) a"
proof (induction n)
  case (Suc n)
  then show ?case
  proof (cases "q = n")
    case True
    then have "gpoly n (\<lambda>j. j = q) a = 0" by (intro gpoly_none) simp
    with True show ?thesis by (simp add: gpoly_def)
  qed (simp add: gpoly_def)
qed simp

lemma dpoly_0 [simp]: "dpoly m w 0 a = 0"
  unfolding dpoly_def by (rule gpoly_none) simp

lemma dpoly_power: "p < w \<Longrightarrow> dpoly m w (2 ^ p) a = (gmulx ^^ dsel m w p) a"
  unfolding dpoly_def
  by (subst gpoly_single [symmetric, of _ w]) (auto intro!: gpoly_cong simp: bit_exp_iff dsel_dsel)

lemma dpoly_add:
  assumes "k < 2 ^ p"
  shows "dpoly m w (2 ^ p + k) a = dpoly m w (2 ^ p) a XOR dpoly m w k a"
proof -
  have "\<not> bit k p" using assms by (simp add: bit_iff_odd)
  then have d: "\<not> bit (2 ^ p :: nat) n \<or> \<not> bit k n" for n by (auto simp: bit_exp_iff)
  then have "2 ^ p + k = 2 ^ p OR k" by (rule disjunctive_add)
  then show ?thesis unfolding dpoly_def gpoly_coeff_xor [symmetric]
    using d by (intro gpoly_cong) (auto simp: bit_or_iff)
qed

subsection \<open>Tables\<close>

definition entry :: "gf_mode \<Rightarrow> nat \<Rightarrow> gf128 \<Rightarrow> block list \<Rightarrow> nat \<Rightarrow> bool" where
  "entry m w a t c \<longleftrightarrow> gf_val m (t ! c) = dpoly m w c a"

text \<open>An array of blocks, and a table that holds the product with every digit.\<close>

definition blocks :: "nat \<Rightarrow> block list \<Rightarrow> bool" where
  "blocks n t \<longleftrightarrow> length t = n \<and> (\<forall>b\<in>set t. length b = 16)"

definition digit_table :: "gf_mode \<Rightarrow> nat \<Rightarrow> gf128 \<Rightarrow> block list \<Rightarrow> bool" where
  "digit_table m w a t \<longleftrightarrow> blocks (2 ^ w) t \<and> (\<forall>c < 2 ^ w. entry m w a t c)"

lemma blocks_nth [simp]: "blocks n t \<Longrightarrow> c < n \<Longrightarrow> length (t ! c) = 16"
  by (simp add: blocks_def)

lemma blocks_update [simp]: "blocks n t \<Longrightarrow> length b = 16 \<Longrightarrow> blocks n (t[c := b])"
  using set_update_subset_insert [of t c b] by (auto simp: blocks_def)

lemma sums_inner:
  assumes "blocks (2 ^ w) t" "p < w" "\<forall>c \<le> 2 ^ p. entry m w a t c" "1 \<le> n" "n \<le> 2 ^ p"
  defines "t' \<equiv> foldl (\<lambda>t k. t[2 ^ p + k := xor_block_aligned (t ! (2 ^ p + k)) (t ! (2 ^ p)) (t ! k)]) t [1..<n]"
  shows "blocks (2 ^ w) t' \<and> (\<forall>c < 2 ^ p + n. entry m w a t' c) \<and> (\<forall>c. 2 ^ p + n \<le> c \<longrightarrow> t' ! c = t ! c)"
  using assms(4,5) unfolding t'_def
proof (induction n rule: dec_induct)
  case base
  then show ?case using assms(1,3) by simp
next
  case (step n)
  let ?f = "\<lambda>t k. t[2 ^ p + k := xor_block_aligned (t ! (2 ^ p + k)) (t ! (2 ^ p)) (t ! k)]"
  define u where "u = foldl ?f t [1..<n]"
  have u: "blocks (2 ^ w) u" "\<forall>c < 2 ^ p + n. entry m w a u c" "\<forall>c. 2 ^ p + n \<le> c \<longrightarrow> u ! c = t ! c"
    using step by (simp_all add: u_def)
  have "(2 :: nat) ^ p + 2 ^ p \<le> 2 ^ w" using assms(2) by (simp flip: mult_2 power_Suc)
  then have lt: "2 ^ p + n < 2 ^ w" "2 ^ p < (2 :: nat) ^ w" "n < 2 ^ w" using step by linarith+
  then have l: "length (u ! (2 ^ p + n)) = 16" "length (u ! (2 ^ p)) = 16" "length (u ! n) = 16" "length u = 2 ^ w"
    using u(1) blocks_nth by (auto simp: blocks_def)
  have n: "n < 2 ^ p" "0 < n" using step by simp_all
  have "gf_val m (xor_block_aligned (u ! (2 ^ p + n)) (u ! (2 ^ p)) (u ! n)) = dpoly m w (2 ^ p + n) a"
    using u(2) n by (subst gf_val_xor [OF l(1-3)]) (simp add: entry_def dpoly_add)
  then have "\<forall>c < 2 ^ p + Suc n. entry m w a (?f u n) c"
    using u(2) lt l(4) by (auto simp: entry_def nth_list_update less_Suc_eq)
  moreover have "foldl ?f t [1..<Suc n] = ?f u n" using n by (simp add: u_def)
  moreover have "blocks (2 ^ w) (?f u n)" using u(1) l by simp
  ultimately show ?case using u(3) by simp
qed

lemma table_sums_powers:
  assumes "blocks (2 ^ w) t" "entry m w a t 0" "\<forall>p<w. entry m w a t (2 ^ p)" "1 \<le> n" "n \<le> w"
  defines "t' \<equiv> table_sums (map ((^) 2) [1..<n]) t"
  shows "blocks (2 ^ w) t' \<and> (\<forall>c < 2 ^ n. entry m w a t' c) \<and> (\<forall>p<w. entry m w a t' (2 ^ p))"
  using assms(4,5) unfolding t'_def
proof (induction n rule: dec_induct)
  case base
  have "\<forall>c < 2. entry m w a t c" using assms(2,3,5) assms(4) by (auto simp: less_2_cases_iff dest: spec [of _ 0])
  then show ?case using assms by (simp add: table_sums_def)
next
  case (step n)
  define u where "u = table_sums (map ((^) 2) [1..<n]) t"
  have u: "blocks (2 ^ w) u" "\<forall>c < 2 ^ n. entry m w a u c" "\<forall>p<w. entry m w a u (2 ^ p)"
    using step by (simp_all add: u_def)
  have "table_sums (map ((^) 2) [1..<Suc n]) t = table_sums [2 ^ n] u"
    using step by (simp add: u_def table_sums_def)
  moreover have nw: "n < w" using step by simp
  then have le: "\<forall>c \<le> 2 ^ n. entry m w a u c" using u(2,3) by (metis le_neq_implies_less)
  ultimately have r: "blocks (2 ^ w) (table_sums (map ((^) 2) [1..<Suc n]) t)"
    "\<forall>c < 2 ^ n + 2 ^ n. entry m w a (table_sums (map ((^) 2) [1..<Suc n]) t) c"
    "\<forall>c. 2 ^ n + 2 ^ n \<le> c \<longrightarrow> table_sums (map ((^) 2) [1..<Suc n]) t ! c = u ! c"
    using sums_inner [OF u(1) nw le, of "2 ^ n"] by (simp_all add: table_sums_def)
  have "entry m w a (table_sums (map ((^) 2) [1..<Suc n]) t) (2 ^ p)" if "p < w" for p
  proof (cases "p \<le> n")
    case True
    then have "2 ^ p \<le> (2 :: nat) ^ n" by simp
    then have "2 ^ p < 2 ^ n + (2 :: nat) ^ n" by (rule le_less_trans) simp
    then show ?thesis using r(2) by blast
  next
    case False
    then have "2 ^ n + 2 ^ n \<le> (2 :: nat) ^ p" by (simp flip: mult_2 power_Suc)
    then show ?thesis using r(3) u(3) that by (simp add: entry_def)
  qed
  with r show ?case by (simp add: mult_2)
qed

text \<open>The powers: the digit with one bit set selects one power of \<open>x\<close>, in the order the loop computes them.\<close>

definition power_chain :: "gf_mode \<Rightarrow> nat \<Rightarrow> nat \<Rightarrow> block list \<Rightarrow> block list" where
  "power_chain m w n t = foldl (\<lambda>t q. t[2 ^ dsel m w (Suc q) :=
     gf_mulx1 m (t ! (2 ^ dsel m w (Suc q))) (t ! (2 ^ dsel m w q))]) t [0..<n]"

lemma powers_chain:
  assumes "blocks (2 ^ w) t" "n < w" "gf_val m (t ! (2 ^ dsel m w 0)) = a"
  shows "blocks (2 ^ w) (power_chain m w n t) \<and>
    (\<forall>q \<le> n. gf_val m (power_chain m w n t ! (2 ^ dsel m w q)) = (gmulx ^^ q) a) \<and> power_chain m w n t ! 0 = t ! 0"
  using assms(2) unfolding power_chain_def
proof (induction n)
  case 0
  then show ?case using assms by simp
next
  case (Suc n)
  let ?f = "\<lambda>t q. t[2 ^ dsel m w (Suc q) := gf_mulx1 m (t ! (2 ^ dsel m w (Suc q))) (t ! (2 ^ dsel m w q))]"
  define u where "u = foldl ?f t [0..<n]"
  have u: "blocks (2 ^ w) u" "\<forall>q \<le> n. gf_val m (u ! (2 ^ dsel m w q)) = (gmulx ^^ q) a" "u ! 0 = t ! 0"
    using Suc by (simp_all add: u_def)
  have lt: "2 ^ dsel m w q < (2 :: nat) ^ w" if "q < w" for q using that by simp
  have l: "length (u ! (2 ^ dsel m w (Suc n))) = 16" "length (u ! (2 ^ dsel m w n)) = 16" "length u = 2 ^ w"
    using u(1) lt Suc.prems by (auto simp: blocks_def)
  note v = gf_mulx1_val [OF l(1,2), of m]
  have "\<forall>q \<le> Suc n. gf_val m (?f u n ! (2 ^ dsel m w q)) = (gmulx ^^ q) a"
    using u(2) v(2) lt Suc.prems l(3) by (auto simp: le_Suc_eq nth_list_update dsel_eq_iff)
  then show ?case using u(1,3) v(1) by (simp add: u_def [symmetric])
qed


lemma table_powers_8:
  "m = LL \<or> m = BL \<Longrightarrow> table_powers m [1, 2, 4, 8, 16, 32, 64] t = power_chain m 8 7 t"
  "\<not> (m = LL \<or> m = BL) \<Longrightarrow> table_powers m [64, 32, 16, 8, 4, 2, 1] t = power_chain m 8 7 t"
  by (simp_all add: table_powers_def power_chain_def dsel_def upt_rec flip: numeral_2_eq_2)

lemma table_powers_4:
  "m = LL \<or> m = BL \<Longrightarrow> table_powers m [1, 2, 4] t = power_chain m 4 3 t"
  "\<not> (m = LL \<or> m = BL) \<Longrightarrow> table_powers m [4, 2, 1] t = power_chain m 4 3 t"
  by (simp_all add: table_powers_def power_chain_def dsel_def upt_rec flip: numeral_2_eq_2)

lemma sums_lists: "[2, 4, 8, 16, 32, 64, 128 :: nat] = map ((^) 2) [1..<8]" "[2, 4, 8 :: nat] = map ((^) 2) [1..<4]"
  by (simp_all add: upt_rec)

text \<open>What a table needs before \<open>table_sums\<close> fills it.\<close>

definition seeded :: "gf_mode \<Rightarrow> nat \<Rightarrow> gf128 \<Rightarrow> block list \<Rightarrow> bool" where
  "seeded m w a t \<longleftrightarrow> blocks (2 ^ w) t \<and> entry m w a t 0 \<and> (\<forall>p<w. entry m w a t (2 ^ p))"

lemma seeded_sums:
  "seeded m w a t \<Longrightarrow> 0 < w \<Longrightarrow> digit_table m w a (table_sums (map ((^) 2) [1..<w]) t)"
  using table_sums_powers [of w t m a w] by (simp add: seeded_def digit_table_def)

lemma dpoly_pow: "(gmulx ^^ k) (dpoly m w c a) = dpoly m w c ((gmulx ^^ k) a)"
  by (simp add: dpoly_def gpoly_pow)

lemma power_chain_seeded:
  assumes t: "blocks (2 ^ w) t" and g: "length g = 16" and w: "1 < w"
  shows "seeded m w (gf_val m g) (power_chain m w (w - 1) (t[0 := zero_block, 2 ^ dsel m w 0 := g]))"
proof -
  let ?t = "t[0 := zero_block, 2 ^ dsel m w 0 := g]"
  let ?u = "power_chain m w (w - 1) ?t"
  have lt: "2 ^ dsel m w 0 < (2 :: nat) ^ w" using w by simp
  have len: "length t = 2 ^ w" using t by (simp add: blocks_def)
  have u: "blocks (2 ^ w) ?u" "\<forall>q \<le> w - 1. gf_val m (?u ! (2 ^ dsel m w q)) = (gmulx ^^ q) (gf_val m g)" "?u ! 0 = ?t ! 0"
    using powers_chain [of w ?t "w - 1" m "gf_val m g"] t g w lt len by simp_all
  have "entry m w (gf_val m g) ?u (2 ^ p)" if "p < w" for p
  proof -
    have "dsel m w p \<le> w - 1" using dsel_less [OF that, of m] by linarith
    then show ?thesis using u(2) [THEN spec, of "dsel m w p"] that by (simp add: entry_def dpoly_power dsel_dsel)
  qed
  moreover have "entry m w (gf_val m g) ?u 0" using u(3) len by (simp add: entry_def)
  ultimately show ?thesis using u(1) by (simp add: seeded_def)
qed

lemma foldl_update_blocks:
  "blocks n u \<Longrightarrow> (\<And>j. j \<in> set js \<Longrightarrow> length (f j) = 16) \<Longrightarrow> blocks n (foldl (\<lambda>t j. t[j := f j]) u js)"
  by (induction js arbitrary: u) simp_all

lemma table_next_seeded:
  assumes prev: "digit_table m w h prev" and t: "blocks (2 ^ w) t" and js: "set js = (^) 2 ` {..<w}"
  shows "seeded m w ((gmulx ^^ 8) h) (table_next m js prev t)"
proof -
  let ?u = "table_next m js prev t"
  have len: "length t = 2 ^ w" using t by (simp add: blocks_def)
  have p: "length (prev ! c) = 16" "gf_val m (prev ! c) = dpoly m w c h" if "c < 2 ^ w" for c
    using prev that by (auto simp: digit_table_def entry_def)
  have j: "j < 2 ^ w" if "j \<in> set js" for j using that js by auto
  have "blocks (2 ^ w) ?u" unfolding table_next_def
    using t p(1) j by (intro foldl_update_blocks) (simp_all add: gf_mulx8_val)
  moreover have "entry m w ((gmulx ^^ 8) h) ?u 0"
    using len js by (auto simp: entry_def table_next_def foldl_update_nth)
  moreover have "entry m w ((gmulx ^^ 8) h) ?u (2 ^ q)" if "q < w" for q
    using that len js p by (auto simp: entry_def table_next_def foldl_update_nth gf_mulx8_val dpoly_pow)
  ultimately show ?thesis by (simp add: seeded_def)
qed

lemma next_lists: "set [128, 64, 32, 16, 8, 4, 2, 1] = (^) (2 :: nat) ` {..<8}" "set [8, 4, 2, 1] = (^) (2 :: nat) ` {..<4}"
  by (auto simp: lessThan_Suc lessThan_nat_numeral)


lemma init_4k_digit_table:
  "blocks 256 t \<Longrightarrow> length g = 16 \<Longrightarrow> digit_table m 8 (gf_val m g) (init_4k_table m g t)"
  using seeded_sums [OF power_chain_seeded [of 8 t g m]]
  by (cases m) (simp_all add: init_4k_table_def Let_def table_powers_8 [unfolded One_nat_def] sums_lists dsel_def)

lemma init_256_digit_table:
  "blocks 16 t \<Longrightarrow> length g = 16 \<Longrightarrow> digit_table m 4 (gf_val m g) (init_256_table m g t)"
  using seeded_sums [OF power_chain_seeded [of 4 t g m]]
  by (cases m) (simp_all add: init_256_table_def Let_def table_powers_4 [unfolded One_nat_def] sums_lists dsel_def)


subsection \<open>Multiplication digit by digit\<close>

text \<open>The digits of a block, as the multipliers read them.\<close>

lemma bit_digit:
  assumes "i < 16" "j < 8"
  shows "bit (unat (a ! gf_byte_index m i)) (dsel m 8 j) \<longleftrightarrow> bit (gf_val m a) (8 * i + j)"
proof -
  have "(8 * i + j) div 8 = i" "(8 * i + j) mod 8 = j" "8 * i + j < 128" using assms by auto
  then show ?thesis by (simp add: bit_gf_val gf_bit_index_def dsel_def bit_unsigned_iff)
qed

lemma digit_value:
  assumes "i < 16" "digit_table m 8 h t"
  shows "gf_val m (t ! unat (a ! gf_byte_index m i)) = gpoly 8 (\<lambda>j. bit (gf_val m a) (8 * i + j)) h"
    "length (t ! unat (a ! gf_byte_index m i)) = 16"
proof -
  have lt: "unat (a ! gf_byte_index m i) < 2 ^ 8" using unsigned_less [of "a ! gf_byte_index m i"] by simp
  with assms(2) have "gf_val m (t ! unat (a ! gf_byte_index m i)) = dpoly m 8 (unat (a ! gf_byte_index m i)) h"
    by (simp add: digit_table_def entry_def)
  also have "\<dots> = gpoly 8 (\<lambda>j. bit (gf_val m a) (8 * i + j)) h"
    unfolding dpoly_def using assms(1) by (intro gpoly_cong) (simp add: bit_digit)
  finally show "gf_val m (t ! unat (a ! gf_byte_index m i)) = gpoly 8 (\<lambda>j. bit (gf_val m a) (8 * i + j)) h" .
  show "length (t ! unat (a ! gf_byte_index m i)) = 16"
    using lt assms(2) blocks_nth [of 256 t] by (auto simp: digit_table_def)
qed

text \<open>The multipliers run over the bytes from the highest power down, either shifting the sum or the summand.\<close>

lemma down_list: "[15, 14, 13, 12, 11, 10, 9, 8, 7, 6, 5, 4, 3, 2, 1, 0] = rev [0..<16]"
  by (simp add: upt_rec)

lemma gpoly_byte:
  assumes "n < 16"
  shows "gpoly (8 * (16 - n)) (\<lambda>k. bit v (8 * n + k)) h =
    (gmulx ^^ 8) (gpoly (8 * (16 - Suc n)) (\<lambda>k. bit v (8 * Suc n + k)) h) XOR gpoly 8 (\<lambda>j. bit v (8 * n + j)) h"
proof -
  have "8 * (16 - n) = 8 + 8 * (16 - Suc n)" using assms by simp
  then show ?thesis by (simp only: gpoly_split) (simp add: xor.commute add.assoc add.commute [of "8 * n"])
qed

lemma horner_bytes:
  assumes step: "\<And>r i. i < 16 \<Longrightarrow> length r = 16 \<Longrightarrow> length (f r i) = 16 \<and>
      gf_val m (f r i) = (gmulx ^^ 8) (gf_val m r) XOR gpoly 8 (\<lambda>j. bit v (8 * i + j)) h"
    and n: "n \<le> 16"
  shows "length (foldl f zero_block (rev [n..<16])) = 16 \<and>
    gf_val m (foldl f zero_block (rev [n..<16])) = gpoly (8 * (16 - n)) (\<lambda>k. bit v (8 * n + k)) h"
  using n
proof (induction n rule: inc_induct)
  case base
  then show ?case by (simp add: gpoly_def)
next
  case (step n)
  have "rev [n..<16] = rev [Suc n..<16] @ [n]" using step.hyps by (simp add: upt_rec)
  moreover have "gpoly (8 * (16 - n)) (\<lambda>k. bit v (8 * n + k)) h =
      (gmulx ^^ 8) (gpoly (8 * (16 - Suc n)) (\<lambda>k. bit v (8 * Suc n + k)) h) XOR gpoly 8 (\<lambda>j. bit v (8 * n + j)) h"
    using step.hyps(2) by (rule gpoly_byte)
  ultimately show ?case
    using step assms(1) [of n "foldl f zero_block (rev [Suc n..<16])"] by (simp only: foldl_append foldl_Cons foldl_Nil)
qed


lemma sum_bytes:
  assumes step: "\<And>r i. i < 16 \<Longrightarrow> length r = 16 \<Longrightarrow> length (f r i) = 16 \<and>
      gf_val m (f r i) = gf_val m r XOR (gmulx ^^ (8 * i)) (gpoly 8 (\<lambda>j. bit v (8 * i + j)) h)"
    and n: "n \<le> 16"
  shows "length (foldl f zero_block (rev [n..<16])) = 16 \<and>
    gf_val m (foldl f zero_block (rev [n..<16])) = (gmulx ^^ (8 * n)) (gpoly (8 * (16 - n)) (\<lambda>k. bit v (8 * n + k)) h)"
  using n
proof (induction n rule: inc_induct)
  case base
  then show ?case by (simp add: gpoly_def)
next
  case (step n)
  have "rev [n..<16] = rev [Suc n..<16] @ [n]" using step.hyps by (simp add: upt_rec)
  moreover have "(gmulx ^^ (8 * n)) (gpoly (8 * (16 - n)) (\<lambda>k. bit v (8 * n + k)) h) =
      (gmulx ^^ (8 * Suc n)) (gpoly (8 * (16 - Suc n)) (\<lambda>k. bit v (8 * Suc n + k)) h) XOR
      (gmulx ^^ (8 * n)) (gpoly 8 (\<lambda>j. bit v (8 * n + j)) h)"
    unfolding gpoly_byte [OF step.hyps(2)] gmulx_pow_xor gmulx_pow_comp by (simp add: add.commute [of "8 * n"])
  ultimately show ?case
    using step assms(1) [of n "foldl f zero_block (rev [Suc n..<16])"] by (simp only: foldl_append foldl_Cons foldl_Nil)
qed

lemma product_bits: "gpoly 128 (bit v) h = gmul v h"
  by (subst gmul_commute) (simp add: gmul_def)

definition lo_pos :: "gf_mode \<Rightarrow> nat" where
  "lo_pos m = (if m = LL \<or> m = BL then 0 else 4)"

lemma nibble_value:
  fixes a :: block
  defines "b m i \<equiv> a ! gf_byte_index m i"
  assumes i: "i < 16" and t: "digit_table m 4 h t"
  shows "gf_val m (t ! unat (b m i AND 0x0f)) = gpoly 4 (\<lambda>j. bit (gf_val m a) (8 * i + (lo_pos m + j))) h"
    "gf_val m (t ! unat (drop_bit 4 (b m i))) = gpoly 4 (\<lambda>j. bit (gf_val m a) (8 * i + (4 - lo_pos m + j))) h"
    "length (t ! unat (b m i AND 0x0f)) = 16" "length (t ! unat (drop_bit 4 (b m i))) = 16"
proof -
  have lo: "b m i AND 0x0f = take_bit 4 (b m i)" by (simp add: take_bit_eq_mask mask_eq_exp_minus_1)
  have b256: "unat (b m i) < 256" using unsigned_less [of "b m i"] by simp
  have lt: "unat (b m i AND 0x0f) < 2 ^ 4" "unat (drop_bit 4 (b m i)) < 2 ^ 4"
    using b256 take_bit_nat_less_exp [of 4 "unat (b m i)"]
    by (simp_all add: lo unsigned_take_bit_eq drop_bit_eq_div unat_div)
  then show "length (t ! unat (b m i AND 0x0f)) = 16" "length (t ! unat (drop_bit 4 (b m i))) = 16"
    using t blocks_nth [of 16 t] by (auto simp: digit_table_def)
  have "bit (unat (b m i AND 0x0f)) (dsel m 4 j) \<longleftrightarrow> bit (gf_val m a) (8 * i + (lo_pos m + j))" if "j < 4" for j
    using that bit_digit [OF i, of "lo_pos m + j" a m] unfolding lo
    by (auto simp: b_def bit_unsigned_iff bit_take_bit_iff dsel_def lo_pos_def split: if_splits)
  then have "dpoly m 4 (unat (b m i AND 0x0f)) h = gpoly 4 (\<lambda>j. bit (gf_val m a) (8 * i + (lo_pos m + j))) h"
    unfolding dpoly_def by (rule gpoly_cong)
  then show "gf_val m (t ! unat (b m i AND 0x0f)) = gpoly 4 (\<lambda>j. bit (gf_val m a) (8 * i + (lo_pos m + j))) h"
    using t lt(1) by (simp add: digit_table_def entry_def)
  have "bit (unat (drop_bit 4 (b m i))) (dsel m 4 j) \<longleftrightarrow> bit (gf_val m a) (8 * i + (4 - lo_pos m + j))" if "j < 4" for j
  proof -
    have "dsel m 8 (4 - lo_pos m + j) = 4 + dsel m 4 j" "4 - lo_pos m + j < 8" using that by (auto simp: dsel_def lo_pos_def)
    then show ?thesis using bit_digit [OF i, of "4 - lo_pos m + j" a m]
      by (simp add: b_def bit_unsigned_iff bit_drop_bit_eq)
  qed
  then have "dpoly m 4 (unat (drop_bit 4 (b m i))) h = gpoly 4 (\<lambda>j. bit (gf_val m a) (8 * i + (4 - lo_pos m + j))) h"
    unfolding dpoly_def by (rule gpoly_cong)
  then show "gf_val m (t ! unat (drop_bit 4 (b m i))) = gpoly 4 (\<lambda>j. bit (gf_val m a) (8 * i + (4 - lo_pos m + j))) h"
    using t lt(2) by (simp add: digit_table_def entry_def)
qed


subsection \<open>The multipliers\<close>

lemma gf_mul_4k_val:
  assumes t: "digit_table m 8 (gf_val m g) t" and a: "length a = 16"
  shows "gf_val m (gf_mul_4k m a t) = gmul (gf_val m a) (gf_val m g)" "length (gf_mul_4k m a t) = 16"
proof -
  have "length (xor_4k m a t r i) = 16 \<and> gf_val m (xor_4k m a t r i) =
      (gmulx ^^ 8) (gf_val m r) XOR gpoly 8 (\<lambda>j. bit (gf_val m a) (8 * i + j)) (gf_val m g)"
    if "i < 16" "length r = 16" for r i
    using that gf_mulx8_val [OF that(2), of m] digit_value [OF that(1) t, of a]
    by (simp add: xor_4k_def Let_def gf_val_xor)
  from horner_bytes [where f = "xor_4k m a t" and m = m, OF this, of 0]
  show "gf_val m (gf_mul_4k m a t) = gmul (gf_val m a) (gf_val m g)" "length (gf_mul_4k m a t) = 16"
    unfolding gf_mul_4k_def Let_def down_list by (simp_all add: a product_bits)
qed

lemma gf_mul_256_val:
  assumes t: "digit_table m 4 (gf_val m g) t" and a: "length a = 16"
  shows "gf_val m (gf_mul_256 m a t) = gmul (gf_val m a) (gf_val m g)" "length (gf_mul_256 m a t) = 16"
proof -
  have "length (xor_256 m a t r i) = 16 \<and> gf_val m (xor_256 m a t r i) =
      (gmulx ^^ 8) (gf_val m r) XOR gpoly 8 (\<lambda>j. bit (gf_val m a) (8 * i + j)) (gf_val m g)"
    if i: "i < 16" and r: "length r = 16" for r i
  proof -
    note d = nibble_value [OF i t, of a]
    have lo: "length (x_lo m a t r i) = 16 \<and> gf_val m (x_lo m a t r i) =
        (gmulx ^^ 4) (gf_val m r) XOR gpoly 4 (\<lambda>j. bit (gf_val m a) (8 * i + (lo_pos m + j))) (gf_val m g)"
      if "length r = 16" for r using gf_mulx4_val [OF that, of m] d by (simp add: x_lo_def Let_def gf_val_xor)
    have hi: "length (x_hi m a t r i) = 16 \<and> gf_val m (x_hi m a t r i) =
        (gmulx ^^ 4) (gf_val m r) XOR gpoly 4 (\<lambda>j. bit (gf_val m a) (8 * i + (4 - lo_pos m + j))) (gf_val m g)"
      if "length r = 16" for r using gf_mulx4_val [OF that, of m] d by (simp add: x_hi_def Let_def gf_val_xor)
    have "gpoly 8 (\<lambda>j. bit (gf_val m a) (8 * i + j)) (gf_val m g) =
        gpoly 4 (\<lambda>j. bit (gf_val m a) (8 * i + j)) (gf_val m g) XOR
        (gmulx ^^ 4) (gpoly 4 (\<lambda>j. bit (gf_val m a) (8 * i + (4 + j))) (gf_val m g))"
      using gpoly_split [of 4 4] by simp
    then show ?thesis
      using lo [of "x_hi m a t r i"] hi [of "x_lo m a t r i"] lo [OF r] hi [OF r]
      by (auto simp: xor_256_def lo_pos_def gmulx_pow_xor gmulx_pow_comp ac_simps)
  qed
  from horner_bytes [where f = "xor_256 m a t" and m = m, OF this, of 0]
  show "gf_val m (gf_mul_256 m a t) = gmul (gf_val m a) (gf_val m g)" "length (gf_mul_256 m a t) = 16"
    unfolding gf_mul_256_def Let_def down_list by (simp_all add: a product_bits)
qed


declare init_64k_loop.simps [simp del]

lemma init_64k_loop_tables:
  assumes "i + n = 15" "length t = 16" "\<forall>k<16. blocks 256 (t ! k)" "\<forall>k<i. digit_table m 8 ((gmulx ^^ (8 * k)) h) (t ! k)"
    "seeded m 8 ((gmulx ^^ (8 * i)) h) (t ! i)"
  shows "\<forall>k<16. digit_table m 8 ((gmulx ^^ (8 * k)) h) (init_64k_loop m i n t ! k)"
  using assms
proof (induction n arbitrary: i t)
  case 0
  then show ?case using seeded_sums [OF 0(5)] by (subst init_64k_loop.simps) (auto simp: nth_list_update sums_lists less_Suc_eq)
next
  case (Suc n)
  let ?t = "t[i := table_sums [2, 4, 8, 16, 32, 64, 128] (t ! i)]"
  let ?u = "?t[i + 1 := table_next m [128, 64, 32, 16, 8, 4, 2, 1] (?t ! i) (?t ! (i + 1))]"
  have i: "i < 15" using Suc.prems(1) by simp
  have d: "digit_table m 8 ((gmulx ^^ (8 * i)) h) (?t ! i)"
    using seeded_sums [OF Suc.prems(5)] Suc.prems(2) i by (simp add: sums_lists)
  then have b: "\<forall>k<16. blocks 256 (?t ! k)" using Suc.prems(2,3) i by (auto simp: nth_list_update digit_table_def)
  have s: "seeded m 8 ((gmulx ^^ (8 * Suc i)) h) (?u ! (i + 1))"
    using table_next_seeded [OF d _ next_lists(1), of "?t ! (i + 1)"] Suc.prems(2,3) i
    by (simp add: gmulx_pow_comp add.commute)
  have "\<forall>k<16. blocks 256 (?u ! k)"
    using b s Suc.prems(2) i by (auto simp: nth_list_update seeded_def)
  moreover have "\<forall>k<Suc i. digit_table m 8 ((gmulx ^^ (8 * k)) h) (?u ! k)"
    using d Suc.prems(2,4) i by (auto simp: less_Suc_eq nth_list_update)
  ultimately have "\<forall>k<16. digit_table m 8 ((gmulx ^^ (8 * k)) h) (init_64k_loop m (i + 1) n ?u ! k)"
    using s Suc.prems(1,2) by (intro Suc.IH) simp_all
  then show ?case by (subst init_64k_loop.simps) (simp only: Let_def nat.case)
qed

lemma init_64k_tables:
  assumes "length t = 16" "\<forall>k<16. blocks 256 (t ! k)" "length g = 16"
  shows "\<forall>k<16. digit_table m 8 ((gmulx ^^ (8 * k)) (gf_val m g)) (init_64k_table m g t ! k)"
proof -
  define t0 where "t0 = power_chain m 8 7 ((t ! 0)[0 := zero_block, 2 ^ dsel m 8 0 := g])"
  have s: "seeded m 8 (gf_val m g) t0"
    using power_chain_seeded [of 8 "t ! 0" g m] assms by (simp add: t0_def)
  have "init_64k_table m g t = init_64k_loop m 0 15 (t[0 := t0])"
    by (cases m) (simp_all add: init_64k_table_def Let_def GF_BYTE_LEN_def t0_def table_powers_8 [unfolded One_nat_def] dsel_def)
  moreover have "\<forall>k<16. blocks 256 (t[0 := t0] ! k)" using assms s by (auto simp: nth_list_update seeded_def)
  ultimately show ?thesis using init_64k_loop_tables [of 0 15 "t[0 := t0]" m "gf_val m g"] s assms(1) by simp
qed

lemma gf_mul_64k_val:
  assumes t: "\<forall>k<16. digit_table m 8 ((gmulx ^^ (8 * k)) (gf_val m g)) (t ! k)" and a: "length a = 16"
  shows "gf_val m (gf_mul_64k m a t) = gmul (gf_val m a) (gf_val m g)" "length (gf_mul_64k m a t) = 16"
proof -
  have "length (xor_64k m a t r i) = 16 \<and> gf_val m (xor_64k m a t r i) =
      gf_val m r XOR (gmulx ^^ (8 * i)) (gpoly 8 (\<lambda>j. bit (gf_val m a) (8 * i + j)) (gf_val m g))"
    if "i < 16" "length r = 16" for r i
    using that digit_value [OF that(1) t [rule_format, OF that(1)], of a]
    by (simp add: xor_64k_def gf_val_xor gpoly_pow)
  from sum_bytes [where f = "xor_64k m a t" and m = m, OF this, of 0]
  show "gf_val m (gf_mul_64k m a t) = gmul (gf_val m a) (gf_val m g)" "length (gf_mul_64k m a t) = 16"
    unfolding gf_mul_64k_def Let_def down_list by (simp_all add: a product_bits)
qed

definition base8 :: "gf_mode \<Rightarrow> nat \<Rightarrow> nat" where
  "base8 m k = 8 * (k div 2) + (if even k then lo_pos m else 4 - lo_pos m)"

lemma base8_step: "base8 m (Suc (Suc k)) = 8 + base8 m k"
  by (simp add: base8_def)

declare init_8k_loop.simps [simp del]

lemma init_8k_loop_tables:
  assumes "i + n = 31" "length t = 32" "\<forall>k<32. blocks 16 (t ! k)" "\<forall>k<i. digit_table m 4 ((gmulx ^^ base8 m k) h) (t ! k)"
    "seeded m 4 ((gmulx ^^ base8 m i) h) (t ! i)" "i = 0 \<longrightarrow> seeded m 4 ((gmulx ^^ base8 m 1) h) (t ! 1)"
  shows "\<forall>k<32. digit_table m 4 ((gmulx ^^ base8 m k) h) (init_8k_loop m i n t ! k)"
  using assms
proof (induction n arbitrary: i t)
  case 0
  then show ?case using seeded_sums [OF 0(5)] by (subst init_8k_loop.simps) (auto simp: nth_list_update sums_lists less_Suc_eq)
next
  case (Suc n)
  let ?t = "t[i := table_sums [2, 4, 8] (t ! i)]"
  let ?u = "if i + 1 > 1 then ?t[i + 1 := table_next m [8, 4, 2, 1] (?t ! (i - 1)) (?t ! (i + 1))] else ?t"
  have i: "i < 31" using Suc.prems(1) by simp
  have d: "digit_table m 4 ((gmulx ^^ base8 m i) h) (?t ! i)"
    using seeded_sums [OF Suc.prems(5)] Suc.prems(2) i by (simp add: sums_lists)
  then have b: "\<forall>k<32. blocks 16 (?t ! k)" using Suc.prems(2,3) i by (auto simp: nth_list_update digit_table_def)
  have s: "seeded m 4 ((gmulx ^^ base8 m (Suc i)) h) (?u ! (i + 1))"
  proof (cases i)
    case 0
    then show ?thesis using Suc.prems(6) by simp
  next
    case (Suc j)
    then have "digit_table m 4 ((gmulx ^^ base8 m j) h) (t ! j)" "blocks (2 ^ 4) (t ! Suc i)" using Suc.prems(3,4) i by simp_all
    from table_next_seeded [OF this next_lists(2)] Suc i Suc.prems(2) show ?thesis
      by (simp add: gmulx_pow_comp base8_step)
  qed
  have "\<forall>k<32. blocks 16 (?u ! k)"
  proof (cases "i = 0")
    case True
    with b show ?thesis by simp
  next
    case False
    with b s Suc.prems(2) i show ?thesis by (auto simp: nth_list_update seeded_def)
  qed
  moreover have "\<forall>k<Suc i. digit_table m 4 ((gmulx ^^ base8 m k) h) (?u ! k)"
    using d Suc.prems(2,4) i by (auto simp: less_Suc_eq nth_list_update)
  ultimately have "\<forall>k<32. digit_table m 4 ((gmulx ^^ base8 m k) h) (init_8k_loop m (i + 1) n ?u ! k)"
    using s Suc.prems(1,2) by (intro Suc.IH) simp_all
  then show ?case by (subst init_8k_loop.simps) (simp only: Let_def nat.case)
qed

lemma init_8k_tables:
  assumes "length t = 32" "\<forall>k<32. blocks 16 (t ! k)" "length g = 16"
  shows "\<forall>k<32. digit_table m 4 ((gmulx ^^ base8 m k) (gf_val m g)) (init_8k_table m g t ! k)"
proof -
  define lo where "lo = (if m = LL \<or> m = BL then 0 else 1 :: nat)"
  define u where "u = power_chain m 4 3 ((t ! lo)[0 := zero_block, 2 ^ dsel m 4 0 := g])"
  define g4 where "g4 = gf_mulx1 m (((t ! (1 - lo))[0 := zero_block]) ! (2 ^ dsel m 4 0)) (u ! (2 ^ dsel m 4 3))"
  define v where "v = power_chain m 4 3 ((t ! (1 - lo))[0 := zero_block, 2 ^ dsel m 4 0 := g4])"
  have lo: "lo < 32" "1 - lo < 32" by (simp_all add: lo_def)
  have s: "seeded m 4 (gf_val m g) u"
    using power_chain_seeded [of 4 "t ! lo" g m] assms lo by (simp add: u_def)
  have l: "length (((t ! (1 - lo))[0 := zero_block]) ! (2 ^ dsel m 4 0)) = 16" "length (u ! (2 ^ dsel m 4 3)) = 16"
    using s assms lo by (auto simp: seeded_def dsel_def)
  have "gf_val m (u ! (2 ^ dsel m 4 3)) = (gmulx ^^ 3) (gf_val m g)"
    using s dpoly_power [of "dsel m 4 3" 4 m] by (simp add: seeded_def entry_def dsel_dsel)
  then have g4: "length g4 = 16" "gf_val m g4 = (gmulx ^^ 4) (gf_val m g)"
    using gf_mulx1_val [OF l, of m] gmulx_pow_comp [of 1 3] by (simp_all add: g4_def)
  then have s4: "seeded m 4 ((gmulx ^^ 4) (gf_val m g)) v"
    using power_chain_seeded [of 4 "t ! (1 - lo)" g4 m] assms lo by (simp add: v_def)
  have "init_8k_table m g t = init_8k_loop m 0 31 (t[lo := u, 1 - lo := v])"
    by (cases m) (simp_all add: init_8k_table_def Let_def GF_BYTE_LEN_def u_def v_def g4_def lo_def
        table_powers_4 [unfolded One_nat_def] dsel_def list_update_swap)
  moreover have "\<forall>k<32. blocks 16 (t[lo := u, 1 - lo := v] ! k)"
    using assms s s4 lo by (auto simp: nth_list_update seeded_def)
  ultimately show ?thesis
    using init_8k_loop_tables [of 0 31 "t[lo := u, 1 - lo := v]" m "gf_val m g"] s s4 assms(1)
    by (cases "m = LL \<or> m = BL") (simp_all add: lo_def base8_def lo_pos_def)
qed

lemma gf_mul_8k_val:
  assumes t: "\<forall>k<32. digit_table m 4 ((gmulx ^^ base8 m k) (gf_val m g)) (t ! k)" and a: "length a = 16"
  shows "gf_val m (gf_mul_8k m a t) = gmul (gf_val m a) (gf_val m g)" "length (gf_mul_8k m a t) = 16"
proof -
  have "length (xor_8k m a t r i) = 16 \<and> gf_val m (xor_8k m a t r i) =
      gf_val m r XOR (gmulx ^^ (8 * i)) (gpoly 8 (\<lambda>j. bit (gf_val m a) (8 * i + j)) (gf_val m g))"
    if i: "i < 16" and r: "length r = 16" for r i
  proof -
    let ?P = "\<lambda>p. gpoly 4 (\<lambda>j. bit (gf_val m a) (8 * i + (p + j))) (gf_val m g)"
    have "i + i < 32" "i + i + 1 < 32" using i by simp_all
    note lo = nibble_value [OF i t [rule_format, OF this(1)], of a] and hi = nibble_value [OF i t [rule_format, OF this(2)], of a]
    have "(gmulx ^^ (8 * i)) (gpoly 8 (\<lambda>j. bit (gf_val m a) (8 * i + j)) (gf_val m g)) =
        (gmulx ^^ (8 * i)) (?P 0) XOR (gmulx ^^ (8 * i + 4)) (?P 4)"
      using gpoly_split [of 4 4] by (simp add: gmulx_pow_xor gmulx_pow_comp)
    also have "\<dots> = (gmulx ^^ base8 m (i + i)) (?P (lo_pos m)) XOR (gmulx ^^ base8 m (i + i + 1)) (?P (4 - lo_pos m))"
      by (auto simp: base8_def lo_pos_def xor.commute)
    finally show ?thesis using r lo hi by (simp add: xor_8k_def Let_def gf_val_xor gpoly_pow xor.assoc)
  qed
  from sum_bytes [where f = "xor_8k m a t" and m = m, OF this, of 0]
  show "gf_val m (gf_mul_8k m a t) = gmul (gf_val m a) (gf_val m g)" "length (gf_mul_8k m a t) = 16"
    unfolding gf_mul_8k_def Let_def down_list by (simp_all add: a product_bits)
qed


subsection \<open>The slow multiplier\<close>

lemma mulx_chain:
  assumes "blocks 8 p" "gf_val m (p ! 0) = h" "n < 8"
  defines "p' \<equiv> foldl (\<lambda>p i. p[Suc i := gf_mulx1 m (p ! Suc i) (p ! i)]) p [0..<n]"
  shows "blocks 8 p' \<and> (\<forall>k \<le> n. gf_val m (p' ! k) = (gmulx ^^ k) h)"
  using assms(3) unfolding p'_def
proof (induction n)
  case 0
  then show ?case using assms by simp
next
  case (Suc n)
  define u where "u = foldl (\<lambda>p i. p[Suc i := gf_mulx1 m (p ! Suc i) (p ! i)]) p [0..<n]"
  have u: "blocks 8 u" "\<forall>k \<le> n. gf_val m (u ! k) = (gmulx ^^ k) h" using Suc by (simp_all add: u_def)
  then have l: "length (u ! Suc n) = 16" "length (u ! n) = 16" "length u = 8" using Suc.prems by (auto simp: blocks_def)
  then show ?case using u gf_mulx1_val [OF l(1,2), of m] Suc.prems
    by (auto simp: u_def [symmetric] nth_list_update le_Suc_eq)
qed

lemma x_bit_test: "k < 8 \<Longrightarrow> ch AND (x_bit m ! k) = 0 \<longleftrightarrow> \<not> bit ch (gf_bit_index m k)"
proof -
  have "list_all (\<lambda>k. ch AND (x_bit m ! k) = 0 \<longleftrightarrow> \<not> bit ch (gf_bit_index m k)) [0..<8]"
    by (cases m) (simp_all add: x_bit_def gf_bit_index_def and_bit_tests upt_word_bits)
  then show "k < 8 \<Longrightarrow> ch AND (x_bit m ! k) = 0 \<longleftrightarrow> \<not> bit ch (gf_bit_index m k)" by (simp add: list_all_iff)
qed

lemma gf_mulTMD_step_val:
  assumes p: "blocks 8 p" "\<forall>k<8. gf_val m (p ! k) = (gmulx ^^ k) h" and a: "length a = 16" and i: "i < 16"
  shows "length (gf_mulTMD_step m p (b ! gf_byte_index m i) a) = 16 \<and>
    gf_val m (gf_mulTMD_step m p (b ! gf_byte_index m i) a) = gf_val m a XOR gpoly 8 (\<lambda>j. bit (gf_val m b) (8 * i + j)) h"
proof -
  let ?ch = "b ! gf_byte_index m i"
  have "length (foldl (\<lambda>a k. if ?ch AND (x_bit m ! k) \<noteq> 0 then xor_block_aligned a a (p ! k) else a) a [0..<n]) = 16 \<and>
    gf_val m (foldl (\<lambda>a k. if ?ch AND (x_bit m ! k) \<noteq> 0 then xor_block_aligned a a (p ! k) else a) a [0..<n]) =
      gf_val m a XOR gpoly n (\<lambda>k. bit ?ch (gf_bit_index m k)) h" if "n \<le> 8" for n
    using that
  proof (induction n)
    case 0
    then show ?case using a by (simp add: gpoly_def)
  next
    case (Suc n)
    then have "length (p ! n) = 16" using p(1) by simp
    with Suc p(2) show ?case by (simp add: x_bit_test gf_val_xor gpoly_def xor.assoc)
  qed
  from this [of 8] have "length (gf_mulTMD_step m p ?ch a) = 16"
    "gf_val m (gf_mulTMD_step m p ?ch a) = gf_val m a XOR gpoly 8 (\<lambda>k. bit ?ch (gf_bit_index m k)) h"
    by (simp_all add: gf_mulTMD_step_def upt_word_bits del: foldl_Cons)
  moreover have "gpoly 8 (\<lambda>k. bit ?ch (gf_bit_index m k)) h = gpoly 8 (\<lambda>j. bit (gf_val m b) (8 * i + j)) h"
    using i by (intro gpoly_cong) (simp add: bit_gf_val)
  ultimately show ?thesis by simp
qed

lemma gf_mulTMD_val:
  assumes a: "length a = 16"
  shows "gf_val m (gf_mulTMD m a b) = gmul (gf_val m a) (gf_val m b)" "length (gf_mulTMD m a b) = 16"
proof -
  define p where "p = foldl (\<lambda>p i. p[Suc i := gf_mulx1 m (p ! Suc i) (p ! i)])
    ((replicate 8 zero_block)[0 := copy_block_aligned zero_block a]) [0..<7]"
  have b0: "blocks 8 ((replicate 8 zero_block)[0 := copy_block_aligned zero_block a])"
    using a by (intro blocks_update) (simp_all add: blocks_def)
  have p: "blocks 8 p" "\<forall>k<8. gf_val m (p ! k) = (gmulx ^^ k) (gf_val m a)"
    using mulx_chain [OF b0, of m "gf_val m a" 7] a by (auto simp: p_def)
  let ?s = "\<lambda>i. gf_mulTMD_step m p (b ! gf_byte_index m i)"
  have inv: "length (foldl (\<lambda>a i. gf_mulx8 m (?s i a)) zero_block (rev [n..<16])) = 16 \<and>
    gf_val m (foldl (\<lambda>a i. gf_mulx8 m (?s i a)) zero_block (rev [n..<16])) =
      (gmulx ^^ 8) (gpoly (8 * (16 - n)) (\<lambda>k. bit (gf_val m b) (8 * n + k)) (gf_val m a))" if "n \<le> 16" for n
    using that
  proof (induction n rule: inc_induct)
    case base
    then show ?case by (simp add: gpoly_def)
  next
    case (step n)
    have "rev [n..<16] = rev [Suc n..<16] @ [n]" using step.hyps by (simp add: upt_rec)
    with step gf_mulTMD_step_val [OF p _ step.hyps(2), of _ b] show ?case
      by (simp add: gf_mulx8_val gpoly_byte [OF step.hyps(2)])
  qed
  have down: "[15, 14, 13, 12, 11, 10, 9, 8, 7, 6, 5, 4, 3, 2, 1] = rev [1..<16]"
    and up: "[0, 1, 2, 3, 4, 5, 6] = [0..<7]" by (simp_all add: upt_rec)
  have "gf_mulTMD m a b = ?s 0 (foldl (\<lambda>a i. gf_mulx8 m (?s i a)) zero_block (rev [1..<16]))"
    unfolding gf_mulTMD_def Let_def down up p_def by simp
  with gf_mulTMD_step_val [OF p inv [of 1, THEN conjunct1], of 0 b] inv [of 1] gpoly_byte [of 0 "gf_val m b" "gf_val m a"]
  show "gf_val m (gf_mulTMD m a b) = gmul (gf_val m a) (gf_val m b)" "length (gf_mulTMD m a b) = 16"
    by (simp_all add: gmul_def)
qed


subsection \<open>The interface of a table-driven multiplier\<close>

text \<open>
  What a client of the multipliers relies on: the table built for a factor multiplies by
  it. \<open>val\<close> reads a block as a field element; \<open>fresh\<close> says that a table has its type's shape.
\<close>

locale table_multiplier =
  fixes val :: "block \<Rightarrow> gf128" and fresh :: "'t \<Rightarrow> bool" and init :: "block \<Rightarrow> 't \<Rightarrow> 't" and mul :: "block \<Rightarrow> 't \<Rightarrow> block"
  assumes mul_val: "length a = 16 \<Longrightarrow> length g = 16 \<Longrightarrow> fresh t \<Longrightarrow> val (mul a (init g t)) = gmul (val a) (val g)"
    and mul_length: "length a = 16 \<Longrightarrow> length g = 16 \<Longrightarrow> fresh t \<Longrightarrow> length (mul a (init g t)) = 16"
    and val_xor: "length a = 16 \<Longrightarrow> length b = 16 \<Longrightarrow> val (map2 (XOR) a b) = val a XOR val b"
    and val_zero: "val zero_block = 0"
begin

text \<open>Hashing a sequence of blocks: the sum of the blocks times the powers of the key, highest first.\<close>

definition hash :: "block \<Rightarrow> 't \<Rightarrow> block list \<Rightarrow> block \<Rightarrow> block" where
  "hash g t bs y = foldl (\<lambda>y b. mul (map2 (XOR) y b) (init g t)) y bs"

lemma hash_length:
  assumes "length g = 16" "fresh t" "\<forall>b\<in>set bs. length b = 16" "length y = 16"
  shows "length (hash g t bs y) = 16"
  using assms(3,4) unfolding hash_def by (induction bs arbitrary: y) (simp_all add: assms(1,2) mul_length)

lemma hash_val:
  assumes "length g = 16" "fresh t" "\<forall>b\<in>set bs. length b = 16" "length y = 16"
  shows "val (hash g t bs y) = foldl (\<lambda>y b. gmul (y XOR val b) (val g)) (val y) bs"
  using assms(3,4) unfolding hash_def
  by (induction bs arbitrary: y) (simp_all add: assms(1,2) mul_length mul_val val_xor)

end

lemma gf_val_map2: "length a = 16 \<Longrightarrow> length b = 16 \<Longrightarrow> gf_val m (map2 (XOR) a b) = gf_val m a XOR gf_val m b"
  using gf_val_xor [of a a b m] by (simp add: xor_block_aligned_eq)

interpretation mul_4k: table_multiplier "gf_val m" "blocks 256" "init_4k_table m" "gf_mul_4k m" for m
  by unfold_locales (simp_all add: gf_mul_4k_val [OF init_4k_digit_table] gf_val_map2)

interpretation mul_256: table_multiplier "gf_val m" "blocks 16" "init_256_table m" "gf_mul_256 m" for m
  by unfold_locales (simp_all add: gf_mul_256_val [OF init_256_digit_table] gf_val_map2)

interpretation mul_64k: table_multiplier "gf_val m" "\<lambda>t. length t = 16 \<and> (\<forall>k<16. blocks 256 (t ! k))"
    "init_64k_table m" "gf_mul_64k m" for m
  by unfold_locales (simp_all add: gf_mul_64k_val [OF init_64k_tables] gf_val_map2)

interpretation mul_8k: table_multiplier "gf_val m" "\<lambda>t. length t = 32 \<and> (\<forall>k<32. blocks 16 (t ! k))"
    "init_8k_table m" "gf_mul_8k m" for m
  by unfold_locales (simp_all add: gf_mul_8k_val [OF init_8k_tables] gf_val_map2)


subsection \<open>Properties\<close>

lemma gf_val_inj:
  assumes "length a = 16" "length b = 16" "gf_val m a = gf_val m b"
  shows "a = b"
proof (rule nth_equalityI)
  fix i assume "i < length a"
  then have i: "gf_byte_index m i < 16" "gf_byte_index m (gf_byte_index m i) = i"
    using assms(1) by (auto simp: gf_byte_index_def)
  show "a ! i = b ! i"
  proof (rule bit_word_eqI)
    fix j assume "j < LENGTH(8)"
    then have j: "gf_bit_index m j < 8" "gf_bit_index m (gf_bit_index m j) = j" by (auto simp: gf_bit_index_def)
    let ?n = "8 * gf_byte_index m i + gf_bit_index m j"
    have "?n < 128" "?n div 8 = gf_byte_index m i" "?n mod 8 = gf_bit_index m j" using i(1) j(1) by auto
    then show "bit (a ! i) j = bit (b ! i) j"
      using assms(3) bit_gf_val [of ?n m a] bit_gf_val [of ?n m b] i(2) j(2) by simp
  qed
qed (simp add: assms)

text \<open>
  C9. All multipliers agree. In every representation the slow multiplier and the 256-byte,
  4k, 8k and 64k table-driven multipliers, with the table their initialisation builds for
  the second factor in any memory, produce the same block, and it represents the product
  of the two factors in the field.
\<close>

theorem gf_multipliers_agree:
  assumes a: "length a = 16" and g: "length g = 16" and t4: "blocks 256 t4" and t256: "blocks 16 t256"
    and t64: "length t64 = 16" "\<forall>k<16. blocks 256 (t64 ! k)" and t8: "length t8 = 32" "\<forall>k<32. blocks 16 (t8 ! k)"
  shows "gf_val m (gf_mulTMD m a g) = gmul (gf_val m a) (gf_val m g) \<and>
    gf_mul_4k m a (init_4k_table m g t4) = gf_mulTMD m a g \<and> gf_mul_256 m a (init_256_table m g t256) = gf_mulTMD m a g \<and>
    gf_mul_64k m a (init_64k_table m g t64) = gf_mulTMD m a g \<and> gf_mul_8k m a (init_8k_table m g t8) = gf_mulTMD m a g"
proof (intro conjI)
  note tmd = gf_mulTMD_val [OF a, of m g]
  show "gf_val m (gf_mulTMD m a g) = gmul (gf_val m a) (gf_val m g)" by (rule tmd(1))
  show "gf_mul_4k m a (init_4k_table m g t4) = gf_mulTMD m a g"
    using mul_4k.mul_val mul_4k.mul_length assms tmd by (intro gf_val_inj [of _ _ m]) simp_all
  show "gf_mul_256 m a (init_256_table m g t256) = gf_mulTMD m a g"
    using mul_256.mul_val mul_256.mul_length assms tmd by (intro gf_val_inj [of _ _ m]) simp_all
  show "gf_mul_64k m a (init_64k_table m g t64) = gf_mulTMD m a g"
    using mul_64k.mul_val mul_64k.mul_length assms tmd by (intro gf_val_inj [of _ _ m]) simp_all
  show "gf_mul_8k m a (init_8k_table m g t8) = gf_mulTMD m a g"
    using mul_8k.mul_val mul_8k.mul_length assms tmd by (intro gf_val_inj [of _ _ m]) simp_all
qed

theorem gf_multipliers_agree_witness:
  "gf_mul_4k LB (replicate 16 0x5A) (init_4k_table LB (replicate 16 0x3C) (replicate 256 zero_block)) =
    gf_mulTMD LB (replicate 16 0x5A) (replicate 16 0x3C)"
  using gf_multipliers_agree [of "replicate 16 0x5A" "replicate 16 0x3C" "replicate 256 zero_block" "replicate 16 zero_block"
      "replicate 16 (replicate 256 zero_block)" "replicate 32 (replicate 16 zero_block)" LB]
  by (simp add: blocks_def)

subsection \<open>Change of representation\<close>

text \<open>\<open>gf_convert.c\<close>; the flags of \<open>transform\<close> are combined by or.\<close>

definition REVERSE_NONE :: nat where "REVERSE_NONE = 0"
definition REVERSE_BITS :: nat where "REVERSE_BITS = 1"
definition REVERSE_BYTES :: nat where "REVERSE_BYTES = 2"

definition reverse_byte :: "byte \<Rightarrow> byte" where
  "reverse_byte i =
     (if i AND 0x80 \<noteq> 0 then 0x01 else 0) OR (if i AND 0x40 \<noteq> 0 then 0x02 else 0) OR
     (if i AND 0x20 \<noteq> 0 then 0x04 else 0) OR (if i AND 0x10 \<noteq> 0 then 0x08 else 0) OR
     (if i AND 0x08 \<noteq> 0 then 0x10 else 0) OR (if i AND 0x04 \<noteq> 0 then 0x20 else 0) OR
     (if i AND 0x02 \<noteq> 0 then 0x40 else 0) OR (if i AND 0x01 \<noteq> 0 then 0x80 else 0)"

definition rb_tab :: "byte list" where
  "rb_tab = DATA_256 reverse_byte"

definition reverse_bits :: "block \<Rightarrow> block \<Rightarrow> block" where
  "reverse_bits d s = foldl (\<lambda>d j. d[j := rb_tab ! unat (s ! j)]) d [0..<16]"

definition convert_representation :: "block \<Rightarrow> block \<Rightarrow> nat \<Rightarrow> block" where
  "convert_representation dest source tr =
    (if tr AND REVERSE_BITS \<noteq> 0 then
       let dest = reverse_bits dest source in
       if tr AND REVERSE_BYTES \<noteq> 0 then bswap128_block dest dest else dest
     else if tr AND REVERSE_BYTES \<noteq> 0 then bswap128_block dest source
     else source)"

lemma reverse_byte_bit: "j < 8 \<Longrightarrow> bit (reverse_byte i) j \<longleftrightarrow> bit i (7 - j)"
proof -
  have "list_all (\<lambda>j. bit (reverse_byte i) j \<longleftrightarrow> bit i (7 - j)) [0..<8]"
    by (simp add: reverse_byte_def and_bit_tests bit_if bit_or_iff if_bool_eq_conj upt_word_bits split del: if_split)
  then show "j < 8 \<Longrightarrow> bit (reverse_byte i) j \<longleftrightarrow> bit i (7 - j)" by (simp add: list_all_iff)
qed

lemma reverse_bits_eq:
  assumes "length d = 16" "length s = 16"
  shows "reverse_bits d s = map reverse_byte s"
proof -
  have "rb_tab ! unat (x :: byte) = reverse_byte x" for x
    using unsigned_less [of x, where ?'a = nat] by (simp add: rb_tab_def DATA_256_def)
  moreover have "length (foldl (\<lambda>d j. d[j := f j]) d js) = length d" for f :: "nat \<Rightarrow> byte" and js
    by (induction js arbitrary: d) simp_all
  ultimately show ?thesis
    using assms by (intro nth_equalityI) (simp_all add: reverse_bits_def foldl_update_nth)
qed

lemma rev_bytes_val:
  "length s = 16 \<Longrightarrow> gf_val BB (rev s) = gf_val LB s" "length s = 16 \<Longrightarrow> gf_val BL (rev s) = gf_val LL s"
  by (rule bit_word_eqI; simp add: bit_gf_val gf_byte_index_def gf_bit_index_def rev_nth)+

lemma reverse_bits_val: "length s = 16 \<Longrightarrow> gf_val LL (map reverse_byte s) = gf_val LB s"
  by (rule bit_word_eqI) (simp add: bit_gf_val gf_byte_index_def gf_bit_index_def reverse_byte_bit)

text \<open>
  The change of representation. Reversing bits takes the representation of GCM to LL,
  reversing bytes to BB and reversing both to BL, as the comment of \<open>gcm.c\<close> says: the new
  block stands for the same field element. Converting twice gives the block back.
\<close>

lemma convert_representation_correct:
  assumes "length d = 16" "length s = 16" "length e = 16"
  shows "gf_val LL (convert_representation d s REVERSE_BITS) = gf_val LB s \<and>
    gf_val BB (convert_representation d s REVERSE_BYTES) = gf_val LB s \<and>
    gf_val BL (convert_representation d s (REVERSE_BYTES OR REVERSE_BITS)) = gf_val LB s \<and>
    convert_representation d s REVERSE_NONE = s \<and> convert_representation e (convert_representation d s tr) tr = s"
proof -
  have inv: "reverse_byte (reverse_byte i) = i" for i by (rule bit_word_eqI) (simp add: reverse_byte_bit)
  show ?thesis using assms
    by (simp add: convert_representation_def REVERSE_BITS_def REVERSE_BYTES_def REVERSE_NONE_def reverse_bits_eq
        bswap128_block_eq rev_bytes_val reverse_bits_val inv comp_def flip: rev_map)
qed

lemma convert_representation_correct_witness:
  "convert_representation (replicate 16 0) (convert_representation (replicate 16 0) (map of_nat [0..<16]) REVERSE_BITS)
     REVERSE_BITS = map of_nat [0..<16]"
  using convert_representation_correct [of "replicate 16 0" "map of_nat [0..<16]" "replicate 16 0" REVERSE_BITS]
  by (simp only: length_map length_upt length_replicate)

end
