(* ===== verification/Gcm_Spec.thy ===== *)
theory Gcm_Spec
  imports Gf128_Mul
begin

text \<open>
  The Galois/Counter mode as NIST SP 800-38D defines it, over any block cipher \<open>E\<close> with a
  fixed key. Blocks and data are lists of bytes; a block stands for the field element its
  bits spell, as \<open>gf_val LB\<close> reads it. This is the reference for the code of \<open>gcm.c\<close>.
\<close>

subsection \<open>Blocks\<close>

function chunks :: "'a list \<Rightarrow> 'a list list" where
  "chunks xs = (if xs = [] then [] else take 16 xs # chunks (drop 16 xs))"
  by auto
termination by (relation "measure length") auto

declare chunks.simps [simp del]

definition pad16 :: "byte list \<Rightarrow> block" where
  "pad16 x = x @ replicate (16 - length x) 0"

definition padded :: "byte list \<Rightarrow> block list" where
  "padded x = map pad16 (chunks x)"

definition gf_byte :: "gf128 \<Rightarrow> nat \<Rightarrow> byte" where
  "gf_byte v i = foldl (\<lambda>b j. b OR (if bit v (8 * i + (7 - j)) then push_bit j 1 else 0)) 0 [0, 1, 2, 3, 4, 5, 6, 7]"

definition gf_block :: "gf128 \<Rightarrow> block" where
  "gf_block v = map (gf_byte v) [0..<16]"

text \<open>The number of bits of a string of bytes as a 64-bit string, most significant byte first.\<close>

definition bits64 :: "nat \<Rightarrow> byte list" where
  "bits64 n = map (\<lambda>i. word_of_nat (8 * n div 256 ^ (7 - i))) [0..<8]"

definition inc32 :: "block \<Rightarrow> block" where
  "inc32 b = take 12 b @ rev (ui32_bytes (ui32_of (b ! 15) (b ! 14) (b ! 13) (b ! 12) + 1))"

subsection \<open>The mode\<close>

definition GHASH :: "gf128 \<Rightarrow> block list \<Rightarrow> gf128" where
  "GHASH h xs = foldl (\<lambda>y x. gmul (y XOR gf_val LB x) h) 0 xs"

function GCTR :: "(block \<Rightarrow> block) \<Rightarrow> block \<Rightarrow> byte list \<Rightarrow> byte list" where
  "GCTR E cb x = (if x = [] then [] else map2 (XOR) (take 16 x) (E cb) @ GCTR E (inc32 cb) (drop 16 x))"
  by auto
termination by (relation "measure (\<lambda>(_, _, x). length x)") auto

declare GCTR.simps [simp del]

definition hash_key :: "(block \<Rightarrow> block) \<Rightarrow> gf128" where
  "hash_key E = gf_val LB (E zero_block)"

definition J0 :: "(block \<Rightarrow> block) \<Rightarrow> byte list \<Rightarrow> block" where
  "J0 E iv = (if length iv = 12 then iv @ [0, 0, 0, 1]
     else gf_block (GHASH (hash_key E) (padded iv @ [replicate 8 0 @ bits64 (length iv)])))"

definition gcm_tag :: "(block \<Rightarrow> block) \<Rightarrow> byte list \<Rightarrow> byte list \<Rightarrow> byte list \<Rightarrow> nat \<Rightarrow> byte list" where
  "gcm_tag E iv a c t =
    (let s = gf_block (GHASH (hash_key E) (padded a @ padded c @ [bits64 (length a) @ bits64 (length c)]))
     in take t (GCTR E (J0 E iv) s))"

definition GCM_AE :: "(block \<Rightarrow> block) \<Rightarrow> byte list \<Rightarrow> byte list \<Rightarrow> byte list \<Rightarrow> nat \<Rightarrow> byte list \<times> byte list" where
  "GCM_AE E iv p a t = (let c = GCTR E (inc32 (J0 E iv)) p in (c, gcm_tag E iv a c t))"

definition GCM_AD :: "(block \<Rightarrow> block) \<Rightarrow> byte list \<Rightarrow> byte list \<Rightarrow> byte list \<Rightarrow> byte list \<Rightarrow> byte list option" where
  "GCM_AD E iv c a tag = (if gcm_tag E iv a c (length tag) = tag then Some (GCTR E (inc32 (J0 E iv)) c) else None)"

subsection \<open>Facts about the mode\<close>

lemma bit_gf_byte: "j < 8 \<Longrightarrow> bit (gf_byte v i) j \<longleftrightarrow> bit v (8 * i + (7 - j))"
proof -
  have "list_all (\<lambda>j. bit (gf_byte v i) j \<longleftrightarrow> bit v (8 * i + (7 - j))) [0, 1, 2, 3, 4, 5, 6, 7]"
    by (simp add: gf_byte_def bit_simps bit_if if_bool_eq_conj split del: if_split)
  then show "j < 8 \<Longrightarrow> bit (gf_byte v i) j \<longleftrightarrow> bit v (8 * i + (7 - j))"
    unfolding upt_word_bits(2) [symmetric] by (simp add: list_all_iff)
qed

lemma gf_block_length [simp]: "length (gf_block v) = 16"
  by (simp add: gf_block_def)

lemma gf_val_block [simp]: "gf_val LB (gf_block v) = v"
proof (rule bit_word_eqI)
  fix n assume "n < LENGTH(128)"
  then have n: "n < 128" "n div 8 < 16" by auto
  then show "bit (gf_val LB (gf_block v)) n = bit v n"
    by (simp add: bit_gf_val gf_block_def gf_byte_index_def gf_bit_index_def bit_gf_byte)
qed

lemma gf_block_val: "length b = 16 \<Longrightarrow> gf_block (gf_val LB b) = b"
  by (rule gf_val_inj [of _ _ LB]) simp_all

text \<open>The key stream is its own inverse.\<close>

lemma map2_xor_twice: "length x \<le> length y \<Longrightarrow> map2 (XOR) (map2 (XOR) x y) y = (x :: byte list)"
  by (induction x y rule: list_induct2') (simp_all add: xor.assoc)

end
