(* ===== verification/Gcm_Mode.thy ===== *)
theory Gcm_Mode
  imports Gf128_Mul Aes_Cipher
begin

text \<open>
  The Galois/Counter mode of \<open>components/pilot/src/aeslib/gcm.c\<close> with the table of 4k
  (\<open>TABLES_4K\<close>) in the representation LB, as \<open>gf128mul.h\<close> selects. A buffer and its length are
  one list of bytes. The code takes a faster path when a buffer and the block it is
  combined with have the same alignment; the distance between their addresses is an
  argument of the functions that look at it. Encrypting with a context that was never
  keyed can read past its key schedule, hence the option results.
\<close>

subsection \<open>State\<close>

definition BLOCK_SIZE :: nat where "BLOCK_SIZE = AES_BLOCK_SIZE"
definition BLK_ADR_MASK :: u32 where "BLK_ADR_MASK = 15"
definition CTR_POS :: nat where "CTR_POS = 12"
definition BUF_INC :: nat where "BUF_INC = 4"
definition BUF_ADRMASK :: nat where "BUF_ADRMASK = 3"
definition RETURN_WARN :: int where "RETURN_WARN = 1"
definition RETURN_GOOD :: int where "RETURN_GOOD = 0"
definition RETURN_ERROR :: int where "RETURN_ERROR = -1"

record gcm_ctx =
  gf_t4k :: "block list"
  ctr_val :: block
  enc_ctr :: block
  hdr_ghv :: block
  txt_ghv :: block
  ghash_h :: block
  aes :: aes_ctx
  y0_val :: u32
  hdr_cnt :: u32
  txt_ccnt :: u32
  txt_acnt :: u32

text \<open>The counter: a loop over the last four bytes, from the end, until one does not wrap.\<close>

fun inc_ctr_from :: "nat \<Rightarrow> block \<Rightarrow> block" where
  "inc_ctr_from i x =
    (if CTR_POS < i
     then (let x = x[i - 1 := x ! (i - 1) + 1] in if x ! (i - 1) = 0 then inc_ctr_from (i - 1) x else x)
     else x)"

definition inc_ctr :: "block \<Rightarrow> block" where
  "inc_ctr x = inc_ctr_from BLOCK_SIZE x"

text \<open>Encrypting a block of the context; the code ignores the result of \<open>aes_encrypt\<close>.\<close>

definition encrypt_block :: "block \<Rightarrow> block \<Rightarrow> gcm_ctx \<Rightarrow> block option" where
  "encrypt_block inp out ctx = map_option snd (aes_encrypt inp out (aes ctx))"

subsection \<open>Keys and messages\<close>

definition gcm_init_and_key :: "byte list \<Rightarrow> nat \<Rightarrow> gcm_ctx \<Rightarrow> (int \<times> gcm_ctx) option" where
  "gcm_init_and_key key key_len ctx =
    (let ctx = ctx\<lparr>ghash_h := zero_block\<rparr>;
         ctx = ctx\<lparr>aes := snd (aes_encrypt_key128 key (aes ctx))\<rparr>
     in do {
       h \<leftarrow> encrypt_block (ghash_h ctx) (ghash_h ctx) ctx;
       let ctx = ctx\<lparr>ghash_h := h\<rparr>;
       let ctx = ctx\<lparr>gf_t4k := init_4k_table LB (ghash_h ctx) (gf_t4k ctx)\<rparr>;
       Some (RETURN_GOOD, ctx) })"

definition gf_mul_hh :: "block \<Rightarrow> gcm_ctx \<Rightarrow> block" where
  "gf_mul_hh a ctx = gf_mul_4k LB a (gf_t4k ctx)"

text \<open>The first \<open>length d\<close> bytes of a block, from position \<open>b\<close>, are xored with the bytes \<open>d\<close>.\<close>

fun xor_bytes :: "block \<Rightarrow> nat \<Rightarrow> byte list \<Rightarrow> block" where
  "xor_bytes g b [] = g"
| "xor_bytes g b (x # d) = xor_bytes (g[b := g ! b XOR x]) (b + 1) d"

function iv_blocks :: "gcm_ctx \<Rightarrow> block \<Rightarrow> byte list \<Rightarrow> block \<times> byte list" where
  "iv_blocks ctx c iv =
    (if BLOCK_SIZE \<le> length iv
     then iv_blocks ctx (gf_mul_hh (xor_block_aligned c c (take BLOCK_SIZE iv)) ctx) (drop BLOCK_SIZE iv)
     else (c, iv))"
  by auto
termination by (relation "measure (\<lambda>(_, _, iv). length iv)") (auto simp: BLOCK_SIZE_def AES_BLOCK_SIZE_def)

function iv_length :: "block \<Rightarrow> nat \<Rightarrow> u32 \<Rightarrow> block" where
  "iv_length c i n = (if n \<noteq> 0 then iv_length (c[i := c ! i XOR ucast n]) (i - 1) (drop_bit 8 n) else c)"
  by auto
termination
proof (relation "measure (\<lambda>(_, _, n). unat n)")
  fix c :: block and i and n :: u32 assume "n \<noteq> 0"
  then have "0 < unat n" by (simp add: unat_gt_0)
  then show "((c[i := c ! i XOR ucast n], i - 1, drop_bit 8 n), c, i, n) \<in> measure (\<lambda>(_, _, n). unat n)"
    using unsigned_drop_bit_eq [of 8 n, where ?'a = nat] le_less_trans [OF div_le_mono [OF take_bit_nat_less_eq_self [of 32 "unat n"], of 256]]
    by (simp add: drop_bit_eq_div [where ?'a = nat])
qed simp

definition gcm_init_message :: "byte list \<Rightarrow> gcm_ctx \<Rightarrow> int \<times> gcm_ctx" where
  "gcm_init_message iv ctx =
    (let c = (if length iv = CTR_POS
         then (take CTR_POS iv @ drop CTR_POS zero_block)[15 := 0x01]
         else
           let (c, rest) = iv_blocks ctx zero_block iv;
               c = (if rest \<noteq> [] then gf_mul_hh (xor_bytes c 0 rest) ctx else c);
               c = iv_length c (BLOCK_SIZE - 1) (push_bit 3 (word_of_nat (length iv)))
           in gf_mul_hh c ctx)
     in (RETURN_GOOD, ctx\<lparr>ctr_val := c, y0_val := ui32_at c CTR_POS, hdr_ghv := zero_block, txt_ghv := zero_block,
          hdr_cnt := 0, txt_acnt := 0, txt_ccnt := 0\<rparr>))"

subsection \<open>Authentication\<close>

text \<open>The loops of \<open>gcm_auth_header\<close> and \<open>gcm_auth_data\<close>: hash block, position in it, data left.\<close>

fun auth_to_unit :: "block \<Rightarrow> nat \<Rightarrow> byte list \<Rightarrow> block \<times> nat \<times> byte list" where
  "auth_to_unit g b [] = (g, b, [])"
| "auth_to_unit g b (x # d) = (if b AND BUF_ADRMASK \<noteq> 0 then auth_to_unit (g[b := g ! b XOR x]) (b + 1) d else (g, b, x # d))"

definition put_unit :: "byte list \<Rightarrow> nat \<Rightarrow> u32 \<Rightarrow> byte list" where
  "put_unit g b w = g[b := ui32_bytes w ! 0, b + 1 := ui32_bytes w ! 1, b + 2 := ui32_bytes w ! 2, b + 3 := ui32_bytes w ! 3]"

function auth_units :: "block \<Rightarrow> nat \<Rightarrow> byte list \<Rightarrow> block \<times> nat \<times> byte list" where
  "auth_units g b d =
    (if BUF_INC \<le> length d \<and> b \<le> BLOCK_SIZE - BUF_INC
     then auth_units (put_unit g b (ui32_at g b XOR ui32_at d 0)) (b + BUF_INC) (drop BUF_INC d)
     else (g, b, d))"
  by auto
termination by (relation "measure (\<lambda>(_, _, d). length d)") (auto simp: BUF_INC_def)

fun auth_to_block :: "block \<Rightarrow> nat \<Rightarrow> byte list \<Rightarrow> block \<times> nat \<times> byte list" where
  "auth_to_block g b [] = (g, b, [])"
| "auth_to_block g b (x # d) = (if b < BLOCK_SIZE then auth_to_block (g[b := g ! b XOR x]) (b + 1) d else (g, b, x # d))"

text \<open>The block loop of both paths; they differ in the xor routine only.\<close>

function auth_blocks :: "(block \<Rightarrow> block \<Rightarrow> block \<Rightarrow> block) \<Rightarrow> gcm_ctx \<Rightarrow> block \<Rightarrow> byte list \<Rightarrow> block \<times> byte list" where
  "auth_blocks xor_blk ctx g d =
    (if BLOCK_SIZE \<le> length d
     then (let g = gf_mul_hh g ctx in auth_blocks xor_blk ctx (xor_blk g g (take BLOCK_SIZE d)) (drop BLOCK_SIZE d))
     else (g, d))"
  by auto
termination by (relation "measure (\<lambda>(_, _, _, d). length d)") (auto simp: BLOCK_SIZE_def AES_BLOCK_SIZE_def)

fun auth_tail :: "gcm_ctx \<Rightarrow> block \<Rightarrow> nat \<Rightarrow> byte list \<Rightarrow> block" where
  "auth_tail ctx g b [] = g"
| "auth_tail ctx g b (x # d) =
    (let (g, b) = (if b = BLOCK_SIZE then (gf_mul_hh g ctx, 0) else (g, b)) in auth_tail ctx (g[b := g ! b XOR x]) (b + 1) d)"

definition aligned :: "int \<Rightarrow> nat \<Rightarrow> bool" where
  "aligned dist b \<longleftrightarrow> (dist - int b) AND int BUF_ADRMASK = 0"

definition gcm_auth_header :: "int \<Rightarrow> byte list \<Rightarrow> gcm_ctx \<Rightarrow> int \<times> gcm_ctx" where
  "gcm_auth_header dist hdr ctx =
    (let b = unat (hdr_cnt ctx AND BLK_ADR_MASK) in
     if hdr = [] then (RETURN_GOOD, ctx)
     else
       let g = (if hdr_cnt ctx \<noteq> 0 \<and> b = 0 then gf_mul_hh (hdr_ghv ctx) ctx else hdr_ghv ctx);
           (g, b, d) = (if aligned dist b
             then (let (g, b, d) = auth_to_unit g b hdr; (g, b, d) = auth_units g b d;
                       (g, d) = auth_blocks xor_block_aligned ctx g d in (g, b, d))
             else (let (g, b, d) = auth_to_block g b hdr; (g, d) = auth_blocks xor_block ctx g d in (g, b, d)));
           g = auth_tail ctx g b d
       in (RETURN_GOOD, ctx\<lparr>hdr_ghv := g, hdr_cnt := hdr_cnt ctx + word_of_nat (length hdr)\<rparr>))"

definition gcm_auth_data :: "int \<Rightarrow> byte list \<Rightarrow> gcm_ctx \<Rightarrow> int \<times> gcm_ctx" where
  "gcm_auth_data dist data ctx =
    (let b = unat (txt_acnt ctx AND BLK_ADR_MASK) in
     if data = [] then (RETURN_GOOD, ctx)
     else
       let g = (if txt_acnt ctx \<noteq> 0 \<and> b = 0 then gf_mul_hh (txt_ghv ctx) ctx else txt_ghv ctx);
           (g, b, d) = (if aligned dist b
             then (let (g, b, d) = auth_to_unit g b data; (g, b, d) = auth_units g b d;
                       (g, d) = auth_blocks xor_block_aligned ctx g d in (g, b, d))
             else (let (g, b, d) = auth_to_block g b data; (g, d) = auth_blocks xor_block ctx g d in (g, b, d)));
           g = auth_tail ctx g b d
       in (RETURN_GOOD, ctx\<lparr>txt_ghv := g, txt_acnt := txt_acnt ctx + word_of_nat (length data)\<rparr>))"

subsection \<open>Encryption and decryption\<close>

text \<open>The loops of \<open>gcm_crypt_data\<close>: key stream block, position in it, data done, data left.\<close>

fun crypt_to_unit :: "block \<Rightarrow> nat \<Rightarrow> byte list \<Rightarrow> byte list \<Rightarrow> nat \<times> byte list \<times> byte list" where
  "crypt_to_unit e b out [] = (b, out, [])"
| "crypt_to_unit e b out (x # d) = (if b AND BUF_ADRMASK \<noteq> 0 then crypt_to_unit e (b + 1) (out @ [x XOR e ! b]) d else (b, out, x # d))"

function crypt_units :: "block \<Rightarrow> nat \<Rightarrow> byte list \<Rightarrow> byte list \<Rightarrow> nat \<times> byte list \<times> byte list" where
  "crypt_units e b out d =
    (if BUF_INC \<le> length d \<and> b \<le> BLOCK_SIZE - BUF_INC
     then crypt_units e (b + BUF_INC) (out @ ui32_bytes (ui32_at d 0 XOR ui32_at e b)) (drop BUF_INC d)
     else (b, out, d))"
  by auto
termination by (relation "measure (\<lambda>(_, _, _, d). length d)") (auto simp: BUF_INC_def)

fun crypt_to_block :: "block \<Rightarrow> nat \<Rightarrow> byte list \<Rightarrow> byte list \<Rightarrow> nat \<times> byte list \<times> byte list" where
  "crypt_to_block e b out [] = (b, out, [])"
| "crypt_to_block e b out (x # d) = (if b < BLOCK_SIZE then crypt_to_block e (b + 1) (out @ [x XOR e ! b]) d else (b, out, x # d))"

definition next_block :: "gcm_ctx \<Rightarrow> gcm_ctx option" where
  "next_block ctx =
    (let ctx = ctx\<lparr>ctr_val := inc_ctr (ctr_val ctx)\<rparr> in do {
       e \<leftarrow> encrypt_block (ctr_val ctx) (enc_ctr ctx) ctx;
       Some (ctx\<lparr>enc_ctr := e\<rparr>) })"

function crypt_blocks ::
  "(block \<Rightarrow> block \<Rightarrow> block \<Rightarrow> block) \<Rightarrow> gcm_ctx \<Rightarrow> byte list \<Rightarrow> byte list \<Rightarrow> (gcm_ctx \<times> byte list \<times> byte list) option" where
  "crypt_blocks xor_blk ctx out d =
    (if BLOCK_SIZE \<le> length d
     then do {
       ctx \<leftarrow> next_block ctx;
       let p = take BLOCK_SIZE d;
       crypt_blocks xor_blk ctx (out @ xor_blk p p (enc_ctr ctx)) (drop BLOCK_SIZE d) }
     else Some (ctx, out, d))"
  by auto
termination by (relation "measure (\<lambda>(_, _, _, d). length d)") (auto simp: BLOCK_SIZE_def AES_BLOCK_SIZE_def)

fun crypt_tail :: "gcm_ctx \<Rightarrow> nat \<Rightarrow> byte list \<Rightarrow> byte list \<Rightarrow> (gcm_ctx \<times> byte list) option" where
  "crypt_tail ctx b out [] = Some (ctx, out)"
| "crypt_tail ctx b out (x # d) = do {
     (ctx, b) \<leftarrow> (if b = BLOCK_SIZE \<or> b = 0 then do { ctx \<leftarrow> next_block ctx; Some (ctx, 0) } else Some (ctx, b));
     crypt_tail ctx (b + 1) (out @ [x XOR enc_ctr ctx ! b]) d }"

definition gcm_crypt_data :: "int \<Rightarrow> byte list \<Rightarrow> gcm_ctx \<Rightarrow> (int \<times> byte list \<times> gcm_ctx) option" where
  "gcm_crypt_data dist data ctx =
    (let b = unat (txt_ccnt ctx AND BLK_ADR_MASK) in
     if data = [] then Some (RETURN_GOOD, data, ctx)
     else do {
       (b, ctx, out, d) \<leftarrow> (if aligned dist b
         then (let (b, out, d) = (if b \<noteq> 0
                 then (let (b, out, d) = crypt_to_unit (enc_ctr ctx) b [] data in crypt_units (enc_ctr ctx) b out d)
                 else (b, [], data))
               in do { (ctx, out, d) \<leftarrow> crypt_blocks xor_block_aligned ctx out d; Some (b, ctx, out, d) })
         else (let (b, out, d) = (if b \<noteq> 0 then crypt_to_block (enc_ctr ctx) b [] data else (b, [], data))
               in do { (ctx, out, d) \<leftarrow> crypt_blocks xor_block ctx out d; Some (b, ctx, out, d) }));
       (ctx, out) \<leftarrow> crypt_tail ctx b out d;
       Some (RETURN_GOOD, out, ctx\<lparr>txt_ccnt := txt_ccnt ctx + word_of_nat (length data)\<rparr>) })"

subsection \<open>The tag\<close>

text \<open>\<open>h\<close> times the \<open>n\<close>-th power of \<open>t\<close> by repeated squaring; \<open>n\<close> is not zero when the loop starts.\<close>

function mul_power :: "block \<Rightarrow> block \<Rightarrow> nat \<Rightarrow> block" where
  "mul_power h t n =
    (let h = (if odd n then gf_mulTMD LB h t else h); n = n div 2 in
     if n = 0 then h else mul_power h (gf_mulTMD LB t t) n)"
  by auto
termination by (relation "measure (\<lambda>(_, _, n). n)") auto

fun add_lengths :: "nat \<Rightarrow> u64 \<Rightarrow> u32 \<Rightarrow> block \<Rightarrow> block \<Rightarrow> block" where
  "add_lengths 0 tm hc t h = h"
| "add_lengths (Suc i) tm hc t h =
    add_lengths i (if i = 8 then push_bit 3 (ucast hc) else drop_bit 8 tm) hc t (h[i := h ! i XOR (t ! i XOR ucast tm)])"

definition gcm_compute_tag :: "byte list \<Rightarrow> gcm_ctx \<Rightarrow> (int \<times> byte list \<times> gcm_ctx) option" where
  "gcm_compute_tag tag ctx =
    (if txt_acnt ctx \<noteq> txt_ccnt ctx \<and> txt_ccnt ctx > 0 then Some (RETURN_ERROR, tag, ctx)
     else if BLOCK_SIZE < length tag then None
     else
       let h = gf_mul_hh (hdr_ghv ctx) ctx;
           t = gf_mul_hh (txt_ghv ctx) ctx;
           ln = (txt_acnt ctx + 16 - 1) div 16;
           h = (if hdr_cnt ctx \<noteq> 0 \<and> ln \<noteq> 0 then mul_power h (ghash_h ctx) (unat ln) else h);
           h = add_lengths BLOCK_SIZE (push_bit 3 (ucast (txt_acnt ctx))) (hdr_cnt ctx) t h;
           h = gf_mul_hh h ctx;
           e = put_unit (ctr_val ctx) CTR_POS (y0_val ctx)
       in do {
         e \<leftarrow> encrypt_block e e ctx;
         let ctx = ctx\<lparr>hdr_ghv := h, txt_ghv := t, enc_ctr := e\<rparr>;
         Some (if txt_ccnt ctx = txt_acnt ctx then RETURN_GOOD else RETURN_WARN, map2 (XOR) (take (length tag) h) (take (length tag) e), ctx) })"

definition gcm_end :: "gcm_ctx \<Rightarrow> int \<times> gcm_ctx" where
  "gcm_end ctx = (RETURN_GOOD, ctx\<lparr>gf_t4k := replicate 256 zero_block, ctr_val := zero_block, enc_ctr := zero_block, hdr_ghv := zero_block,
     txt_ghv := zero_block, ghash_h := zero_block, aes := \<lparr>ks = replicate KS_LENGTH 0, inf_b = [0, 0, 0, 0]\<rparr>,
     y0_val := 0, hdr_cnt := 0, txt_ccnt := 0, txt_acnt := 0\<rparr>)"

subsection \<open>Whole messages\<close>

text \<open>Where the caller's buffers lie, relative to the blocks of the context they are combined with.\<close>

record buf_dist =
  hdr_dist :: int
  enc_dist :: int
  txt_dist :: int

definition gcm_encrypt :: "buf_dist \<Rightarrow> byte list \<Rightarrow> gcm_ctx \<Rightarrow> (int \<times> byte list \<times> gcm_ctx) option" where
  "gcm_encrypt ds data ctx = do {
     (_, data, ctx) \<leftarrow> gcm_crypt_data (enc_dist ds) data ctx;
     let (_, ctx) = gcm_auth_data (txt_dist ds) data ctx;
     Some (RETURN_GOOD, data, ctx) }"

definition gcm_decrypt :: "buf_dist \<Rightarrow> byte list \<Rightarrow> gcm_ctx \<Rightarrow> (int \<times> byte list \<times> gcm_ctx) option" where
  "gcm_decrypt ds data ctx =
    (let (_, ctx) = gcm_auth_data (txt_dist ds) data ctx in do {
       (_, data, ctx) \<leftarrow> gcm_crypt_data (enc_dist ds) data ctx;
       Some (RETURN_GOOD, data, ctx) })"

definition gcm_encrypt_message ::
  "buf_dist \<Rightarrow> byte list \<Rightarrow> byte list \<Rightarrow> byte list \<Rightarrow> byte list \<Rightarrow> gcm_ctx \<Rightarrow> (int \<times> byte list \<times> byte list \<times> gcm_ctx) option" where
  "gcm_encrypt_message ds iv hdr msg tag ctx =
    (let (_, ctx) = gcm_init_message iv ctx;
         (_, ctx) = gcm_auth_header (hdr_dist ds) hdr ctx
     in do {
       (_, msg, ctx) \<leftarrow> gcm_encrypt ds msg ctx;
       (rr, tag, ctx) \<leftarrow> gcm_compute_tag tag ctx;
       Some (if rr \<noteq> 0 then RETURN_ERROR else RETURN_GOOD, msg, tag, ctx) })"

definition gcm_decrypt_message ::
  "buf_dist \<Rightarrow> byte list \<Rightarrow> byte list \<Rightarrow> byte list \<Rightarrow> byte list \<Rightarrow> gcm_ctx \<Rightarrow> (int \<times> byte list \<times> gcm_ctx) option" where
  "gcm_decrypt_message ds iv hdr msg tag ctx =
    (let (_, ctx) = gcm_init_message iv ctx;
         (_, ctx) = gcm_auth_header (hdr_dist ds) hdr ctx
     in do {
       (_, msg, ctx) \<leftarrow> gcm_decrypt ds msg ctx;
       (rr, local_tag, ctx) \<leftarrow> gcm_compute_tag (replicate (length tag) 0) ctx;
       Some (if rr \<noteq> RETURN_GOOD \<or> tag \<noteq> local_tag then RETURN_ERROR else RETURN_GOOD, msg, ctx) })"

declare inc_ctr_from.simps [simp del] iv_blocks.simps [simp del] iv_length.simps [simp del] auth_units.simps [simp del]
  auth_blocks.simps [simp del] crypt_units.simps [simp del] crypt_blocks.simps [simp del] mul_power.simps [simp del]

end
