(* ===== verification/Gcm_Auth.thy ===== *)
theory Gcm_Auth
  imports Gcm_Spec Gcm_Mode
begin

text \<open>
  The hash of \<open>gcm.c\<close>. Both paths of the authentication functions, with their loops over
  bytes, words and blocks, are shown equal to the plain byte loop at their end, and that
  loop to the hash of the standard. The code multiplies a block by the hash key only when
  the next one begins; \<open>lazy_hash\<close> is the value it keeps.
\<close>

subsection \<open>Keyed contexts\<close>

definition keyed_ctx :: "block \<Rightarrow> gcm_ctx \<Rightarrow> bool" where
  "keyed_ctx key ctx \<longleftrightarrow> keyed key (aes ctx) \<and> ghash_h ctx = fips_cipher key zero_block \<and>
     (\<exists>t. blocks 256 t \<and> gf_t4k ctx = init_4k_table LB (ghash_h ctx) t)"

abbreviation hkey :: "block \<Rightarrow> gf128" where
  "hkey key \<equiv> hash_key (fips_cipher key)"

lemma keyed_ctx_key [simp]: "keyed_ctx key ctx \<Longrightarrow> length key = 16"
  by (simp add: keyed_ctx_def keyed_def)

lemma gf_mul_hh_val:
  assumes "keyed_ctx key ctx" "length a = 16"
  shows "gf_val LB (gf_mul_hh a ctx) = gmul (gf_val LB a) (hkey key)" "length (gf_mul_hh a ctx) = 16"
proof -
  obtain t where t: "blocks 256 t" "gf_t4k ctx = init_4k_table LB (ghash_h ctx) t" "ghash_h ctx = fips_cipher key zero_block"
    using assms(1) by (auto simp: keyed_ctx_def)
  have h: "length (ghash_h ctx) = 16" using assms(1) t(3) by simp
  show "gf_val LB (gf_mul_hh a ctx) = gmul (gf_val LB a) (hkey key)"
    using mul_4k.mul_val [OF assms(2) h t(1)] by (simp add: gf_mul_hh_def t(2) hash_key_def flip: t(3))
  show "length (gf_mul_hh a ctx) = 16"
    using mul_4k.mul_length [OF assms(2) h t(1)] by (simp add: gf_mul_hh_def t(2))
qed

subsection \<open>The fast paths\<close>

lemma xor_bytes_length [simp]: "length (xor_bytes g b d) = length g"
  by (induction d arbitrary: g b) simp_all

lemma auth_tail_16: "auth_tail ctx g 16 (x # d) = auth_tail ctx (gf_mul_hh g ctx) 0 (x # d)"
  by (simp add: BLOCK_SIZE_def AES_BLOCK_SIZE_def)

lemma auth_tail_xor: "b + length p \<le> 16 \<Longrightarrow> auth_tail ctx g b (p @ d) = auth_tail ctx (xor_bytes g b p) (b + length p) d"
proof (induction p arbitrary: g b)
  case (Cons x p)
  then show ?case using Cons.IH [of "b + 1" "g[b := g ! b XOR x]"] by (simp add: BLOCK_SIZE_def AES_BLOCK_SIZE_def)
qed simp

lemma auth_to_unit_tail:
  "auth_to_unit g b d = (g', b', d') \<Longrightarrow> b \<le> 16 \<Longrightarrow>
    auth_tail ctx g b d = auth_tail ctx g' b' d' \<and> b' \<le> 16 \<and> length g' = length g \<and> (d' = [] \<or> b' mod 4 = 0)"
proof (induction g b d rule: auth_to_unit.induct)
  case (2 g b x d)
  have m: "b AND BUF_ADRMASK = b mod 4" using take_bit_eq_mod [of 2 b] by (simp add: BUF_ADRMASK_def take_bit_eq_mask mask_eq_exp_minus_1)
  show ?case
  proof (cases "b mod 4 = 0")
    case True
    with 2 show ?thesis by (auto simp: m)
  next
    case False
    then have "b \<noteq> 16" by auto
    with 2 False show ?thesis by (auto simp: m BLOCK_SIZE_def AES_BLOCK_SIZE_def)
  qed
qed auto

lemma auth_to_block_tail:
  "auth_to_block g b d = (g', b', d') \<Longrightarrow> b \<le> 16 \<Longrightarrow>
    auth_tail ctx g b d = auth_tail ctx g' b' d' \<and> b' \<le> 16 \<and> length g' = length g \<and> (d' = [] \<or> b' = 16)"
  by (induction g b d rule: auth_to_block.induct) (auto simp: BLOCK_SIZE_def AES_BLOCK_SIZE_def split: if_splits)

lemma put_unit_xor:
  "put_unit g b (ui32_at g b XOR ui32_at (x0 # x1 # x2 # x3 # d) 0) = xor_bytes g b [x0, x1, x2, x3]"
  by (simp add: put_unit_def ui32_at_def numeral_3_eq_3 flip: ui32_of_xor)

lemma auth_units_tail:
  "auth_units g b d = (g', b', d') \<Longrightarrow> b \<le> 16 \<Longrightarrow> d = [] \<or> b mod 4 = 0 \<Longrightarrow>
    auth_tail ctx g b d = auth_tail ctx g' b' d' \<and> length g' = length g \<and> (length d' < 4 \<or> b' = 16)"
proof (induction g b d arbitrary: g' b' d' rule: auth_units.induct)
  case (1 g b d)
  show ?case
  proof (cases "4 \<le> length d \<and> b \<le> 12")
    case True
    then obtain x0 x1 x2 x3 r where d: "d = x0 # x1 # x2 # x3 # r" by (auto simp: numeral_eq_Suc Suc_le_length_iff)
    have p: "d = [x0, x1, x2, x3] @ r" "length [x0, x1, x2, x3] = 4" by (simp_all add: d)
    have "auth_tail ctx g b d = auth_tail ctx (xor_bytes g b [x0, x1, x2, x3]) (b + 4) r"
      using auth_tail_xor [of b "[x0, x1, x2, x3]" ctx g r] True unfolding p by simp
    moreover have "auth_units (xor_bytes g b [x0, x1, x2, x3]) (b + 4) r = (g', b', d')"
      using "1.prems"(1) True by (subst (asm) auth_units.simps) (simp add: BUF_INC_def BLOCK_SIZE_def AES_BLOCK_SIZE_def d put_unit_xor)
    moreover have "(b + 4) mod 4 = 0" using "1.prems"(3) by (auto simp: d)
    ultimately show ?thesis
      using "1.IH" [of g' b' d'] True by (simp add: BUF_INC_def BLOCK_SIZE_def AES_BLOCK_SIZE_def d put_unit_xor)
  next
    case False
    then have e: "g' = g" "b' = b" "d' = d"
      using "1.prems"(1) by (subst (asm) auth_units.simps, auto simp: BUF_INC_def BLOCK_SIZE_def AES_BLOCK_SIZE_def)+
    have "b = 16" if "b mod 4 = 0" "\<not> b \<le> 12" using that "1.prems"(2) by presburger
    with False "1.prems"(3) show ?thesis by (auto simp: e)
  qed
qed

lemma xor_bytes_full: "length g = b + length p \<Longrightarrow> xor_bytes g b p = take b g @ map2 (XOR) (drop b g) p"
proof (induction p arbitrary: g b)
  case (Cons x p)
  then have "drop b g = g ! b # drop (Suc b) g" by (simp add: Cons_nth_drop_Suc)
  then show ?case using Cons by (simp add: take_Suc_conv_app_nth list_update_append)
qed simp

lemma auth_blocks_tail:
  assumes "xb = xor_block \<or> xb = xor_block_aligned" "keyed_ctx key ctx"
  shows "auth_blocks xb ctx g d = (g', d') \<Longrightarrow> length g = 16 \<Longrightarrow> length d < 16 \<or> b = 16 \<Longrightarrow> auth_tail ctx g b d = auth_tail ctx g' b d'"
  using assms
proof (induction xb ctx g d arbitrary: g' d' rule: auth_blocks.induct)
  case (1 xb ctx g d)
  show ?case
  proof (cases "16 \<le> length d")
    case True
    define h where "h = gf_mul_hh g ctx"
    have h: "length h = 16" using "1.prems" by (simp add: h_def gf_mul_hh_val)
    obtain x d1 where d: "d = x # d1" using True by (cases d) auto
    have x: "xb h h (take 16 d) = map2 (XOR) h (take 16 d)"
      using "1.prems"(4) h True by (auto simp: xor_block_eq xor_block_aligned_eq)
    have "auth_tail ctx g b d = auth_tail ctx h 0 (take 16 d @ drop 16 d)"
      using "1.prems"(3) True auth_tail_16 [of ctx g x d1] by (simp add: d h_def)
    also have "\<dots> = auth_tail ctx (map2 (XOR) h (take 16 d)) 16 (drop 16 d)"
      using True h by (subst auth_tail_xor) (simp_all add: xor_bytes_full)
    also have "\<dots> = auth_tail ctx g' 16 d'"
    proof -
      have "auth_blocks xb ctx (map2 (XOR) h (take 16 d)) (drop 16 d) = (g', d')"
        using "1.prems"(1) True by (subst (asm) auth_blocks.simps) (simp add: BLOCK_SIZE_def AES_BLOCK_SIZE_def h_def [symmetric] x)
      then show ?thesis
        using "1.IH" [of "gf_mul_hh g ctx" g' d'] "1.prems"(3-5) True h
        by (simp add: BLOCK_SIZE_def AES_BLOCK_SIZE_def h_def [symmetric] x)
    qed
    finally show ?thesis using "1.prems"(3) True by simp
  next
    case False
    then show ?thesis using "1.prems"(1) by (subst (asm) auth_blocks.simps) (simp add: BLOCK_SIZE_def AES_BLOCK_SIZE_def)
  qed
qed

text \<open>The result of both paths, followed by the byte loop, is that of the byte loop alone.\<close>

definition auth_paths :: "int \<Rightarrow> gcm_ctx \<Rightarrow> block \<Rightarrow> nat \<Rightarrow> byte list \<Rightarrow> block" where
  "auth_paths dist ctx g b d =
    (let (g, b, d) = (if aligned dist b
        then (let (g, b, d) = auth_to_unit g b d; (g, b, d) = auth_units g b d; (g, d) = auth_blocks xor_block_aligned ctx g d in (g, b, d))
        else (let (g, b, d) = auth_to_block g b d; (g, d) = auth_blocks xor_block ctx g d in (g, b, d)))
     in auth_tail ctx g b d)"

lemma auth_paths_tail:
  assumes "keyed_ctx key ctx" "length g = 16" "b \<le> 16"
  shows "auth_paths dist ctx g b d = auth_tail ctx g b d"
proof -
  note blk = auth_blocks_tail [OF _ assms(1)]
  show ?thesis
  proof (cases "aligned dist b")
    case True
    obtain g1 b1 d1 where 1: "auth_to_unit g b d = (g1, b1, d1)" using prod_cases3 by blast
    obtain g2 b2 d2 where 2: "auth_units g1 b1 d1 = (g2, b2, d2)" using prod_cases3 by blast
    obtain g3 d3 where 3: "auth_blocks xor_block_aligned ctx g2 d2 = (g3, d3)" by (cases "auth_blocks xor_block_aligned ctx g2 d2")
    note e1 = auth_to_unit_tail [OF 1 assms(3), of ctx]
    note e2 = auth_units_tail [OF 2, of ctx]
    show ?thesis using True e1 e2 blk [OF disjI2 [OF refl] 3, of b2] assms(2) by (auto simp: auth_paths_def 1 2 3)
  next
    case False
    obtain g1 b1 d1 where 1: "auth_to_block g b d = (g1, b1, d1)" using prod_cases3 by blast
    obtain g3 d3 where 3: "auth_blocks xor_block ctx g1 d1 = (g3, d3)" by (cases "auth_blocks xor_block ctx g1 d1")
    note e1 = auth_to_block_tail [OF 1 assms(3), of ctx]
    show ?thesis using False e1 blk [OF disjI1 [OF refl] 3, of b1] assms(2) by (auto simp: auth_paths_def 1 3)
  qed
qed

subsection \<open>The byte loop computes the hash\<close>

lemma chunks_Nil [simp]: "chunks [] = []"
  by (simp add: chunks.simps)

lemma chunks_short: "xs \<noteq> [] \<Longrightarrow> length xs \<le> 16 \<Longrightarrow> chunks xs = [xs]"
  by (subst chunks.simps) simp

lemma chunks_long: "16 < length xs \<Longrightarrow> chunks xs = take 16 xs # chunks (drop 16 xs)"
  by (subst chunks.simps) auto

lemma chunks_snoc_new: "length xs mod 16 = 0 \<Longrightarrow> chunks (xs @ [x]) = chunks xs @ [[x]]"
proof (induction xs rule: chunks.induct)
  case (1 xs)
  show ?case
  proof (cases "xs = []")
    case False
    then have l: "16 \<le> length xs" using "1.prems" by (cases "length xs < 16") (simp_all add: not_less)
    then have "length (drop 16 xs) mod 16 = 0" using "1.prems" by (simp add: mod_if [of "length xs"])
    then show ?thesis using "1.IH" False l by (subst (1 2) chunks.simps) simp
  qed (simp add: chunks_short)
qed

lemma chunks_snoc_in:
  "length xs mod 16 \<noteq> 0 \<Longrightarrow> \<exists>cs c. chunks xs = cs @ [c] \<and> length c = length xs mod 16 \<and> chunks (xs @ [x]) = cs @ [c @ [x]]"
proof (induction xs rule: chunks.induct)
  case (1 xs)
  show ?case
  proof (cases "length xs < 16")
    case True
    then show ?thesis using "1.prems" by (intro exI [of _ "[]"] exI [of _ xs]) (auto simp: chunks_short)
  next
    case False
    then have l: "16 < length xs" using "1.prems" by (cases "length xs = 16") auto
    then have m: "length (drop 16 xs) mod 16 = length xs mod 16" by (simp add: mod_if [of "length xs"])
    obtain cs c where "chunks (drop 16 xs) = cs @ [c] \<and> length c = length xs mod 16 \<and> chunks (drop 16 xs @ [x]) = cs @ [c @ [x]]"
      using "1.IH" "1.prems" m l by fastforce
    then show ?thesis using l by (intro exI [of _ "take 16 xs # cs"] exI [of _ c]) (simp add: chunks_long)
  qed
qed

definition lazy_hash :: "gf128 \<Rightarrow> byte list \<Rightarrow> gf128" where
  "lazy_hash h x = foldl (\<lambda>y b. gmul y h XOR gf_val LB b) 0 (padded x)"

definition at_byte :: "nat \<Rightarrow> byte \<Rightarrow> gf128" where
  "at_byte b x = gf_val LB (zero_block[b := x])"

lemma zero_block_rep: "zero_block = replicate 16 0"
  by (simp add: zero_block_def GF_BYTE_LEN_def)

lemma gf_val_xor_byte: "length g = 16 \<Longrightarrow> b < 16 \<Longrightarrow> gf_val LB (g[b := g ! b XOR x]) = gf_val LB g XOR at_byte b x"
proof -
  assume a: "length g = 16" "b < 16"
  then have "g[b := g ! b XOR x] = map2 (XOR) g (zero_block[b := x])"
    by (intro nth_equalityI) (auto simp: zero_block_rep nth_list_update)
  with a show ?thesis by (simp add: gf_val_map2 at_byte_def)
qed

lemma lazy_hash_new: "length d mod 16 = 0 \<Longrightarrow> lazy_hash h (d @ [x]) = gmul (lazy_hash h d) h XOR at_byte 0 x"
proof -
  have z: "zero_block = 0 # replicate 15 0" by (simp add: zero_block_rep flip: replicate_Suc)
  have "pad16 [x] = zero_block[0 := x]" unfolding z by (simp add: pad16_def)
  then show "length d mod 16 = 0 \<Longrightarrow> lazy_hash h (d @ [x]) = gmul (lazy_hash h d) h XOR at_byte 0 x"
    by (simp add: lazy_hash_def padded_def chunks_snoc_new at_byte_def)
qed

lemma lazy_hash_in:
  assumes "length d mod 16 \<noteq> 0"
  shows "lazy_hash h (d @ [x]) = lazy_hash h d XOR at_byte (length d mod 16) x"
proof -
  obtain cs c where c: "chunks d = cs @ [c]" "length c = length d mod 16" "chunks (d @ [x]) = cs @ [c @ [x]]"
    using chunks_snoc_in [OF assms] by blast
  have "length c < 16" by (simp add: c(2))
  then have "replicate (16 - length c) (0 :: byte) = 0 # replicate (16 - Suc (length c)) 0" by (simp flip: replicate_Suc add: Suc_diff_Suc)
  then have "pad16 (c @ [x]) = (pad16 c)[length c := pad16 c ! length c XOR x]" by (simp add: pad16_def nth_append)
  moreover have "length (pad16 c) = 16" using \<open>length c < 16\<close> by (simp add: pad16_def)
  ultimately have "gf_val LB (pad16 (c @ [x])) = gf_val LB (pad16 c) XOR at_byte (length c) x"
    using \<open>length c < 16\<close> by (simp add: gf_val_xor_byte)
  then show ?thesis by (simp add: lazy_hash_def padded_def c xor.assoc)
qed

text \<open>The position the code keeps after \<open>n\<close> bytes: a full block is not yet finished.\<close>

definition pos :: "nat \<Rightarrow> nat" where
  "pos n = (if n \<noteq> 0 \<and> n mod 16 = 0 then 16 else n mod 16)"

lemma auth_tail_hash:
  assumes "keyed_ctx key ctx"
  shows "length g = 16 \<Longrightarrow> gf_val LB g = lazy_hash (hkey key) d0 \<Longrightarrow> b = pos (length d0) \<Longrightarrow>
    length (auth_tail ctx g b d) = 16 \<and> gf_val LB (auth_tail ctx g b d) = lazy_hash (hkey key) (d0 @ d)"
proof (induction d arbitrary: g b d0)
  case (Cons x d)
  let ?g = "if b = 16 then gf_mul_hh g ctx else g" and ?b = "if b = 16 then 0 else b"
  have b: "?b = length d0 mod 16" "?b < 16" using Cons.prems(3) by (auto simp: pos_def)
  have g: "length ?g = 16" using Cons.prems(1) assms by (simp add: gf_mul_hh_val)
  have "gf_val LB (?g[?b := ?g ! ?b XOR x]) = lazy_hash (hkey key) (d0 @ [x])"
  proof (cases "length d0 mod 16 = 0")
    case True
    then have "lazy_hash (hkey key) (d0 @ [x]) = gmul (lazy_hash (hkey key) d0) (hkey key) XOR at_byte 0 x" by (rule lazy_hash_new)
    moreover have "gmul (lazy_hash (hkey key) d0) (hkey key) = gf_val LB ?g"
      using True Cons.prems assms by (cases "d0 = []") (auto simp: pos_def gf_mul_hh_val lazy_hash_def padded_def)
    ultimately show ?thesis using gf_val_xor_byte [OF g b(2)] b(1) True by simp
  next
    case False
    then show ?thesis using gf_val_xor_byte [OF g b(2)] b lazy_hash_in [OF False] Cons.prems by (auto simp: pos_def)
  qed
  moreover have "?b + 1 = pos (length (d0 @ [x]))" using b by (auto simp: pos_def mod_Suc)
  moreover have "auth_tail ctx g b (x # d) = auth_tail ctx (?g[?b := ?g ! ?b XOR x]) (?b + 1) d"
    by (cases "b = 16") (simp_all add: BLOCK_SIZE_def AES_BLOCK_SIZE_def)
  ultimately show ?case
    using Cons.IH [of "?g[?b := ?g ! ?b XOR x]" "d0 @ [x]" "?b + 1"] g by (simp only: length_list_update append.assoc append_Cons append_Nil)
qed simp

end
