(* ===== verification/Gcm_Crypt.thy ===== *)
theory Gcm_Crypt
  imports Gcm_Auth
begin

text \<open>
  The counter mode of \<open>gcm.c\<close>: both paths of \<open>gcm_crypt_data\<close> equal the plain byte loop, and
  that loop adds the key stream of the standard, wherever in the stream it starts.
\<close>

subsection \<open>The counter\<close>

lemma word_add_bytes:
  "ui32_of b0 b1 b2 b3 = ucast b0 + 0x100 * ucast b1 + 0x10000 * ucast b2 + 0x1000000 * ucast b3"
proof -
  have p: "push_bit 8 w = 0x100 * w" "push_bit 16 w = 0x10000 * w" "push_bit 24 w = 0x1000000 * w" for w :: u32
    by (simp_all add: push_bit_eq_mult mult.commute)
  note d = disjunctive_add_eq_or
  have "ucast b0 AND push_bit 8 (ucast b1) = (0 :: u32)"
    by (rule word_bits_eqI) (simp add: bit_simps upt_word_bits bit_beyond)
  moreover have "(ucast b0 OR push_bit 8 (ucast b1)) AND push_bit 16 (ucast b2) = (0 :: u32)"
    by (rule word_bits_eqI) (simp add: bit_simps upt_word_bits bit_beyond)
  moreover have "(ucast b0 OR push_bit 8 (ucast b1) OR push_bit 16 (ucast b2)) AND push_bit 24 (ucast b3) = (0 :: u32)"
    by (rule word_bits_eqI) (simp add: bit_simps upt_word_bits bit_beyond)
  ultimately show ?thesis unfolding p [symmetric] ui32_of_def by (simp only: d or.assoc)
qed

lemma ucast_succ: "b + 1 \<noteq> 0 \<Longrightarrow> ucast (b + 1 :: byte) = (ucast b + 1 :: u32)"
proof -
  assume b: "b + 1 \<noteq> 0"
  have "unat (b + 1) = (unat b + 1) mod 256" by (simp add: unat_word_ariths)
  moreover have "unat b \<noteq> 255" 
  proof
    assume "unat b = 255"
    then have "b = word_of_nat 255" by (metis of_nat_unat ucast_id)
    then show False using b by simp
  qed
  ultimately have "unat (b + 1) = unat b + 1" using unat_byte_less [of b] by simp
  then have "(word_of_nat (unat (b + 1)) :: u32) = word_of_nat (unat b + 1)" by simp
  then show ?thesis by simp
qed

lemma ui32_of_carry: "b0 + 1 = (0 :: byte) \<Longrightarrow> (ucast b0 :: u32) + 1 = 0x100"
proof -
  assume "b0 + 1 = 0"
  then have "b0 = -1" by (simp add: eq_neg_iff_add_eq_0)
  then have "b0 = 255" by simp
  then show ?thesis by simp
qed

lemma ui32_of_succ:
  "ui32_of b0 b1 b2 b3 + 1 =
    (if b0 + 1 \<noteq> 0 then ui32_of (b0 + 1) b1 b2 b3
     else if b1 + 1 \<noteq> 0 then ui32_of 0 (b1 + 1) b2 b3
     else if b2 + 1 \<noteq> 0 then ui32_of 0 0 (b2 + 1) b3 else ui32_of 0 0 0 (b3 + 1))"
proof -
  have r: "ucast b0 + 0x100 * ucast b1 + 0x10000 * ucast b2 + 0x1000000 * ucast b3 + 1 =
    (ucast b0 + 1) + 0x100 * ucast b1 + 0x10000 * ucast b2 + (0x1000000 :: u32) * ucast b3" by (simp add: ac_simps)
  have c: "ucast b = (0xff :: u32)" if "1 + b = 0" for b :: byte
    using ui32_of_carry [of b] that by (simp add: eq_diff_eq [symmetric] add.commute)
  have u: "ucast (1 + b) = (1 + ucast b :: u32)" if "1 + b \<noteq> 0" for b :: byte
    using ucast_succ [of b] that by (simp add: add.commute)
  have z: "(4294967296 :: u32) = 0"
    using word_of_nat_eq_0_iff [of "4294967296", where ?'a = 32] by simp
  show ?thesis unfolding word_add_bytes r
    by (cases "1 + b3 = 0"; cases "1 + b2 = 0"; cases "1 + b1 = 0"; cases "1 + b0 = 0")
      (simp_all add: u c z algebra_simps)
qed

lemma inc_ctr_eq: "length x = 16 \<Longrightarrow> inc_ctr x = inc32 x"
proof -
  have s: "inc_ctr_from (Suc i) x = (if x[i := x ! i + 1] ! i = 0 then inc_ctr_from i (x[i := x ! i + 1]) else x[i := x ! i + 1])" if "12 \<le> i" for i x
    using that by (subst inc_ctr_from.simps) (simp add: CTR_POS_def Let_def)
  note n = s [of 15, simplified] s [of 14, simplified] s [of 13, simplified] s [of 12, simplified] inc_ctr_from.simps [of 12]
  show "length x = 16 \<Longrightarrow> inc_ctr x = inc32 x"
    unfolding inc_ctr_def BLOCK_SIZE_def AES_BLOCK_SIZE_def
    by (elim list16_cases) (simp add: n CTR_POS_def inc32_def ui32_of_succ)
qed

lemma inc32_length [simp]: "length b = 16 \<Longrightarrow> length (inc32 b) = 16"
  by (simp add: inc32_def ui32_bytes_def)

lemma inc32_take [simp]: "length b = 16 \<Longrightarrow> take 12 (inc32 b) = take 12 b"
  by (simp add: inc32_def)

subsection \<open>The key stream\<close>

definition stream_byte :: "(block \<Rightarrow> block) \<Rightarrow> block \<Rightarrow> nat \<Rightarrow> byte" where
  "stream_byte E j n = E ((inc32 ^^ Suc (n div 16)) j) ! (n mod 16)"

primrec stream_xor :: "(block \<Rightarrow> block) \<Rightarrow> block \<Rightarrow> nat \<Rightarrow> byte list \<Rightarrow> byte list" where
  "stream_xor E j n [] = []"
| "stream_xor E j n (x # d) = (x XOR stream_byte E j n) # stream_xor E j (Suc n) d"

lemma stream_xor_length [simp]: "length (stream_xor E j n d) = length d"
  by (induction d arbitrary: n) simp_all

lemma stream_xor_append: "stream_xor E j n (c @ d) = stream_xor E j n c @ stream_xor E j (n + length c) d"
  by (induction c arbitrary: n) simp_all

lemma stream_xor_twice: "stream_xor E j n (stream_xor E j n d) = d"
  by (induction d arbitrary: n) (simp_all add: xor.assoc)

lemma stream_xor_block:
  "i + length d \<le> 16 \<Longrightarrow> length (E ((inc32 ^^ Suc k) j)) = 16 \<Longrightarrow>
    stream_xor E j (16 * k + i) d = map2 (XOR) d (drop i (E ((inc32 ^^ Suc k) j)))"
proof (induction d arbitrary: i)
  case (Cons x d)
  then have "drop i (E ((inc32 ^^ Suc k) j)) = E ((inc32 ^^ Suc k) j) ! i # drop (Suc i) (E ((inc32 ^^ Suc k) j))"
    by (simp add: Cons_nth_drop_Suc)
  then show ?case using Cons.IH [of "Suc i"] Cons.prems by (simp add: stream_byte_def)
qed simp

lemma inc32_pow_length [simp]: "length j = 16 \<Longrightarrow> length ((inc32 ^^ k) j) = 16"
  by (induction k) simp_all

lemma inc32_pow_take: "length j = 16 \<Longrightarrow> take 12 ((inc32 ^^ k) j) = take 12 j"
  by (induction k) simp_all

lemma GCTR_stream:
  assumes "\<And>b. length b = 16 \<Longrightarrow> length (E b) = 16" "length j = 16"
  shows "GCTR E ((inc32 ^^ Suc k) j) d = stream_xor E j (16 * k) d"
proof (induction "length d" arbitrary: d k rule: less_induct)
  case less
  show ?case
  proof (cases "d = []")
    case False
    have e: "length (E ((inc32 ^^ Suc k) j)) = 16" using assms inc32_pow_length by blast
    have "GCTR E ((inc32 ^^ Suc k) j) d = map2 (XOR) (take 16 d) (E ((inc32 ^^ Suc k) j)) @ stream_xor E j (16 * Suc k) (drop 16 d)"
      using less [of "drop 16 d" "Suc k"] False by (subst GCTR.simps) simp
    also have "\<dots> = stream_xor E j (16 * k) (take 16 d) @ stream_xor E j (16 * Suc k) (drop 16 d)"
      using stream_xor_block [of 0 "take 16 d" E k j] e by simp
    also have "\<dots> = stream_xor E j (16 * k) d"
      using stream_xor_append [of E j "16 * k" "take 16 d" "drop 16 d"] by (cases "16 \<le> length d") (simp_all add: add.commute)
    finally show ?thesis .
  qed (simp add: GCTR.simps)
qed

subsection \<open>The fast paths\<close>

lemma crypt_tail_16: "crypt_tail ctx 16 out d = crypt_tail ctx 0 out d"
  by (cases d) (simp_all add: BLOCK_SIZE_def AES_BLOCK_SIZE_def)

lemma crypt_tail_in:
  "b \<noteq> 0 \<Longrightarrow> b + length p \<le> 16 \<Longrightarrow> length (enc_ctr ctx) = 16 \<Longrightarrow>
    crypt_tail ctx b out (p @ d) = crypt_tail ctx (b + length p) (out @ map2 (XOR) p (drop b (enc_ctr ctx))) d"
proof (induction p arbitrary: b out)
  case (Cons x p)
  then have "drop b (enc_ctr ctx) = enc_ctr ctx ! b # drop (Suc b) (enc_ctr ctx)" by (simp add: Cons_nth_drop_Suc)
  then show ?case using Cons by (simp add: BLOCK_SIZE_def AES_BLOCK_SIZE_def)
qed simp

lemma crypt_to_unit_tail:
  "crypt_to_unit (enc_ctr ctx) b out d = (b', out', d') \<Longrightarrow> 0 < b \<Longrightarrow> b \<le> 16 \<Longrightarrow>
    crypt_tail ctx b out d = crypt_tail ctx b' out' d' \<and> 0 < b' \<and> b' \<le> 16 \<and> (d' = [] \<or> b' mod 4 = 0)"
proof (induction "enc_ctr ctx" b out d rule: crypt_to_unit.induct)
  case (2 b out x d)
  have m: "b AND BUF_ADRMASK = b mod 4" using take_bit_eq_mod [of 2 b] by (simp add: BUF_ADRMASK_def take_bit_eq_mask mask_eq_exp_minus_1)
  show ?case
  proof (cases "b mod 4 = 0")
    case True
    with 2 show ?thesis by (auto simp: m)
  next
    case False
    then have "b \<noteq> 16" by auto
    with 2 False show ?thesis by (auto simp: m BLOCK_SIZE_def AES_BLOCK_SIZE_def)
  qed
qed auto

lemma crypt_to_block_tail:
  "crypt_to_block (enc_ctr ctx) b out d = (b', out', d') \<Longrightarrow> 0 < b \<Longrightarrow> b \<le> 16 \<Longrightarrow>
    crypt_tail ctx b out d = crypt_tail ctx b' out' d' \<and> (d' = [] \<or> b' = 16)"
  by (induction "enc_ctr ctx" b out d rule: crypt_to_block.induct) (auto simp: BLOCK_SIZE_def AES_BLOCK_SIZE_def split: if_splits)

lemma unit_xor:
  "length e = 16 \<Longrightarrow> b \<le> 12 \<Longrightarrow>
    ui32_bytes (ui32_at (x0 # x1 # x2 # x3 # d) 0 XOR ui32_at e b) = map2 (XOR) [x0, x1, x2, x3] (drop b e)"
proof -
  assume a: "length e = 16" "b \<le> 12"
  then have "drop b e = e ! b # e ! (b + 1) # e ! (b + 2) # e ! (b + 3) # drop (b + 4) e"
    by (simp add: Cons_nth_drop_Suc flip: numeral_2_eq_2 numeral_3_eq_3) (simp add: Cons_nth_drop_Suc numeral_eq_Suc)
  then show ?thesis by (simp add: ui32_at_def ui32_of_xor' numeral_3_eq_3)
qed

lemma crypt_units_tail:
  "crypt_units (enc_ctr ctx) b out d = (b', out', d') \<Longrightarrow> 0 < b \<Longrightarrow> b \<le> 16 \<Longrightarrow> d = [] \<or> b mod 4 = 0 \<Longrightarrow> length (enc_ctr ctx) = 16 \<Longrightarrow>
    crypt_tail ctx b out d = crypt_tail ctx b' out' d' \<and> (length d' < 4 \<or> b' = 16)"
proof (induction "enc_ctr ctx" b out d arbitrary: b' out' d' rule: crypt_units.induct)
  case (1 b out d)
  show ?case
  proof (cases "4 \<le> length d \<and> b \<le> 12")
    case True
    then obtain x0 x1 x2 x3 r where d: "d = x0 # x1 # x2 # x3 # r" by (auto simp: numeral_eq_Suc Suc_le_length_iff)
    let ?o = "map2 (XOR) [x0, x1, x2, x3] (drop b (enc_ctr ctx))"
    have p: "d = [x0, x1, x2, x3] @ r" by (simp add: d)
    have u: "ui32_bytes (ui32_at d 0 XOR ui32_at (enc_ctr ctx) b) = ?o"
      using unit_xor [of "enc_ctr ctx" b x0 x1 x2 x3 r] True "1.prems"(5) by (simp add: d)
    have "crypt_tail ctx b out d = crypt_tail ctx (b + 4) (out @ ?o) r"
      using crypt_tail_in [of b "[x0, x1, x2, x3]" ctx out r, folded p] True "1.prems"(2,5) by (simp add: numeral_eq_Suc)
    moreover have "crypt_units (enc_ctr ctx) (b + 4) (out @ ?o) r = (b', out', d')"
      using "1.prems"(1) True by (subst (asm) crypt_units.simps) (simp only: u, simp add: BUF_INC_def BLOCK_SIZE_def AES_BLOCK_SIZE_def d)
    moreover have "(b + 4) mod 4 = 0" using "1.prems"(4) by (auto simp: d)
    ultimately show ?thesis
      using "1.hyps" [of b' out' d'] True "1.prems"(5) unfolding u by (simp add: BUF_INC_def BLOCK_SIZE_def AES_BLOCK_SIZE_def d)
  next
    case False
    then have e: "b' = b" "out' = out" "d' = d"
      using "1.prems"(1) by (subst (asm) crypt_units.simps, auto simp: BUF_INC_def BLOCK_SIZE_def AES_BLOCK_SIZE_def)+
    have "b = 16" if "b mod 4 = 0" "\<not> b \<le> 12" using that "1.prems"(3) by presburger
    with False "1.prems"(4) show ?thesis by (auto simp: e)
  qed
qed

text \<open>With a key and blocks of the right size, the next block of the key stream always exists.\<close>

definition stream_ctx :: "block \<Rightarrow> gcm_ctx \<Rightarrow> bool" where
  "stream_ctx key ctx \<longleftrightarrow> keyed_ctx key ctx \<and> length (ctr_val ctx) = 16 \<and> length (enc_ctr ctx) = 16"

definition next_ctx :: "block \<Rightarrow> gcm_ctx \<Rightarrow> gcm_ctx" where
  "next_ctx key ctx = ctx\<lparr>ctr_val := inc32 (ctr_val ctx), enc_ctr := fips_cipher key (inc32 (ctr_val ctx))\<rparr>"

lemma encrypt_block_keyed:
  "keyed_ctx key ctx \<Longrightarrow> length x = 16 \<Longrightarrow> length y = 16 \<Longrightarrow> encrypt_block x y ctx = Some (fips_cipher key x)"
  using aes_encrypt_keyed [of key "aes ctx" x y] by (simp add: encrypt_block_def keyed_ctx_def)

lemma keyed_ctx_counter [simp]: "keyed_ctx key (ctx\<lparr>ctr_val := c\<rparr>) = keyed_ctx key ctx" "keyed_ctx key (ctx\<lparr>enc_ctr := c\<rparr>) = keyed_ctx key ctx"
  by (simp_all add: keyed_ctx_def)

lemma next_block_keyed: "stream_ctx key ctx \<Longrightarrow> next_block ctx = Some (next_ctx key ctx)"
  by (simp add: next_block_def Let_def stream_ctx_def inc_ctr_eq encrypt_block_keyed [of key] next_ctx_def)

lemma next_ctx_stream [simp]: "stream_ctx key ctx \<Longrightarrow> stream_ctx key (next_ctx key ctx)"
  using keyed_ctx_key by (auto simp: stream_ctx_def next_ctx_def)

lemma crypt_tail_block:
  assumes "stream_ctx key ctx" "length p = 16"
  shows "crypt_tail ctx 0 out (p @ d) = crypt_tail (next_ctx key ctx) 16 (out @ map2 (XOR) p (enc_ctr (next_ctx key ctx))) d"
proof -
  obtain x q where p: "p = x # q" using assms(2) by (cases p) auto
  let ?e = "enc_ctr (next_ctx key ctx)"
  have e: "length ?e = 16" using next_ctx_stream [OF assms(1)] by (simp add: stream_ctx_def)
  then have h: "?e = ?e ! 0 # drop 1 ?e" by (simp add: Cons_nth_drop_Suc)
  have "map2 (XOR) p ?e = (x XOR ?e ! 0) # map2 (XOR) q (drop 1 ?e)" by (subst h) (simp add: p)
  then show ?thesis
    using crypt_tail_in [of 1 q "next_ctx key ctx" "out @ [x XOR ?e ! 0]" d] assms e next_block_keyed [OF assms(1)] by (simp add: p)
qed

lemma crypt_blocks_tail:
  assumes "xb = xor_block \<or> xb = xor_block_aligned"
  shows "stream_ctx key ctx \<Longrightarrow> length d < 16 \<or> b = 16 \<or> b = 0 \<Longrightarrow>
    \<exists>ctx' out' d'. crypt_blocks xb ctx out d = Some (ctx', out', d') \<and> crypt_tail ctx b out d = crypt_tail ctx' b out' d'"
proof (induction "length d" arbitrary: ctx out d rule: less_induct)
  case less
  show ?case
  proof (cases "16 \<le> length d")
    case True
    let ?n = "next_ctx key ctx" and ?p = "take 16 d"
    have n: "stream_ctx key ?n" "length (enc_ctr ?n) = 16" using next_ctx_stream [OF less(2)] by (simp_all add: stream_ctx_def)
    have x: "xb ?p ?p (enc_ctr ?n) = map2 (XOR) ?p (enc_ctr ?n)" using assms n True by (auto simp: xor_block_eq xor_block_aligned_eq)
    have b: "b = 16 \<or> b = 0" using less(3) True by simp
    have "crypt_tail ctx b out d = crypt_tail ctx 0 out (?p @ drop 16 d)" using b crypt_tail_16 by auto
    also have "\<dots> = crypt_tail ?n b (out @ map2 (XOR) ?p (enc_ctr ?n)) (drop 16 d)"
      using crypt_tail_block [OF less(2), of ?p out "drop 16 d"] True b crypt_tail_16 by auto
    finally show ?thesis
      using less(1) [OF _ n(1) disjI2 [OF b], of "drop 16 d" "out @ map2 (XOR) ?p (enc_ctr ?n)"] True next_block_keyed [OF less(2)]
      by (subst crypt_blocks.simps) (simp add: BLOCK_SIZE_def AES_BLOCK_SIZE_def x)
  next
    case False
    then show ?thesis by (subst crypt_blocks.simps) (simp add: BLOCK_SIZE_def AES_BLOCK_SIZE_def)
  qed
qed

text \<open>The result of both paths, followed by the byte loop, is that of the byte loop alone.\<close>

definition crypt_paths :: "int \<Rightarrow> gcm_ctx \<Rightarrow> nat \<Rightarrow> byte list \<Rightarrow> (gcm_ctx \<times> byte list) option" where
  "crypt_paths dist ctx b data = do {
     (b, ctx, out, d) \<leftarrow> (if aligned dist b
       then (let (b, out, d) = (if b \<noteq> 0
               then (let (b, out, d) = crypt_to_unit (enc_ctr ctx) b [] data in crypt_units (enc_ctr ctx) b out d)
               else (b, [], data))
             in do { (ctx, out, d) \<leftarrow> crypt_blocks xor_block_aligned ctx out d; Some (b, ctx, out, d) })
       else (let (b, out, d) = (if b \<noteq> 0 then crypt_to_block (enc_ctr ctx) b [] data else (b, [], data))
             in do { (ctx, out, d) \<leftarrow> crypt_blocks xor_block ctx out d; Some (b, ctx, out, d) }));
     crypt_tail ctx b out d }"

lemma crypt_paths_tail:
  assumes "stream_ctx key ctx" "b < 16"
  shows "crypt_paths dist ctx b d = crypt_tail ctx b [] d"
proof -
  have e: "length (enc_ctr ctx) = 16" using assms(1) by (simp add: stream_ctx_def)
  have blk: "(do { (ctx, out, d) \<leftarrow> crypt_blocks xb ctx out d; crypt_tail ctx b out d }) = crypt_tail ctx b out d"
    if "xb = xor_block \<or> xb = xor_block_aligned" "length d < 16 \<or> b = 16 \<or> b = 0" for xb b out d
    using crypt_blocks_tail [OF that(1) assms(1) that(2), of out] by auto
  obtain b1 o1 d1 where 1: "crypt_to_unit (enc_ctr ctx) b [] d = (b1, o1, d1)" using prod_cases3 by blast
  obtain b2 o2 d2 where 2: "crypt_units (enc_ctr ctx) b1 o1 d1 = (b2, o2, d2)" using prod_cases3 by blast
  obtain b3 o3 d3 where 3: "crypt_to_block (enc_ctr ctx) b [] d = (b3, o3, d3)" using prod_cases3 by blast
  have l: "(if c then (let (b, out, d) = x in do { (ctx, out, d) \<leftarrow> f out d; Some (b, ctx, out, d) })
      else (let (b, out, d) = y in do { (ctx, out, d) \<leftarrow> g out d; Some (b, ctx, out, d) })) \<bind> (\<lambda>(b, ctx, out, d). crypt_tail ctx b out d) =
    (if c then (let (b, out, d) = x in do { (ctx, out, d) \<leftarrow> f out d; crypt_tail ctx b out d })
      else (let (b, out, d) = y in do { (ctx, out, d) \<leftarrow> g out d; crypt_tail ctx b out d }))" for c x y f g
    by (auto simp: split_beta Let_def bind_eq_Some_conv split: bind_splits)
  show ?thesis
  proof (cases "b = 0")
    case True
    then show ?thesis unfolding crypt_paths_def l by (simp add: blk)
  next
    case False
    note e1 = crypt_to_unit_tail [OF 1] and e2 = crypt_units_tail [OF 2] and e3 = crypt_to_block_tail [OF 3]
    have "length d2 < 16 \<or> b2 = 16" "length d3 < 16 \<or> b3 = 16" "crypt_tail ctx b [] d = crypt_tail ctx b2 o2 d2"
        "crypt_tail ctx b [] d = crypt_tail ctx b3 o3 d3"
      using e1 e2 e3 False assms(2) e by auto
    then show ?thesis using False unfolding crypt_paths_def l by (auto simp: 1 2 3 blk)
  qed
qed

subsection \<open>The byte loop computes the key stream\<close>

definition stream_at :: "block \<Rightarrow> block \<Rightarrow> nat \<Rightarrow> gcm_ctx \<Rightarrow> bool" where
  "stream_at key j n ctx \<longleftrightarrow> stream_ctx key ctx \<and> ctr_val ctx = (inc32 ^^ ((n + 15) div 16)) j \<and>
     (n mod 16 \<noteq> 0 \<longrightarrow> enc_ctr ctx = fips_cipher key (ctr_val ctx))"

lemma stream_at_next:
  assumes "stream_at key j n ctx" "n mod 16 = 0"
  shows "stream_at key j (Suc n) (next_ctx key ctx)" "stream_byte (fips_cipher key) j n = enc_ctr (next_ctx key ctx) ! 0"
proof -
  obtain k where n: "n = 16 * k" using assms(2) by auto
  then have "(n + 15) div 16 = k" "(Suc n + 15) div 16 = Suc k" "n div 16 = k" by simp_all
  then show "stream_at key j (Suc n) (next_ctx key ctx)" "stream_byte (fips_cipher key) j n = enc_ctr (next_ctx key ctx) ! 0"
    using assms by (simp_all add: stream_at_def) (simp_all add: next_ctx_def stream_byte_def)
qed

lemma stream_at_in:
  assumes "stream_at key j n ctx" "n mod 16 \<noteq> 0"
  shows "stream_at key j (Suc n) ctx" "stream_byte (fips_cipher key) j n = enc_ctr ctx ! (n mod 16)"
proof -
  define k r where "k = n div 16" and "r = n mod 16"
  have r: "0 < r" "r < 16" and n: "n = r + 16 * k" using assms(2) by (simp_all add: k_def r_def)
  have "(r + 15) div 16 = 1" "(Suc r + 15) div 16 = 1" "r div 16 = 0" using r by (simp_all add: div_nat_eqI)
  moreover have "n + 15 = r + 15 + 16 * k" "Suc n + 15 = Suc r + 15 + 16 * k" using n by simp_all
  ultimately have "(n + 15) div 16 = Suc (n div 16)" "(Suc n + 15) div 16 = Suc (n div 16)"
    by (simp_all only: div_mult_self2 [of 16] n)
  then show "stream_at key j (Suc n) ctx" "stream_byte (fips_cipher key) j n = enc_ctr ctx ! (n mod 16)"
    using assms by (simp_all add: stream_at_def stream_byte_def)
qed

definition same_rest :: "gcm_ctx \<Rightarrow> gcm_ctx \<Rightarrow> bool" where
  "same_rest ctx ctx' \<longleftrightarrow> (\<exists>c e. ctx' = ctx\<lparr>ctr_val := c, enc_ctr := e\<rparr>)"

lemma same_rest_refl [simp]: "same_rest ctx ctx"
  unfolding same_rest_def by (intro exI [of _ "ctr_val ctx"] exI [of _ "enc_ctr ctx"]) simp

lemma same_rest_next: "same_rest (next_ctx key ctx) ctx' \<Longrightarrow> same_rest ctx ctx'"
  by (auto simp: same_rest_def next_ctx_def)

lemma crypt_tail_stream:
  "stream_at key j n ctx \<Longrightarrow> b mod 16 = n mod 16 \<Longrightarrow> b \<le> 16 \<Longrightarrow>
    \<exists>ctx'. crypt_tail ctx b out d = Some (ctx', out @ stream_xor (fips_cipher key) j n d) \<and>
      stream_at key j (n + length d) ctx' \<and> same_rest ctx ctx'"
proof (induction d arbitrary: ctx b out n)
  case (Cons x d)
  show ?case
  proof (cases "n mod 16 = 0")
    case True
    then have "b = 16 \<or> b = 0" using Cons.prems by (cases "b < 16") simp_all
    moreover have "stream_ctx key ctx" using Cons.prems(1) by (simp add: stream_at_def)
    ultimately have t: "crypt_tail ctx b out (x # d) = crypt_tail (next_ctx key ctx) 1 (out @ [x XOR stream_byte (fips_cipher key) j n]) d"
      using stream_at_next [OF Cons.prems(1) True] by (auto simp: next_block_keyed BLOCK_SIZE_def AES_BLOCK_SIZE_def)
    show ?thesis unfolding t
      using Cons.IH [OF stream_at_next(1) [OF Cons.prems(1) True], of 1 "out @ [x XOR stream_byte (fips_cipher key) j n]"] True
      by (auto simp: mod_Suc intro: same_rest_next)
  next
    case False
    then have b: "b = n mod 16" "n mod 16 \<noteq> 16" "b \<noteq> 0" using Cons.prems by (auto simp: le_less)
    then have t: "crypt_tail ctx b out (x # d) = crypt_tail ctx (b + 1) (out @ [x XOR stream_byte (fips_cipher key) j n]) d"
      using stream_at_in [OF Cons.prems(1) False] by (simp add: BLOCK_SIZE_def AES_BLOCK_SIZE_def)
    show ?thesis unfolding t
      using Cons.IH [OF stream_at_in(1) [OF Cons.prems(1) False], of "b + 1" "out @ [x XOR stream_byte (fips_cipher key) j n]"] b
      by (simp add: mod_Suc)
  qed
qed simp

end
