(* ===== verification/Gcm_Correct.thy ===== *)
theory Gcm_Correct
  imports Gcm_Crypt
begin

text \<open>
  The functions of \<open>gcm.c\<close> implement the mode of SP 800-38D. \<open>gcm_state\<close> relates a context in
  the middle of a message to what it has been given so far: the header, the text
  authenticated, and the number of bytes encrypted or decrypted. Every function is shown
  to keep it, whatever the alignment of the buffers and however a message is cut into pieces.
\<close>

subsection \<open>A message in progress\<close>

definition gcm_state :: "block \<Rightarrow> block \<Rightarrow> byte list \<Rightarrow> byte list \<Rightarrow> nat \<Rightarrow> gcm_ctx \<Rightarrow> bool" where
  "gcm_state key j a c n ctx \<longleftrightarrow>
     length j = 16 \<and> y0_val ctx = ui32_at j 12 \<and> stream_at key j n ctx \<and> txt_ccnt ctx = word_of_nat n \<and>
     length (hdr_ghv ctx) = 16 \<and> gf_val LB (hdr_ghv ctx) = lazy_hash (hkey key) a \<and> hdr_cnt ctx = word_of_nat (length a) \<and>
     length (txt_ghv ctx) = 16 \<and> gf_val LB (txt_ghv ctx) = lazy_hash (hkey key) c \<and> txt_acnt ctx = word_of_nat (length c)"

lemma gcm_state_keyed: "gcm_state key j a c n ctx \<Longrightarrow> keyed_ctx key ctx"
  by (simp add: gcm_state_def stream_at_def stream_ctx_def)

lemma keyed_ctx_hash [simp]:
  "keyed_ctx key (ctx\<lparr>hdr_ghv := g\<rparr>) = keyed_ctx key ctx" "keyed_ctx key (ctx\<lparr>hdr_cnt := n\<rparr>) = keyed_ctx key ctx"
  "keyed_ctx key (ctx\<lparr>txt_ghv := g\<rparr>) = keyed_ctx key ctx" "keyed_ctx key (ctx\<lparr>txt_acnt := n\<rparr>) = keyed_ctx key ctx"
  "keyed_ctx key (ctx\<lparr>txt_ccnt := n\<rparr>) = keyed_ctx key ctx" "keyed_ctx key (ctx\<lparr>y0_val := n\<rparr>) = keyed_ctx key ctx"
  by (simp_all add: keyed_ctx_def)

lemma count_pos: "n < 2 ^ 32 \<Longrightarrow> unat ((word_of_nat n :: u32) AND BLK_ADR_MASK) = n mod 16"
proof -
  assume "n < 2 ^ 32"
  moreover have "x AND BLK_ADR_MASK = take_bit 4 x" for x by (simp add: BLK_ADR_MASK_def take_bit_eq_mask mask_eq_exp_minus_1)
  ultimately show ?thesis by (simp add: unsigned_take_bit_eq unat_of_nat) (simp add: take_bit_eq_mod)
qed

text \<open>The authentication and encryption functions in terms of their paths.\<close>

definition auth_start :: "u32 \<Rightarrow> block \<Rightarrow> gcm_ctx \<Rightarrow> block" where
  "auth_start c g ctx = (if c \<noteq> 0 \<and> unat (c AND BLK_ADR_MASK) = 0 then gf_mul_hh g ctx else g)"

lemma gcm_auth_header_paths:
  "gcm_auth_header dist hdr ctx = (RETURN_GOOD, if hdr = [] then ctx else
     ctx\<lparr>hdr_ghv := auth_paths dist ctx (auth_start (hdr_cnt ctx) (hdr_ghv ctx) ctx) (unat (hdr_cnt ctx AND BLK_ADR_MASK)) hdr,
         hdr_cnt := hdr_cnt ctx + word_of_nat (length hdr)\<rparr>)"
  by (simp add: gcm_auth_header_def auth_paths_def auth_start_def Let_def split_beta)

lemma gcm_auth_data_paths:
  "gcm_auth_data dist d ctx = (RETURN_GOOD, if d = [] then ctx else
     ctx\<lparr>txt_ghv := auth_paths dist ctx (auth_start (txt_acnt ctx) (txt_ghv ctx) ctx) (unat (txt_acnt ctx AND BLK_ADR_MASK)) d,
         txt_acnt := txt_acnt ctx + word_of_nat (length d)\<rparr>)"
  by (simp add: gcm_auth_data_def auth_paths_def auth_start_def Let_def split_beta)

lemma gcm_crypt_data_paths:
  "gcm_crypt_data dist d ctx = (if d = [] then Some (RETURN_GOOD, d, ctx) else do {
     (ctx, out) \<leftarrow> crypt_paths dist ctx (unat (txt_ccnt ctx AND BLK_ADR_MASK)) d;
     Some (RETURN_GOOD, out, ctx\<lparr>txt_ccnt := txt_ccnt ctx + word_of_nat (length d)\<rparr>) })"
  by (simp add: gcm_crypt_data_def crypt_paths_def Let_def split_beta)

lemma auth_step:
  fixes dist :: int
  assumes "keyed_ctx key ctx" "length g = 16" "gf_val LB g = lazy_hash (hkey key) d0" "length d0 < 2 ^ 32" "d \<noteq> []"
    and c: "c = (word_of_nat (length d0) :: u32)"
  defines "g' \<equiv> auth_paths dist ctx (auth_start c g ctx) (unat (c AND BLK_ADR_MASK)) d"
  shows "length g' = 16" "gf_val LB g' = lazy_hash (hkey key) (d0 @ d)"
proof -
  have z: "c \<noteq> 0 \<longleftrightarrow> d0 \<noteq> []" using assms(4) by (auto simp: c word_of_nat_eq_0_iff dest!: dvd_imp_le)
  have b: "unat (c AND BLK_ADR_MASK) = length d0 mod 16" unfolding c by (rule count_pos [OF assms(4)])
  have "g' = auth_tail ctx g (pos (length d0)) d"
  proof (cases "d0 \<noteq> [] \<and> length d0 mod 16 = 0")
    case True
    obtain x r where "d = x # r" using assms(5) by (cases d) auto
    then show ?thesis using True assms(1,2) auth_tail_16 [of ctx g x r]
      by (simp add: g'_def auth_start_def z b auth_paths_tail [OF assms(1)] gf_mul_hh_val pos_def)
  next
    case False
    then show ?thesis using assms(1,2) by (auto simp: g'_def auth_start_def z b auth_paths_tail [OF assms(1)] pos_def)
  qed
  then show "length g' = 16" "gf_val LB g' = lazy_hash (hkey key) (d0 @ d)"
    using auth_tail_hash [OF assms(1-3) refl, of d] by simp_all
qed

lemma gcm_auth_header_state:
  assumes "gcm_state key j a c n ctx" "length a + length hdr < 2 ^ 32"
  shows "\<exists>ctx'. gcm_auth_header dist hdr ctx = (RETURN_GOOD, ctx') \<and> gcm_state key j (a @ hdr) c n ctx'"
proof (cases "hdr = []")
  case False
  then show ?thesis
    using auth_step [OF gcm_state_keyed [OF assms(1)], of "hdr_ghv ctx" a hdr "hdr_cnt ctx" dist] assms
    by (simp add: gcm_auth_header_paths gcm_state_def stream_at_def stream_ctx_def)
qed (use assms in \<open>simp add: gcm_auth_header_paths\<close>)

lemma gcm_auth_data_state:
  assumes "gcm_state key j a c n ctx" "length c + length d < 2 ^ 32"
  shows "\<exists>ctx'. gcm_auth_data dist d ctx = (RETURN_GOOD, ctx') \<and> gcm_state key j a (c @ d) n ctx'"
proof (cases "d = []")
  case False
  then show ?thesis
    using auth_step [OF gcm_state_keyed [OF assms(1)], of "txt_ghv ctx" c d "txt_acnt ctx" dist] assms
    by (simp add: gcm_auth_data_paths gcm_state_def stream_at_def stream_ctx_def)
qed (use assms in \<open>simp add: gcm_auth_data_paths\<close>)

lemma gcm_crypt_data_state:
  assumes "gcm_state key j a c n ctx" "n + length d < 2 ^ 32"
  shows "\<exists>ctx'. gcm_crypt_data dist d ctx = Some (RETURN_GOOD, stream_xor (fips_cipher key) j n d, ctx') \<and> gcm_state key j a c (n + length d) ctx'"
proof (cases "d = []")
  case False
  have s: "stream_at key j n ctx" "stream_ctx key ctx" using assms(1) by (simp_all add: gcm_state_def stream_at_def)
  have b: "unat (txt_ccnt ctx AND BLK_ADR_MASK) = n mod 16" using assms by (simp add: gcm_state_def count_pos)
  obtain ctx' where c: "crypt_tail ctx (n mod 16) [] d = Some (ctx', stream_xor (fips_cipher key) j n d)"
      "stream_at key j (n + length d) ctx'" "same_rest ctx ctx'"
    using crypt_tail_stream [OF s(1), of "n mod 16" "[]" d] by auto
  obtain v e where v: "ctx' = ctx\<lparr>ctr_val := v, enc_ctr := e\<rparr>" using c(3) by (auto simp: same_rest_def)
  have "crypt_paths dist ctx (n mod 16) d = Some (ctx', stream_xor (fips_cipher key) j n d)"
    using crypt_paths_tail [OF s(2), of "n mod 16" dist d] c(1) by simp
  then have "gcm_crypt_data dist d ctx =
      Some (RETURN_GOOD, stream_xor (fips_cipher key) j n d, ctx'\<lparr>txt_ccnt := txt_ccnt ctx' + word_of_nat (length d)\<rparr>)"
    using False by (simp only: gcm_crypt_data_paths b if_False bind.bind_lunit prod.case)
  moreover have "stream_at key j (n + length d) (ctx'\<lparr>txt_ccnt := txt_ccnt ctx' + word_of_nat (length d)\<rparr>)"
    using c(2) by (auto simp: stream_at_def stream_ctx_def)
  ultimately show ?thesis using assms(1) by (simp add: gcm_state_def v)
qed (use assms in \<open>simp add: gcm_crypt_data_paths\<close>)

subsection \<open>Hashes in one piece and in two\<close>

lemma lazy_hash_GHASH: "gmul (lazy_hash h x) h = GHASH h (padded x)"
proof -
  have "gmul (foldl (\<lambda>y b. gmul y h XOR gf_val LB b) 0 bs) h = GHASH h bs" for bs
    by (induction bs rule: rev_induct) (simp_all add: GHASH_def)
  then show ?thesis by (simp add: lazy_hash_def)
qed

definition gpow :: "gf128 \<Rightarrow> nat \<Rightarrow> gf128 \<Rightarrow> gf128" where
  "gpow h n v = ((\<lambda>v. gmul v h) ^^ n) v"

lemma gpow_0 [simp]: "gpow h 0 v = v" "gpow h n 0 = 0"
  by (simp_all add: gpow_def) (induction n, simp_all)

lemma gpow_Suc: "gpow h (Suc n) v = gmul (gpow h n v) h"
  by (simp add: gpow_def)

lemma gpow_add: "gpow h (m + n) v = gpow h m (gpow h n v)"
  by (simp add: gpow_def funpow_add)

lemma gpow_square: "gpow (gmul h h) n v = gpow h (2 * n) v"
  by (induction n) (simp_all add: gpow_Suc gmul_assoc)

lemma GHASH_append: "GHASH h (xs @ ys) = gpow h (length ys) (GHASH h xs) XOR GHASH h ys"
  by (induction ys rule: rev_induct) (simp_all add: GHASH_def gpow_Suc gmul_xor xor.assoc flip: append_assoc)

lemma mul_power_val:
  "0 < n \<Longrightarrow> length h = 16 \<Longrightarrow> length t = 16 \<Longrightarrow>
    length (mul_power h t n) = 16 \<and> gf_val LB (mul_power h t n) = gpow (gf_val LB t) n (gf_val LB h)"
proof (induction n arbitrary: h t rule: less_induct)
  case (less n)
  define h' where "h' = (if odd n then gf_mulTMD LB h t else h)"
  have h': "length h' = 16" "gf_val LB h' = gpow (gf_val LB t) (n mod 2) (gf_val LB h)"
    using less.prems by (auto simp: h'_def gf_mulTMD_val gpow_Suc odd_iff_mod_2_eq_one)
  have n: "n = 2 * (n div 2) + n mod 2" by simp
  show ?case
  proof (cases "n div 2 = 0")
    case True
    moreover have "n mod 2 = n" using True by simp
    ultimately show ?thesis using h' by (subst (1 2) mul_power.simps) (simp add: h'_def [symmetric])
  next
    case False
    have "mul_power h t n = mul_power h' (gf_mulTMD LB t t) (n div 2)"
      using False by (subst mul_power.simps) (simp add: h'_def [symmetric])
    moreover have "gpow (gf_val LB t) n v = gpow (gf_val LB t) (2 * (n div 2)) (gpow (gf_val LB t) (n mod 2) v)" for v
      using gpow_add [of "gf_val LB t" "2 * (n div 2)" "n mod 2" v] by simp
    ultimately show ?thesis
      using less.IH [of "n div 2" h' "gf_mulTMD LB t t"] less.prems False h' by (simp add: gf_mulTMD_val gpow_square)
  qed
qed

lemma padded_length: "length (padded x) = (length x + 15) div 16"
proof -
  have "length (chunks x) = (length x + 15) div 16"
  proof (induction x rule: chunks.induct)
    case (1 x)
    have "(length x + 15) div 16 = Suc ((length x - 16 + 15) div 16)" if "x \<noteq> []"
      using that by (cases "length x < 16") (auto simp: Suc_le_eq div_nat_eqI le_div_geq)
    then show ?case using 1 by (subst chunks.simps) auto
  qed
  then show ?thesis by (simp add: padded_def)
qed

subsection \<open>Lengths in the hash\<close>

lemma bits64_byte:
  assumes "8 * n < 2 ^ LENGTH('a::len)"
  shows "ucast (drop_bit k (push_bit 3 (word_of_nat n :: 'a word))) = (word_of_nat (8 * n div 2 ^ k) :: byte)"
proof -
  have "unat (drop_bit k (word_of_nat m :: 'a word)) = m div 2 ^ k" if "m < 2 ^ LENGTH('a)" for m
    using that le_less_trans [OF div_le_dividend that]
    by (simp add: unsigned_drop_bit_eq unat_of_nat take_bit_nat_eq_self drop_bit_eq_div [where ?'a = nat])
  from this [OF assms] have "word_of_nat (unat (drop_bit k (push_bit 3 (word_of_nat n :: 'a word)))) = (word_of_nat (8 * n div 2 ^ k) :: byte)"
    by (simp add: push_bit_eq_mult mult.commute)
  then show ?thesis by (simp add: of_nat_unat)
qed

lemma bits64_length [simp]: "length (bits64 n) = 8"
  by (simp add: bits64_def)

lemma add_lengths_low:
  "i \<le> 8 \<Longrightarrow> i \<le> length h \<Longrightarrow>
    add_lengths i tm hc t h = map (\<lambda>k. h ! k XOR (t ! k XOR ucast (drop_bit (8 * (i - 1 - k)) tm))) [0..<i] @ drop i h"
proof (induction i arbitrary: tm h)
  case (Suc i)
  have d: "drop i (h[i := v]) = v # drop (Suc i) h" for v
    using Suc.prems by (simp add: drop_update_swap Cons_nth_drop_Suc flip: Cons_nth_drop_Suc)
  have e: "8 * (i - Suc k) + 8 = 8 * (i - k)" if "k < i" for k using that by simp
  show ?case using Suc by (simp add: d e)
qed simp

lemma add_lengths_high:
  "8 + m \<le> length h \<Longrightarrow>
    add_lengths (8 + m) tm hc t h = add_lengths 8 (if m = 0 then tm else push_bit 3 (ucast hc)) hc t
      (take 8 h @ map (\<lambda>k. h ! (8 + k) XOR (t ! (8 + k) XOR ucast (drop_bit (8 * (m - 1 - k)) tm))) [0..<m] @ drop (8 + m) h)"
proof (induction m arbitrary: tm h)
  case (Suc m)
  have d: "drop (8 + m) (h[8 + m := v]) = v # drop (Suc (8 + m)) h" for v
    using Suc.prems by (simp add: drop_update_swap Cons_nth_drop_Suc flip: Cons_nth_drop_Suc)
  have e: "8 * (m - Suc k) + 8 = 8 * (m - k)" if "k < m" for k using that by simp
  show ?case
  proof (cases "m = 0")
    case True
    then show ?thesis using Suc.prems add_lengths.simps(2) [of 8 tm hc t h] by (simp add: upd_conv_take_nth_drop)
  next
    case False
    have m: "map (\<lambda>k. h[8 + m := v] ! (8 + k) XOR (t ! (8 + k) XOR ucast (drop_bit (8 * (m - Suc k) + 8) tm))) [0..<m] =
        map (\<lambda>k. h ! (8 + k) XOR (t ! (8 + k) XOR ucast (drop_bit (8 * (m - k)) tm))) [0..<m]" for v
      by (simp add: e)
    show ?thesis using False Suc add_lengths.simps(2) [of "8 + m" tm hc t h] by (simp add: d m)
  qed
qed simp

lemma add_lengths_16:
  assumes "length h = 16" "length t = 16" "a < 2 ^ 32" "c < 2 ^ 32"
  shows "add_lengths 16 (push_bit 3 (ucast (word_of_nat c :: u32))) (word_of_nat a) t h = map2 (XOR) h (map2 (XOR) t (bits64 a @ bits64 c))"
proof -
  have u: "ucast (word_of_nat n :: u32) = (word_of_nat n :: u64)" if "n < 2 ^ 32" for n
    using that by (simp add: unsigned_of_nat take_bit_nat_eq_self)
  have b: "ucast (drop_bit (8 * k) (push_bit 3 (word_of_nat n :: u64))) = (word_of_nat (8 * n div 256 ^ k) :: byte)" if "n < 2 ^ 32" for n k
    using that bits64_byte [of n "8 * k", where ?'a = 64] by (simp add: power_mult)
  show ?thesis using add_lengths_high [of 8 h] assms
    by (intro nth_equalityI) (auto simp: add_lengths_low u b bits64_def nth_append)
qed

subsection \<open>The tag\<close>

lemma put_unit_restore:
  assumes "length g = 16" "length j = 16" "take 12 g = take 12 j"
  shows "put_unit g CTR_POS (ui32_at j 12) = j"
proof (rule nth_equalityI)
  fix i assume "i < length (put_unit g CTR_POS (ui32_at j 12))"
  then have i: "i < 16" using assms(1) by (simp add: put_unit_def)
  have l: "g ! i = j ! i" if "i < 12" using arg_cong [OF assms(3), of "\<lambda>x. x ! i"] that by simp
  consider "i < 12" | "i = 12" | "i = 13" | "i = 14" | "i = 15" using i by linarith
  then show "put_unit g CTR_POS (ui32_at j 12) ! i = j ! i"
    using assms(1) by cases (simp_all add: l put_unit_def CTR_POS_def ui32_at_def numeral_3_eq_3 numeral_2_eq_2)
qed (simp add: put_unit_def assms)

lemma block_count:
  assumes "length c + 16 \<le> 2 ^ 32"
  shows "unat (((word_of_nat (length c) :: u32) + 16 - 1) div 16) = length (padded c)"
proof -
  have "(word_of_nat (length c) :: u32) + 16 - 1 = word_of_nat (length c + 15)" by simp
  then show ?thesis using assms by (simp only: unat_div) (simp add: unat_of_nat take_bit_nat_eq_self padded_length del: of_nat_add)
qed

lemma gcm_compute_tag_state:
  assumes s: "gcm_state key j a c n ctx" and n: "n = length c \<or> n = 0"
    and l: "length a < 2 ^ 32" "length c + 16 \<le> 2 ^ 32" "length tag \<le> 16"
  shows "\<exists>ctx'. gcm_compute_tag tag ctx = Some (if n = length c then RETURN_GOOD else RETURN_WARN,
    take (length tag) (map2 (XOR) (gf_block (GHASH (hkey key) (padded a @ padded c @ [bits64 (length a) @ bits64 (length c)])))
      (fips_cipher key j)), ctx') \<and> keyed_ctx key ctx' \<and> length (enc_ctr ctx') = 16"
proof -
  note k = gcm_state_keyed [OF s]
  have st: "length (ctr_val ctx) = 16" "ctr_val ctx = (inc32 ^^ ((n + 15) div 16)) j" "length j = 16"
    using s by (simp_all add: gcm_state_def stream_at_def stream_ctx_def)
  let ?t = "gf_mul_hh (txt_ghv ctx) ctx" and ?h0 = "gf_mul_hh (hdr_ghv ctx) ctx" 
  define ln where "ln = (txt_acnt ctx + 16 - 1) div 16"
  have t: "length ?t = 16" "gf_val LB ?t = GHASH (hkey key) (padded c)" and h0: "length ?h0 = 16" "gf_val LB ?h0 = GHASH (hkey key) (padded a)"
    using s gf_mul_hh_val [OF k, of "txt_ghv ctx"] gf_mul_hh_val [OF k, of "hdr_ghv ctx"] by (simp_all add: gcm_state_def lazy_hash_GHASH)
  have ln: "unat ln = length (padded c)" using s block_count [OF l(2)] by (simp add: gcm_state_def ln_def)
  have hc: "hdr_cnt ctx \<noteq> 0 \<longleftrightarrow> a \<noteq> []" using s l(1) by (auto simp: gcm_state_def word_of_nat_eq_0_iff dest!: dvd_imp_le)
  have g: "length (ghash_h ctx) = 16" "gf_val LB (ghash_h ctx) = hkey key"
    using k by (auto simp: keyed_ctx_def hash_key_def keyed_def)
  define h1 where "h1 = (if hdr_cnt ctx \<noteq> 0 \<and> ln \<noteq> 0 then mul_power ?h0 (ghash_h ctx) (unat ln) else ?h0)"
  have h1: "length h1 = 16 \<and> gf_val LB h1 = gpow (hkey key) (length (padded c)) (GHASH (hkey key) (padded a))"
  proof (cases "hdr_cnt ctx \<noteq> 0 \<and> ln \<noteq> 0")
    case True
    then have "0 < length (padded c)" using unat_gt_0 [of ln] ln by simp
    then show ?thesis using True mul_power_val [of "length (padded c)" ?h0 "ghash_h ctx"] h0 g by (simp add: h1_def ln)
  next
    case False
    then have "a = [] \<or> length (padded c) = 0" using hc ln by auto
    then show ?thesis using False h0 by (auto simp: h1_def padded_def GHASH_def)
  qed
  define h2 where "h2 = add_lengths BLOCK_SIZE (push_bit 3 (ucast (txt_acnt ctx))) (hdr_cnt ctx) ?t h1"
  have "h2 = map2 (XOR) h1 (map2 (XOR) ?t (bits64 (length a) @ bits64 (length c)))"
    using add_lengths_16 [OF conjunct1 [OF h1] t(1) l(1), of "length c"] s l(2)
    by (simp add: h2_def BLOCK_SIZE_def AES_BLOCK_SIZE_def gcm_state_def)
  then have h2: "length h2 = 16" "gf_val LB h2 = GHASH (hkey key) (padded a @ padded c) XOR gf_val LB (bits64 (length a) @ bits64 (length c))"
    using h1 t by (simp_all add: gf_val_map2 GHASH_append xor.assoc)
  let ?s = "GHASH (hkey key) (padded a @ padded c @ [bits64 (length a) @ bits64 (length c)])"
  have h3: "gf_mul_hh h2 ctx = gf_block ?s"
    using gf_mul_hh_val [OF k h2(1)] h2 gf_block_val [of "gf_mul_hh h2 ctx"] by (simp add: GHASH_def)
  have e: "put_unit (ctr_val ctx) CTR_POS (y0_val ctx) = j"
    using s st inc32_pow_take [OF st(3)] by (simp add: gcm_state_def put_unit_restore)
  have w: "\<not> (txt_acnt ctx \<noteq> txt_ccnt ctx \<and> txt_ccnt ctx > 0)" "txt_ccnt ctx = txt_acnt ctx \<longleftrightarrow> n = length c"
    using s n l(2) by (auto simp: gcm_state_def word_of_nat_eq_0_iff dest!: dvd_imp_le)
  have "gcm_compute_tag tag ctx = (if BLOCK_SIZE < length tag then None else do {
      e \<leftarrow> encrypt_block j j ctx;
      Some (if txt_ccnt ctx = txt_acnt ctx then RETURN_GOOD else RETURN_WARN,
        map2 (XOR) (take (length tag) (gf_block ?s)) (take (length tag) e), ctx\<lparr>hdr_ghv := gf_block ?s, txt_ghv := ?t, enc_ctr := e\<rparr>) })"
    unfolding gcm_compute_tag_def if_not_P [OF w(1)] Let_def ln_def [symmetric] h1_def [symmetric] h2_def [symmetric] h3 e by simp
  then show ?thesis
    using w(2) l(3) encrypt_block_keyed [OF k st(3) st(3)] k keyed_ctx_key [OF k] st(3)
    by (simp add: BLOCK_SIZE_def AES_BLOCK_SIZE_def take_map take_zip)
qed

subsection \<open>The first counter block\<close>

lemma xor_bytes_nth:
  "b + length d \<le> length g \<Longrightarrow> i < length g \<Longrightarrow>
    xor_bytes g b d ! i = (if b \<le> i \<and> i < b + length d then g ! i XOR d ! (i - b) else g ! i)"
proof (induction d arbitrary: g b)
  case (Cons x d)
  then show ?case using Cons.IH [of "b + 1" "g[b := g ! b XOR x]"] by (auto simp: nth_Cons' nth_list_update)
qed auto

lemma xor_bytes_pad: "length g = 16 \<Longrightarrow> length d \<le> 16 \<Longrightarrow> xor_bytes g 0 d = map2 (XOR) g (pad16 d)"
  by (rule nth_equalityI) (simp_all add: xor_bytes_nth pad16_def nth_append)

lemma pad16_length [simp]: "length d \<le> 16 \<Longrightarrow> length (pad16 d) = 16"
  by (simp add: pad16_def)

lemma iv_blocks_hash:
  assumes "keyed_ctx key ctx" "length c = 16"
  defines "f \<equiv> \<lambda>(c, rest). if rest \<noteq> [] then gf_mul_hh (xor_bytes c 0 rest) ctx else c"
  shows "length (f (iv_blocks ctx c iv)) = 16 \<and>
    gf_val LB (f (iv_blocks ctx c iv)) = foldl (\<lambda>y x. gmul (y XOR gf_val LB x) (hkey key)) (gf_val LB c) (padded iv)"
  using assms(2)
proof (induction "length iv" arbitrary: c iv rule: less_induct)
  case less
  show ?case
  proof (cases "16 \<le> length iv")
    case True
    let ?c = "gf_mul_hh (map2 (XOR) c (take 16 iv)) ctx"
    have "iv_blocks ctx c iv = iv_blocks ctx ?c (drop 16 iv)"
      using True less(2) by (subst iv_blocks.simps) (simp add: BLOCK_SIZE_def AES_BLOCK_SIZE_def xor_block_aligned_eq)
    moreover have "padded iv = take 16 iv # padded (drop 16 iv)"
      using True unfolding padded_def by (subst chunks.simps) (auto simp: pad16_def)
    moreover have "length ?c = 16" "gf_val LB ?c = gmul (gf_val LB c XOR gf_val LB (take 16 iv)) (hkey key)"
      using gf_mul_hh_val [OF assms(1), of "map2 (XOR) c (take 16 iv)"] True less(2) by (simp_all add: gf_val_map2)
    ultimately show ?thesis using less(1) [of "drop 16 iv" ?c] True by simp
  next
    case False
    then have i: "iv_blocks ctx c iv = (c, iv)" by (subst iv_blocks.simps) (simp add: BLOCK_SIZE_def AES_BLOCK_SIZE_def)
    show ?thesis
      using False less(2) gf_mul_hh_val [OF assms(1), of "map2 (XOR) c (pad16 iv)"] unfolding i
      by (cases "iv = []") (simp_all add: f_def padded_def chunks_short xor_bytes_pad gf_val_map2)
  qed
qed

lemma iv_length_step:
  "iv_length c i n = (let c = c[i := c ! i XOR ucast n] in iv_length c (i - 1) (drop_bit 8 n))"
  by (cases "n = 0") (simp_all add: iv_length.simps [of c i n] iv_length.simps [of _ _ 0])

lemma iv_length_4:
  assumes "length c = 16"
  shows "iv_length c 15 w = map2 (XOR) c (replicate 12 0 @ [ucast (drop_bit 24 w), ucast (drop_bit 16 w), ucast (drop_bit 8 w), ucast w])"
proof -
  have "drop_bit 32 w = 0" by (rule word_bits_eqI) (simp add: bit_simps upt_word_bits bit_beyond)
  moreover have "replicate 12 (0 :: byte) = [0, 0, 0, 0, 0, 0, 0, 0, 0, 0, 0, 0]" by (simp add: numeral_eq_Suc)
  ultimately show ?thesis using assms
    by (elim list16_cases) (simp add: iv_length_step [of _ 15] iv_length_step [of _ 14] iv_length_step [of _ 13] iv_length_step [of _ 12]
      iv_length.simps [of _ _ 0] Let_def)
qed

lemma iv_length_bits:
  assumes "length c = 16" "n < 2 ^ 29"
  shows "iv_length c 15 (push_bit 3 (word_of_nat n)) = map2 (XOR) c (replicate 8 0 @ bits64 n)"
proof -
  let ?n = "push_bit 3 (word_of_nat n) :: u32"
  have b: "ucast (drop_bit (8 * k) ?n) = (word_of_nat (8 * n div 256 ^ k) :: byte)" for k
    using assms(2) bits64_byte [of n "8 * k", where ?'a = 32] by (simp add: power_mult)
  have h: "8 * n div 256 ^ (4 + k) = 0" for k
  proof -
    have "(256 :: nat) ^ 4 \<le> 256 ^ (4 + k)" by (rule power_increasing) simp_all
    then show ?thesis using assms(2) by simp
  qed
  have "bits64 n = [0, 0, 0, 0, ucast (drop_bit 24 ?n), ucast (drop_bit 16 ?n), ucast (drop_bit 8 ?n), ucast ?n]"
    using h [of 0] h [of 1] h [of 2] h [of 3] b [of 0] b [of 1] b [of 2] b [of 3] by (simp add: bits64_def upt_word_bits)
  moreover have "replicate 12 (0 :: byte) = replicate 8 0 @ [0, 0, 0, 0]" by (simp add: numeral_eq_Suc)
  ultimately show ?thesis using iv_length_4 [OF assms(1)] by simp
qed

lemma J0_length: "length (J0 E iv) = 16"
  by (simp add: J0_def)

lemma gcm_init_message_state:
  assumes k: "keyed_ctx key ctx" and l: "length (enc_ctr ctx) = 16" "length iv < 2 ^ 29"
  shows "\<exists>ctx'. gcm_init_message iv ctx = (RETURN_GOOD, ctx') \<and> gcm_state key (J0 (fips_cipher key) iv) [] [] 0 ctx'"
proof -
  let ?J = "J0 (fips_cipher key) iv"
  have "gcm_init_message iv ctx = (RETURN_GOOD, ctx\<lparr>ctr_val := ?J, y0_val := ui32_at ?J CTR_POS, hdr_ghv := zero_block, txt_ghv := zero_block,
      hdr_cnt := 0, txt_acnt := 0, txt_ccnt := 0\<rparr>)"
  proof (cases "length iv = 12")
    case True
    have "drop 12 zero_block = [0, 0, 0, 0]" by (simp add: zero_block_rep) (simp add: numeral_eq_Suc)
    then have "(take 12 iv @ drop 12 zero_block)[15 := 1] = ?J" using True by (simp add: J0_def list_update_append)
    then show ?thesis using True by (simp add: gcm_init_message_def CTR_POS_def Let_def)
  next
    case False
    obtain c0 rest where i: "iv_blocks ctx zero_block iv = (c0, rest)" by (cases "iv_blocks ctx zero_block iv")
    define c where "c = (if rest \<noteq> [] then gf_mul_hh (xor_bytes c0 0 rest) ctx else c0)"
    have c: "length c = 16" "gf_val LB c = GHASH (hkey key) (padded iv)"
      using iv_blocks_hash [OF k, of zero_block iv] by (simp_all add: i c_def GHASH_def)
    let ?c = "iv_length c 15 (push_bit 3 (word_of_nat (length iv)))"
    have "length ?c = 16" "gf_val LB ?c = GHASH (hkey key) (padded iv) XOR gf_val LB (replicate 8 0 @ bits64 (length iv))"
      using iv_length_bits [OF c(1) l(2)] c by (simp_all add: gf_val_map2)
    then have "gf_mul_hh ?c ctx = ?J"
      using gf_mul_hh_val [OF k, of ?c] gf_block_val [of "gf_mul_hh ?c ctx"] False by (simp add: J0_def GHASH_def)
    then show ?thesis using False by (simp add: gcm_init_message_def i c_def [symmetric] CTR_POS_def BLOCK_SIZE_def AES_BLOCK_SIZE_def) (simp add: Let_def)
  qed
  moreover have "gf_val LB zero_block = lazy_hash (hkey key) []" by (simp add: lazy_hash_def padded_def gf_val_zero)
  ultimately show ?thesis
    using k l by (simp add: gcm_state_def J0_length stream_at_def stream_ctx_def CTR_POS_def)
qed

subsection \<open>Whole messages\<close>

text \<open>The sizes of the arrays of a context, and a context that has a key.\<close>

definition gcm_wf :: "gcm_ctx \<Rightarrow> bool" where
  "gcm_wf ctx \<longleftrightarrow> blocks 256 (gf_t4k ctx) \<and> length (ctr_val ctx) = 16 \<and> length (enc_ctr ctx) = 16 \<and> length (hdr_ghv ctx) = 16 \<and>
     length (txt_ghv ctx) = 16 \<and> length (ghash_h ctx) = 16 \<and> length (ks (aes ctx)) = KS_LENGTH \<and> length (inf_b (aes ctx)) = 4"

definition gcm_ready :: "block \<Rightarrow> gcm_ctx \<Rightarrow> bool" where
  "gcm_ready key ctx \<longleftrightarrow> keyed_ctx key ctx \<and> length (enc_ctr ctx) = 16"

lemma gcm_init_and_key_ready:
  assumes "gcm_wf ctx" "length key = 16"
  shows "\<exists>ctx'. gcm_init_and_key key kl ctx = Some (RETURN_GOOD, ctx') \<and> gcm_ready key ctx'"
proof -
  define cx where "cx = (aes ctx)\<lparr>ks := enc_schedule key 10, inf_b := [160, 0, 0, 0]\<rparr>"
  have a: "aes_encrypt_key128 key (aes ctx) = (0, cx)" "keyed key cx"
    using aes_encrypt_key128_schedule [of key "aes ctx"] assms by (simp_all add: gcm_wf_def KS_LENGTH_def keyed_def cx_def)
  have e: "encrypt_block zero_block zero_block (ctx\<lparr>ghash_h := zero_block, aes := cx\<rparr>) = Some (fips_cipher key zero_block)"
    using aes_encrypt_keyed [OF a(2), of zero_block zero_block] by (simp add: encrypt_block_def)
  show ?thesis using assms a e by (auto simp: gcm_init_and_key_def Let_def gcm_ready_def keyed_ctx_def gcm_wf_def)
qed

lemma ready_init:
  assumes "gcm_ready key ctx" "length iv < 2 ^ 29"
  shows "\<exists>ctx'. gcm_init_message iv ctx = (RETURN_GOOD, ctx') \<and> gcm_state key (J0 (fips_cipher key) iv) [] [] 0 ctx'"
  using assms gcm_init_message_state by (auto simp: gcm_ready_def)

lemma gcm_encrypt_state:
  assumes "gcm_state key j a c n ctx" "n = length c" "n + length d < 2 ^ 32"
  shows "\<exists>ctx'. gcm_encrypt ds d ctx = Some (RETURN_GOOD, stream_xor (fips_cipher key) j n d, ctx') \<and>
    gcm_state key j a (c @ stream_xor (fips_cipher key) j n d) (n + length d) ctx'"
proof -
  obtain c1 where 1: "gcm_crypt_data (enc_dist ds) d ctx = Some (RETURN_GOOD, stream_xor (fips_cipher key) j n d, c1)"
      "gcm_state key j a c (n + length d) c1"
    using gcm_crypt_data_state [OF assms(1,3)] by blast
  obtain c2 where "gcm_auth_data (txt_dist ds) (stream_xor (fips_cipher key) j n d) c1 = (RETURN_GOOD, c2)"
      "gcm_state key j a (c @ stream_xor (fips_cipher key) j n d) (n + length d) c2"
    using gcm_auth_data_state [OF 1(2), of "stream_xor (fips_cipher key) j n d"] assms by auto
  then show ?thesis by (simp add: gcm_encrypt_def 1)
qed

lemma gcm_decrypt_state:
  assumes "gcm_state key j a c n ctx" "n = length c" "n + length d < 2 ^ 32"
  shows "\<exists>ctx'. gcm_decrypt ds d ctx = Some (RETURN_GOOD, stream_xor (fips_cipher key) j n d, ctx') \<and> gcm_state key j a (c @ d) (n + length d) ctx'"
proof -
  obtain c1 where 1: "gcm_auth_data (txt_dist ds) d ctx = (RETURN_GOOD, c1)" "gcm_state key j a (c @ d) n c1"
    using gcm_auth_data_state [OF assms(1)] assms by auto
  obtain c2 where "gcm_crypt_data (enc_dist ds) d c1 = Some (RETURN_GOOD, stream_xor (fips_cipher key) j n d, c2)"
      "gcm_state key j a (c @ d) (n + length d) c2"
    using gcm_crypt_data_state [OF 1(2) assms(3)] by blast
  then show ?thesis by (simp add: gcm_decrypt_def 1)
qed

lemma GCTR_message: "length key = 16 \<Longrightarrow> length j = 16 \<Longrightarrow> GCTR (fips_cipher key) (inc32 j) d = stream_xor (fips_cipher key) j 0 d"
  using GCTR_stream [of "fips_cipher key" j 0 d] by simp

lemma gcm_tag_eq:
  "gcm_tag (fips_cipher key) iv a c t = take t (map2 (XOR)
    (gf_block (GHASH (hkey key) (padded a @ padded c @ [bits64 (length a) @ bits64 (length c)]))) (fips_cipher key (J0 (fips_cipher key) iv)))"
proof -
  have "GCTR E j s = map2 (XOR) s (E j)" if "length s = 16" for E j s
    using that GCTR.simps [of E "inc32 j" "[]"] by (subst GCTR.simps) auto
  then show ?thesis by (simp add: gcm_tag_def)
qed

lemma compute_tag:
  assumes s: "gcm_state key (J0 (fips_cipher key) iv) a c n ctx" and n: "n = length c \<or> n = 0"
    and l: "length a < 2 ^ 32" "length c + 16 \<le> 2 ^ 32" "length tag \<le> 16"
  shows "\<exists>ctx'. gcm_compute_tag tag ctx = Some (if n = length c then RETURN_GOOD else RETURN_WARN,
    gcm_tag (fips_cipher key) iv a c (length tag), ctx') \<and> gcm_ready key ctx'"
  using gcm_compute_tag_state [OF s n l] keyed_ctx_key [OF gcm_state_keyed [OF s]] by (auto simp: gcm_tag_eq gcm_ready_def)

lemma gcm_encrypt_message_ready:
  assumes r: "gcm_ready key ctx" and l: "length iv < 2 ^ 29" "length hdr < 2 ^ 32" "length msg + 16 \<le> 2 ^ 32" "length tag \<le> 16"
  shows "\<exists>ctx'. gcm_encrypt_message ds iv hdr msg tag ctx =
    Some (RETURN_GOOD, fst (GCM_AE (fips_cipher key) iv msg hdr (length tag)), snd (GCM_AE (fips_cipher key) iv msg hdr (length tag)), ctx') \<and>
    gcm_ready key ctx'"
proof -
  let ?J = "J0 (fips_cipher key) iv" and ?c = "stream_xor (fips_cipher key) (J0 (fips_cipher key) iv) 0 msg"
  obtain c1 where 1: "gcm_init_message iv ctx = (RETURN_GOOD, c1)" "gcm_state key ?J [] [] 0 c1" using ready_init [OF r l(1)] by blast
  obtain c2 where 2: "gcm_auth_header (hdr_dist ds) hdr c1 = (RETURN_GOOD, c2)" "gcm_state key ?J hdr [] 0 c2"
    using gcm_auth_header_state [OF 1(2), of hdr "hdr_dist ds"] l(2) by auto
  obtain c3 where 3: "gcm_encrypt ds msg c2 = Some (RETURN_GOOD, ?c, c3)" "gcm_state key ?J hdr ?c (length msg) c3"
    using gcm_encrypt_state [OF 2(2), of msg ds] l(3) by auto
  obtain c4 where 4: "gcm_compute_tag tag c3 = Some (RETURN_GOOD, gcm_tag (fips_cipher key) iv hdr ?c (length tag), c4)" "gcm_ready key c4"
    using compute_tag [OF 3(2), of tag] l by auto
  have "length key = 16" using r by (auto simp: gcm_ready_def)
  then show ?thesis
    using 4(2) by (simp add: gcm_encrypt_message_def 1(1) 2(1) 3(1) 4(1) GCM_AE_def Let_def GCTR_message J0_length RETURN_GOOD_def)
qed

lemma gcm_decrypt_message_ready:
  assumes r: "gcm_ready key ctx" and l: "length iv < 2 ^ 29" "length hdr < 2 ^ 32" "length msg + 16 \<le> 2 ^ 32" "length tag \<le> 16"
  shows "\<exists>ctx'. gcm_decrypt_message ds iv hdr msg tag ctx =
    Some (if GCM_AD (fips_cipher key) iv msg hdr tag = None then RETURN_ERROR else RETURN_GOOD,
      GCTR (fips_cipher key) (inc32 (J0 (fips_cipher key) iv)) msg, ctx') \<and> gcm_ready key ctx'"
proof -
  let ?J = "J0 (fips_cipher key) iv" and ?p = "stream_xor (fips_cipher key) (J0 (fips_cipher key) iv) 0 msg"
  obtain c1 where 1: "gcm_init_message iv ctx = (RETURN_GOOD, c1)" "gcm_state key ?J [] [] 0 c1" using ready_init [OF r l(1)] by blast
  obtain c2 where 2: "gcm_auth_header (hdr_dist ds) hdr c1 = (RETURN_GOOD, c2)" "gcm_state key ?J hdr [] 0 c2"
    using gcm_auth_header_state [OF 1(2), of hdr "hdr_dist ds"] l(2) by auto
  obtain c3 where 3: "gcm_decrypt ds msg c2 = Some (RETURN_GOOD, ?p, c3)" "gcm_state key ?J hdr msg (length msg) c3"
    using gcm_decrypt_state [OF 2(2), of msg ds] l(3) by auto
  obtain c4 where 4: "gcm_compute_tag (replicate (length tag) 0) c3 = Some (RETURN_GOOD, gcm_tag (fips_cipher key) iv hdr msg (length tag), c4)"
      "gcm_ready key c4"
    using compute_tag [OF 3(2), of "replicate (length tag) 0"] l by auto
  have "length key = 16" using r by (auto simp: gcm_ready_def)
  then show ?thesis
    using 4(2) by (auto simp: gcm_decrypt_message_def 1(1) 2(1) 3(1) 4(1) GCM_AD_def GCTR_message J0_length)
qed

end
