(* ===== verification/Gcm_Message.thy ===== *)
theory Gcm_Message
  imports Gcm_Correct
begin

text \<open>
  The properties of \<open>gcm.c\<close> for its callers: whole messages, messages in pieces, the results
  of the tag computation, and that every function keeps the sizes of a context's arrays.
\<close>

subsection \<open>Pieces of a message\<close>

primrec header_pieces :: "(int \<times> byte list) list \<Rightarrow> gcm_ctx \<Rightarrow> gcm_ctx" where
  "header_pieces [] ctx = ctx"
| "header_pieces (p # ps) ctx = header_pieces ps (snd (gcm_auth_header (fst p) (snd p) ctx))"

primrec encrypt_pieces :: "(buf_dist \<times> byte list) list \<Rightarrow> gcm_ctx \<Rightarrow> (byte list \<times> gcm_ctx) option" where
  "encrypt_pieces [] ctx = Some ([], ctx)"
| "encrypt_pieces (p # ps) ctx = do {
     (_, out, ctx) \<leftarrow> gcm_encrypt (fst p) (snd p) ctx;
     (outs, ctx) \<leftarrow> encrypt_pieces ps ctx;
     Some (out @ outs, ctx) }"

lemma header_pieces_state:
  "gcm_state key j a c n ctx \<Longrightarrow> length a + length (concat (map snd ps)) < 2 ^ 32 \<Longrightarrow>
    gcm_state key j (a @ concat (map snd ps)) c n (header_pieces ps ctx)"
proof (induction ps arbitrary: a ctx)
  case (Cons p ps)
  obtain ctx' where "gcm_auth_header (fst p) (snd p) ctx = (RETURN_GOOD, ctx')" "gcm_state key j (a @ snd p) c n ctx'"
    using gcm_auth_header_state [OF Cons.prems(1), of "snd p" "fst p"] Cons.prems(2) by auto
  then show ?case using Cons.IH [of "a @ snd p" ctx'] Cons.prems(2) by (simp add: add.assoc)
qed simp

lemma encrypt_pieces_state:
  "gcm_state key j a c n ctx \<Longrightarrow> n = length c \<Longrightarrow> n + length (concat (map snd ps)) < 2 ^ 32 \<Longrightarrow>
    \<exists>ctx'. encrypt_pieces ps ctx = Some (stream_xor (fips_cipher key) j n (concat (map snd ps)), ctx') \<and>
      gcm_state key j a (c @ stream_xor (fips_cipher key) j n (concat (map snd ps))) (n + length (concat (map snd ps))) ctx'"
proof (induction ps arbitrary: c n ctx)
  case (Cons p ps)
  obtain ctx' where 1: "gcm_encrypt (fst p) (snd p) ctx = Some (RETURN_GOOD, stream_xor (fips_cipher key) j n (snd p), ctx')"
      "gcm_state key j a (c @ stream_xor (fips_cipher key) j n (snd p)) (n + length (snd p)) ctx'"
    using gcm_encrypt_state [OF Cons.prems(1,2), of "snd p" "fst p"] Cons.prems(3) by auto
  show ?case using Cons.IH [OF 1(2)] Cons.prems(2,3) 1(1) by (auto simp: stream_xor_append add.assoc)
qed simp

subsection \<open>A context after memset\<close>

definition zero_gcm_ctx :: gcm_ctx where
  "zero_gcm_ctx = \<lparr>gf_t4k = replicate 256 zero_block, ctr_val = zero_block, enc_ctr = zero_block, hdr_ghv = zero_block,
     txt_ghv = zero_block, ghash_h = zero_block, aes = \<lparr>ks = replicate KS_LENGTH 0, inf_b = [0, 0, 0, 0]\<rparr>,
     y0_val = 0, hdr_cnt = 0, txt_ccnt = 0, txt_acnt = 0\<rparr>"

lemma zero_gcm_ctx_wf [simp]: "gcm_wf zero_gcm_ctx"
  by (simp add: gcm_wf_def zero_gcm_ctx_def blocks_def)

subsection \<open>Properties\<close>

text \<open>
  C1. Authenticated encryption. After \<open>gcm_init_and_key\<close> with a 128-bit key on a context of
  any content, \<open>gcm_encrypt_message\<close> returns success and its ciphertext and tag are those
  that GCM of SP 800-38D defines for AES-128, for any alignment of the buffers; the
  context is then ready for the next message.
\<close>

theorem gcm_encrypt_message_ae:
  assumes "gcm_wf ctx" "length key = 16" "length iv < 2 ^ 29" "length hdr < 2 ^ 32" "length msg + 16 \<le> 2 ^ 32" "length tag \<le> 16"
  shows "\<exists>ctx1 ctx2 c t. gcm_init_and_key key key_len ctx = Some (RETURN_GOOD, ctx1) \<and>
    gcm_encrypt_message ds iv hdr msg tag ctx1 = Some (RETURN_GOOD, c, t, ctx2) \<and>
    (c, t) = GCM_AE (fips_cipher key) iv msg hdr (length tag) \<and> gcm_ready key ctx2"
proof -
  obtain c1 where 1: "gcm_init_and_key key key_len ctx = Some (RETURN_GOOD, c1)" "gcm_ready key c1"
    using gcm_init_and_key_ready [OF assms(1,2)] by blast
  show ?thesis using 1 gcm_encrypt_message_ready [OF 1(2) assms(3-6), of ds] by auto
qed

theorem gcm_encrypt_message_ae_witness:
  "\<exists>ctx1 ctx2 c t. gcm_init_and_key (replicate 16 0) 16 zero_gcm_ctx = Some (RETURN_GOOD, ctx1) \<and>
    gcm_encrypt_message \<lparr>hdr_dist = 0, enc_dist = 1, txt_dist = 2\<rparr> (replicate 12 0) [1, 2, 3] (replicate 40 7) (replicate 8 0) ctx1 =
      Some (RETURN_GOOD, c, t, ctx2) \<and>
    (c, t) = GCM_AE (fips_cipher (replicate 16 0)) (replicate 12 0) (replicate 40 7) [1, 2, 3] 8 \<and> gcm_ready (replicate 16 0) ctx2"
  using gcm_encrypt_message_ae [of zero_gcm_ctx "replicate 16 0" "replicate 12 0" "[1, 2, 3]" "replicate 40 7" "replicate 8 0" 16
    "\<lparr>hdr_dist = 0, enc_dist = 1, txt_dist = 2\<rparr>"] by simp

text \<open>
  C2. Authenticated decryption. With a key set, \<open>gcm_decrypt_message\<close> returns success
  exactly when the tag it is given is the one GCM defines for the header and the
  ciphertext, and the error otherwise; in both cases the buffer then holds the
  decrypted text.
\<close>

theorem gcm_decrypt_message_ad:
  assumes "gcm_wf ctx" "length key = 16" "length iv < 2 ^ 29" "length hdr < 2 ^ 32" "length msg + 16 \<le> 2 ^ 32" "length tag \<le> 16"
  shows "\<exists>ctx1 ctx2 r p. gcm_init_and_key key key_len ctx = Some (RETURN_GOOD, ctx1) \<and>
    gcm_decrypt_message ds iv hdr msg tag ctx1 = Some (r, p, ctx2) \<and> p = GCTR (fips_cipher key) (inc32 (J0 (fips_cipher key) iv)) msg \<and>
    GCM_AD (fips_cipher key) iv msg hdr tag = (if r = RETURN_GOOD then Some p else None) \<and> (r = RETURN_GOOD \<or> r = RETURN_ERROR) \<and>
    gcm_ready key ctx2"
proof -
  obtain c1 where 1: "gcm_init_and_key key key_len ctx = Some (RETURN_GOOD, c1)" "gcm_ready key c1"
    using gcm_init_and_key_ready [OF assms(1,2)] by blast
  obtain c2 where "gcm_decrypt_message ds iv hdr msg tag c1 =
      Some (if GCM_AD (fips_cipher key) iv msg hdr tag = None then RETURN_ERROR else RETURN_GOOD,
        GCTR (fips_cipher key) (inc32 (J0 (fips_cipher key) iv)) msg, c2)" "gcm_ready key c2"
    using gcm_decrypt_message_ready [OF 1(2) assms(3-6), of ds] by blast
  with 1 show ?thesis by (auto simp: GCM_AD_def RETURN_GOOD_def RETURN_ERROR_def)
qed

theorem gcm_decrypt_message_ad_witness:
  "\<exists>ctx1 ctx2 r p. gcm_init_and_key (replicate 16 0) 16 zero_gcm_ctx = Some (RETURN_GOOD, ctx1) \<and>
    gcm_decrypt_message \<lparr>hdr_dist = 0, enc_dist = 1, txt_dist = 2\<rparr> (replicate 12 0) [1, 2, 3] (replicate 40 7) (replicate 8 0) ctx1 =
      Some (r, p, ctx2) \<and> p = GCTR (fips_cipher (replicate 16 0)) (inc32 (J0 (fips_cipher (replicate 16 0)) (replicate 12 0))) (replicate 40 7) \<and>
    GCM_AD (fips_cipher (replicate 16 0)) (replicate 12 0) (replicate 40 7) [1, 2, 3] (replicate 8 0) = (if r = RETURN_GOOD then Some p else None) \<and>
    (r = RETURN_GOOD \<or> r = RETURN_ERROR) \<and> gcm_ready (replicate 16 0) ctx2"
  using gcm_decrypt_message_ad [of zero_gcm_ctx "replicate 16 0" "replicate 12 0" "[1, 2, 3]" "replicate 40 7" "replicate 8 0" 16
    "\<lparr>hdr_dist = 0, enc_dist = 1, txt_dist = 2\<rparr>"] by simp

text \<open>
  C3. Round trip. What \<open>gcm_encrypt_message\<close> produces, \<open>gcm_decrypt_message\<close> with the same key,
  initial value and header accepts and turns back into the message, whatever the buffers'
  alignments on both sides; with any other tag of the same length it is refused.
\<close>

theorem gcm_roundtrip:
  assumes "gcm_ready key ctx" "gcm_ready key ctx'" "length iv < 2 ^ 29" "length hdr < 2 ^ 32" "length msg + 16 \<le> 2 ^ 32" "length tag \<le> 16"
  shows "\<exists>c t ctx1 ctx2. gcm_encrypt_message ds iv hdr msg tag ctx = Some (RETURN_GOOD, c, t, ctx1) \<and> length c = length msg \<and>
    length t = length tag \<and> gcm_decrypt_message ds' iv hdr c t ctx' = Some (RETURN_GOOD, msg, ctx2) \<and>
    (\<forall>t'. length t' = length tag \<and> t' \<noteq> t \<longrightarrow> (\<exists>ctx3. gcm_decrypt_message ds' iv hdr c t' ctx' = Some (RETURN_ERROR, msg, ctx3)))"
proof -
  let ?E = "fips_cipher key"
  have k: "length key = 16" using assms(1) by (auto simp: gcm_ready_def)
  define c where "c = GCTR ?E (inc32 (J0 ?E iv)) msg"
  define t where "t = gcm_tag ?E iv hdr c (length tag)"
  have g: "GCTR ?E (inc32 (J0 ?E iv)) c = msg" by (simp add: c_def GCTR_message k J0_length stream_xor_twice)
  have l: "length c = length msg" "length t = length tag"
    using assms(6) k by (simp_all add: c_def GCTR_message J0_length t_def gcm_tag_eq)
  obtain c1 where 1: "gcm_encrypt_message ds iv hdr msg tag ctx = Some (RETURN_GOOD, c, t, c1)"
    using gcm_encrypt_message_ready [OF assms(1,3-6), of ds] by (auto simp: GCM_AE_def c_def t_def Let_def)
  have 2: "\<exists>c2. gcm_decrypt_message ds' iv hdr c t' ctx' = Some (if t' = t then RETURN_GOOD else RETURN_ERROR, msg, c2)"
    if "length t' = length tag" for t'
    using gcm_decrypt_message_ready [OF assms(2-4), of c t' ds'] assms(5,6) that l
    by (auto simp: GCM_AD_def g t_def [symmetric] split: if_splits)
  show ?thesis using 1 2 [of t] 2 l by fastforce
qed

theorem gcm_roundtrip_witness:
  "\<exists>ctx c t ctx1 ctx2. gcm_init_and_key (replicate 16 3) 16 zero_gcm_ctx = Some (RETURN_GOOD, ctx) \<and>
    gcm_encrypt_message \<lparr>hdr_dist = 0, enc_dist = 1, txt_dist = 2\<rparr> (replicate 12 0) [1, 2, 3] (replicate 40 7) (replicate 8 0) ctx =
      Some (RETURN_GOOD, c, t, ctx1) \<and> length c = 40 \<and>
    gcm_decrypt_message \<lparr>hdr_dist = 3, enc_dist = 0, txt_dist = 0\<rparr> (replicate 12 0) [1, 2, 3] c t ctx = Some (RETURN_GOOD, replicate 40 7, ctx2)"
proof -
  obtain ctx where k: "gcm_init_and_key (replicate 16 3) 16 zero_gcm_ctx = Some (RETURN_GOOD, ctx)" "gcm_ready (replicate 16 3) ctx"
    using gcm_init_and_key_ready [of zero_gcm_ctx "replicate 16 3" 16] by auto
  show ?thesis
    using gcm_roundtrip [OF k(2) k(2), of "replicate 12 0" "[1, 2, 3]" "replicate 40 7" "replicate 8 0"
      "\<lparr>hdr_dist = 0, enc_dist = 1, txt_dist = 2\<rparr>" "\<lparr>hdr_dist = 3, enc_dist = 0, txt_dist = 0\<rparr>"] k(1) by auto
qed

text \<open>
  C23. Messages in pieces. However header and message are cut into pieces, of any sizes and
  alignments, \<open>gcm_init_message\<close>, \<open>gcm_auth_header\<close> and \<open>gcm_encrypt\<close> on the pieces in order and
  \<open>gcm_compute_tag\<close> give the ciphertext and tag of the whole.
\<close>

theorem gcm_pieces:
  assumes "gcm_ready key ctx" "length iv < 2 ^ 29" "length (concat (map snd hs)) < 2 ^ 32" "length (concat (map snd ps)) + 16 \<le> 2 ^ 32"
    "length tag \<le> 16"
  shows "\<exists>c t ctx1 ctx2. encrypt_pieces ps (header_pieces hs (snd (gcm_init_message iv ctx))) = Some (c, ctx1) \<and>
    gcm_compute_tag tag ctx1 = Some (RETURN_GOOD, t, ctx2) \<and>
    (c, t) = GCM_AE (fips_cipher key) iv (concat (map snd ps)) (concat (map snd hs)) (length tag)"
proof -
  let ?J = "J0 (fips_cipher key) iv" and ?c = "stream_xor (fips_cipher key) (J0 (fips_cipher key) iv) 0 (concat (map snd ps))"
  obtain c1 where 1: "gcm_init_message iv ctx = (RETURN_GOOD, c1)" "gcm_state key ?J [] [] 0 c1" using ready_init [OF assms(1,2)] by blast
  have 2: "gcm_state key ?J (concat (map snd hs)) [] 0 (header_pieces hs c1)" using header_pieces_state [OF 1(2), of hs] assms(3) by simp
  obtain c3 where 3: "encrypt_pieces ps (header_pieces hs c1) = Some (?c, c3)" "gcm_state key ?J (concat (map snd hs)) ?c (length (concat (map snd ps))) c3"
    using encrypt_pieces_state [OF 2, of ps] assms(4) by auto
  obtain c4 where 4: "gcm_compute_tag tag c3 = Some (RETURN_GOOD, gcm_tag (fips_cipher key) iv (concat (map snd hs)) ?c (length tag), c4)"
    using compute_tag [OF 3(2), of tag] assms(3-5) by auto
  have "length key = 16" using assms(1) by (auto simp: gcm_ready_def)
  then show ?thesis using 1(1) 3(1) 4 by (simp add: GCM_AE_def Let_def GCTR_message J0_length)
qed

theorem gcm_pieces_witness:
  "\<exists>ctx c t ctx1 ctx2. gcm_init_and_key (replicate 16 3) 16 zero_gcm_ctx = Some (RETURN_GOOD, ctx) \<and>
    encrypt_pieces [(\<lparr>hdr_dist = 0, enc_dist = 1, txt_dist = 2\<rparr>, [1, 2, 3]), (\<lparr>hdr_dist = 0, enc_dist = 0, txt_dist = 0\<rparr>, replicate 30 9)]
      (header_pieces [(0, [5]), (3, [6, 7])] (snd (gcm_init_message (replicate 12 0) ctx))) = Some (c, ctx1) \<and>
    gcm_compute_tag (replicate 16 0) ctx1 = Some (RETURN_GOOD, t, ctx2) \<and>
    (c, t) = GCM_AE (fips_cipher (replicate 16 3)) (replicate 12 0) ([1, 2, 3] @ replicate 30 9) [5, 6, 7] 16"
proof -
  obtain ctx where k: "gcm_init_and_key (replicate 16 3) 16 zero_gcm_ctx = Some (RETURN_GOOD, ctx)" "gcm_ready (replicate 16 3) ctx"
    using gcm_init_and_key_ready [of zero_gcm_ctx "replicate 16 3" 16] by auto
  show ?thesis
    using gcm_pieces [OF k(2), of "replicate 12 0" "[(0, [5]), (3, [6, 7])]"
      "[(\<lparr>hdr_dist = 0, enc_dist = 1, txt_dist = 2\<rparr>, [1, 2, 3]), (\<lparr>hdr_dist = 0, enc_dist = 0, txt_dist = 0\<rparr>, replicate 30 9)]" "replicate 16 0"] k(1)
    by auto
qed

text \<open>
  Text that is only authenticated, or only encrypted. Authenticating a header and a text
  without encrypting it gives the tag of both and, unless the text is empty, the warning
  result. Encrypting a text that is then not authenticated makes \<open>gcm_compute_tag\<close> return the
  error with the tag buffer and the context as they were.
\<close>

lemma gcm_unpaired:
  assumes "gcm_ready key ctx" "length iv < 2 ^ 29" "length hdr < 2 ^ 32" "length d + 16 \<le> 2 ^ 32" "length tag \<le> 16" "d \<noteq> []"
  shows "let ctx1 = snd (gcm_auth_header dist hdr (snd (gcm_init_message iv ctx))) in
    (\<exists>ctx3. gcm_compute_tag tag (snd (gcm_auth_data dist' d ctx1)) =
       Some (RETURN_WARN, gcm_tag (fips_cipher key) iv hdr d (length tag), ctx3)) \<and>
    (\<exists>r c ctx2. gcm_crypt_data dist' d ctx1 = Some (r, c, ctx2) \<and> gcm_compute_tag tag ctx2 = Some (RETURN_ERROR, tag, ctx2))"
proof -
  let ?J = "J0 (fips_cipher key) iv"
  obtain c1 where 1: "gcm_init_message iv ctx = (RETURN_GOOD, c1)" "gcm_state key ?J [] [] 0 c1" using ready_init [OF assms(1,2)] by blast
  obtain c2 where 2: "gcm_auth_header dist hdr c1 = (RETURN_GOOD, c2)" "gcm_state key ?J hdr [] 0 c2"
    using gcm_auth_header_state [OF 1(2), of hdr dist] assms(3) by auto
  obtain c3 where 3: "gcm_auth_data dist' d c2 = (RETURN_GOOD, c3)" "gcm_state key ?J hdr d 0 c3"
    using gcm_auth_data_state [OF 2(2), of d dist'] assms(4) by auto
  obtain c4 where 4: "gcm_crypt_data dist' d c2 = Some (RETURN_GOOD, stream_xor (fips_cipher key) ?J 0 d, c4)" "gcm_state key ?J hdr [] (length d) c4"
    using gcm_crypt_data_state [OF 2(2), of d dist'] assms(4) by auto
  have "txt_ccnt c4 \<noteq> 0" "txt_acnt c4 = 0"
    using 4(2) assms(4,6) by (auto simp: gcm_state_def word_of_nat_eq_0_iff dest!: dvd_imp_le)
  then have "gcm_compute_tag tag c4 = Some (RETURN_ERROR, tag, c4)" by (auto simp: gcm_compute_tag_def word_gt_0)
  then show ?thesis using 1(1) 2(1) 3(1) 4(1) compute_tag [OF 3(2), of tag] assms(3-6) by auto
qed

lemma gcm_unpaired_witness:
  "\<exists>ctx ctx1. gcm_init_and_key (replicate 16 3) 16 zero_gcm_ctx = Some (RETURN_GOOD, ctx) \<and>
    ctx1 = snd (gcm_auth_header 0 [8] (snd (gcm_init_message (replicate 12 0) ctx))) \<and>
    (\<exists>ctx3. gcm_compute_tag (replicate 4 0) (snd (gcm_auth_data 1 [4, 5] ctx1)) =
       Some (RETURN_WARN, gcm_tag (fips_cipher (replicate 16 3)) (replicate 12 0) [8] [4, 5] 4, ctx3)) \<and>
    (\<exists>r c ctx2. gcm_crypt_data 1 [4, 5] ctx1 = Some (r, c, ctx2) \<and> gcm_compute_tag (replicate 4 0) ctx2 = Some (RETURN_ERROR, (replicate 4 0), ctx2))"
proof -
  obtain ctx where k: "gcm_init_and_key (replicate 16 3) 16 zero_gcm_ctx = Some (RETURN_GOOD, ctx)" "gcm_ready (replicate 16 3) ctx"
    using gcm_init_and_key_ready [of zero_gcm_ctx "replicate 16 3" 16] by auto
  show ?thesis
    using gcm_unpaired [OF k(2), of "replicate 12 0" "[8]" "[4, 5]" "(replicate 4 0)" 0 1] k(1) by (simp add: Let_def)
qed

end
