(* ===== verification/Gcm_Types.thy ===== *)
theory Gcm_Types
  imports Gcm_Message
begin

text \<open>
  Every function of \<open>gcm.c\<close> keeps the sizes of the arrays of a context and of the caller's
  buffers, on contexts of any content: no key needs to have been set.
\<close>

lemma gf_mul_hh_size [simp]: "gcm_wf ctx \<Longrightarrow> length a = 16 \<Longrightarrow> length (gf_mul_hh a ctx) = 16"
proof -
  assume w: "gcm_wf ctx" and a: "length a = 16"
  have t: "length (gf_t4k ctx ! unat x) = 16" for x :: byte
    using w unsigned_less [of x, where ?'a = nat] blocks_nth [of 256 "gf_t4k ctx" "unat x"] by (simp add: gcm_wf_def)
  have "length (xor_4k LB a (gf_t4k ctx) r i) = 16" if "length r = 16" for r i
    using that t by (simp add: xor_4k_def Let_def gf_mulx8_val xor_block_aligned_eq)
  then have "length (foldl (xor_4k LB a (gf_t4k ctx)) r is) = 16" if "length r = 16" for r "is"
    using that by (induction "is" arbitrary: r) simp_all
  then show ?thesis using a by (simp add: gf_mul_hh_def gf_mul_4k_def Let_def del: foldl_Cons)
qed

lemma aes_encrypt_size: "aes_encrypt inp out cx = Some (r, o') \<Longrightarrow> length o' = length out"
proof -
  have "length (state_out y x) = length y" for y x by (simp add: state_out_def word_out_def)
  then show "aes_encrypt inp out cx = Some (r, o') \<Longrightarrow> length o' = length out"
    by (auto simp: aes_encrypt_def Let_def split_beta split: if_splits)
qed

lemma encrypt_block_size: "encrypt_block inp out ctx = Some e \<Longrightarrow> length e = length out"
  by (auto simp: encrypt_block_def dest: aes_encrypt_size)

lemma aes_key_size:
  "length (ks (snd (aes_encrypt_key128 key cx))) = length (ks cx)" "length (inf_b (snd (aes_encrypt_key128 key cx))) = 4"
proof -
  have k: "length (fst (ke4 kss i)) = length (fst kss)" for kss i by (cases kss) (simp add: ke4_def Let_def)
  show "length (ks (snd (aes_encrypt_key128 key cx))) = length (ks cx)" "length (inf_b (snd (aes_encrypt_key128 key cx))) = 4"
    by (simp_all add: aes_encrypt_key128_def Let_def k)
qed

lemma next_block_wf: "next_block ctx = Some ctx' \<Longrightarrow> gcm_wf ctx \<Longrightarrow> gcm_wf ctx'"
proof -
  have "length (inc_ctr_from n x) = length x" for n x
    by (induction n x rule: inc_ctr_from.induct) (subst inc_ctr_from.simps, simp add: Let_def)
  then show "next_block ctx = Some ctx' \<Longrightarrow> gcm_wf ctx \<Longrightarrow> gcm_wf ctx'"
    by (auto simp: next_block_def inc_ctr_def gcm_wf_def Let_def bind_eq_Some_conv dest: encrypt_block_size)
qed

lemma auth_size:
  "length (fst (auth_to_unit g b d)) = length g" "length (fst (auth_units g b d)) = length g" "length (fst (auth_to_block g b d)) = length g"
proof -
  show "length (fst (auth_to_unit g b d)) = length g" by (induction g b d rule: auth_to_unit.induct) simp_all
  show "length (fst (auth_to_block g b d)) = length g" by (induction g b d rule: auth_to_block.induct) simp_all
  show "length (fst (auth_units g b d)) = length g"
    by (induction g b d rule: auth_units.induct) (subst auth_units.simps, simp add: put_unit_def)
qed

lemma auth_tail_size: "gcm_wf ctx \<Longrightarrow> length g = 16 \<Longrightarrow> length (auth_tail ctx g b d) = 16"
  by (induction d arbitrary: g b) (simp_all add: Let_def)

lemma auth_blocks_size:
  assumes "xb = xor_block \<or> xb = xor_block_aligned"
  shows "gcm_wf ctx \<Longrightarrow> length g = 16 \<Longrightarrow> length (fst (auth_blocks xb ctx g d)) = 16"
proof (induction "length d" arbitrary: g d rule: less_induct)
  case less
  show ?case
  proof (cases "16 \<le> length d")
    case True
    let ?g = "xb (gf_mul_hh g ctx) (gf_mul_hh g ctx) (take 16 d)"
    have "length ?g = 16" using assms less(2,3) True by (auto simp: xor_block_eq xor_block_aligned_eq)
    then show ?thesis using less(1) [of "drop 16 d" ?g] less(2) True
      by (subst auth_blocks.simps) (simp add: Let_def BLOCK_SIZE_def AES_BLOCK_SIZE_def)
  next
    case False
    then show ?thesis using less(3) by (subst auth_blocks.simps) (simp add: BLOCK_SIZE_def AES_BLOCK_SIZE_def)
  qed
qed

lemma auth_paths_size: "gcm_wf ctx \<Longrightarrow> length g = 16 \<Longrightarrow> length (auth_paths dist ctx g b d) = 16"
  by (auto simp: auth_paths_def Let_def split_beta auth_size auth_blocks_size intro!: auth_tail_size)

lemma auth_start_size: "gcm_wf ctx \<Longrightarrow> length g = 16 \<Longrightarrow> length (auth_start c g ctx) = 16"
  by (simp add: auth_start_def)

lemma crypt_size:
  "length (fst (snd (crypt_to_unit e b out d))) + length (snd (snd (crypt_to_unit e b out d))) = length out + length d"
  "length (fst (snd (crypt_units e b out d))) + length (snd (snd (crypt_units e b out d))) = length out + length d"
  "length (fst (snd (crypt_to_block e b out d))) + length (snd (snd (crypt_to_block e b out d))) = length out + length d"
proof -
  show "length (fst (snd (crypt_to_unit e b out d))) + length (snd (snd (crypt_to_unit e b out d))) = length out + length d"
    by (induction e b out d rule: crypt_to_unit.induct) simp_all
  show "length (fst (snd (crypt_to_block e b out d))) + length (snd (snd (crypt_to_block e b out d))) = length out + length d"
    by (induction e b out d rule: crypt_to_block.induct) simp_all
  show "length (fst (snd (crypt_units e b out d))) + length (snd (snd (crypt_units e b out d))) = length out + length d"
    by (induction e b out d rule: crypt_units.induct) (subst (1 2) crypt_units.simps, auto simp: ui32_bytes_def BUF_INC_def)
qed

lemma crypt_blocks_size:
  assumes "xb = xor_block \<or> xb = xor_block_aligned"
  shows "crypt_blocks xb ctx out d = Some (ctx', out', d') \<Longrightarrow> gcm_wf ctx \<Longrightarrow>
    gcm_wf ctx' \<and> txt_ccnt ctx' = txt_ccnt ctx \<and> length out' + length d' = length out + length d"
proof (induction "length d" arbitrary: ctx out d rule: less_induct)
  case less
  show ?case
  proof (cases "16 \<le> length d")
    case True
    obtain c1 where 1: "next_block ctx = Some c1" "crypt_blocks xb c1 (out @ xb (take 16 d) (take 16 d) (enc_ctr c1)) (drop 16 d) = Some (ctx', out', d')"
      using less(2) True by (subst (asm) crypt_blocks.simps) (auto simp: BLOCK_SIZE_def AES_BLOCK_SIZE_def bind_eq_Some_conv Let_def)
    have w: "gcm_wf c1" using next_block_wf [OF 1(1) less(3)] .
    then have "length (xb (take 16 d) (take 16 d) (enc_ctr c1)) = 16"
      using assms True by (auto simp: gcm_wf_def xor_block_eq xor_block_aligned_eq)
    moreover have "txt_ccnt c1 = txt_ccnt ctx" using 1(1) by (auto simp: next_block_def Let_def bind_eq_Some_conv)
    ultimately show ?thesis using less(1) [OF _ 1(2) w] True by simp
  next
    case False
    then show ?thesis using less(2,3) by (subst (asm) crypt_blocks.simps) (simp add: BLOCK_SIZE_def AES_BLOCK_SIZE_def)
  qed
qed

lemma crypt_tail_size:
  "crypt_tail ctx b out d = Some (ctx', out') \<Longrightarrow> gcm_wf ctx \<Longrightarrow> gcm_wf ctx' \<and> length out' = length out + length d"
proof (induction d arbitrary: ctx b out)
  case (Cons x d)
  then show ?case by (fastforce simp: bind_eq_Some_conv split: if_splits dest: next_block_wf)
qed simp

lemma crypt_paths_size:
  assumes "crypt_paths dist ctx b d = Some (ctx', out)" "gcm_wf ctx"
  shows "gcm_wf ctx' \<and> length out = length d"
proof -
  obtain xb b1 o1 d1 c2 o2 d2 where b: "xb = xor_block \<or> xb = xor_block_aligned" "crypt_blocks xb ctx o1 d1 = Some (c2, o2, d2)"
      "length o1 + length d1 = length d" "crypt_tail c2 b1 o2 d2 = Some (ctx', out)"
  proof (cases "aligned dist b")
    case True
    define p where "p = (if b \<noteq> 0 then (let (b, out, d) = crypt_to_unit (enc_ctr ctx) b [] d in crypt_units (enc_ctr ctx) b out d) else (b, [], d))"
    have "length (fst (snd p)) + length (snd (snd p)) = length d"
      using crypt_size(1) [of "enc_ctr ctx" b "[]" d] crypt_size(2) by (simp add: p_def Let_def split_beta)
    then show thesis using True assms(1) that [of xor_block_aligned "fst (snd p)" "snd (snd p)"] unfolding crypt_paths_def p_def [symmetric]
      by (auto simp: Let_def split_beta bind_eq_Some_conv)
  next
    case False
    define p where "p = (if b \<noteq> 0 then crypt_to_block (enc_ctr ctx) b [] d else (b, [], d))"
    have "length (fst (snd p)) + length (snd (snd p)) = length d"
      using crypt_size(3) [of "enc_ctr ctx" b "[]" d] by (simp add: p_def)
    then show thesis using False assms(1) that [of xor_block "fst (snd p)" "snd (snd p)"] unfolding crypt_paths_def p_def [symmetric]
      by (auto simp: Let_def split_beta bind_eq_Some_conv)
  qed
  show ?thesis using crypt_blocks_size [OF b(1,2) assms(2)] crypt_tail_size [OF b(4)] b(3) by simp
qed

lemma iv_blocks_size: "gcm_wf ctx \<Longrightarrow> length c = 16 \<Longrightarrow> length (fst (iv_blocks ctx c iv)) = 16"
proof (induction "length iv" arbitrary: c iv rule: less_induct)
  case less
  then show ?case
    by (subst iv_blocks.simps) (simp add: BLOCK_SIZE_def AES_BLOCK_SIZE_def xor_block_aligned_eq)
qed

lemma iv_length_size: "length (iv_length c i n) = length c"
  by (induction c i n rule: iv_length.induct) (subst iv_length.simps, simp)

lemma add_lengths_size: "length (add_lengths i tm hc t h) = length h"
  by (induction i arbitrary: tm h) simp_all

lemma compute_tag_size:
  assumes "gcm_wf ctx"
  shows "pred_option (\<lambda>(r, t, ctx'). gcm_wf ctx' \<and> length t = length tag) (gcm_compute_tag tag ctx)"
proof (cases "(txt_acnt ctx \<noteq> txt_ccnt ctx \<and> txt_ccnt ctx > 0) \<or> BLOCK_SIZE < length tag")
  case True
  then show ?thesis using assms by (auto simp: gcm_compute_tag_def)
next
  case False
  have m: "length (mul_power h (ghash_h ctx) n) = 16" if "length h = 16" "0 < n" for h n
    using mul_power_val [OF that(2,1), of "ghash_h ctx"] assms by (simp add: gcm_wf_def)
  define h where "h = (let ln = (txt_acnt ctx + 16 - 1) div 16; h = gf_mul_hh (hdr_ghv ctx) ctx
     in if hdr_cnt ctx \<noteq> 0 \<and> ln \<noteq> 0 then mul_power h (ghash_h ctx) (unat ln) else h)"
  have h: "length h = 16" using assms m by (auto simp: h_def Let_def gcm_wf_def unat_gt_0 gf_mul_hh_size [OF assms])
  show ?thesis
    using False h assms gf_mul_hh_size [OF assms] unfolding gcm_compute_tag_def Let_def h_def [unfolded Let_def, symmetric]
    by (auto simp: option.pred_set bind_eq_Some_conv add_lengths_size BLOCK_SIZE_def AES_BLOCK_SIZE_def put_unit_def gcm_wf_def
      dest!: encrypt_block_size)
qed



end
