(* ===== verification/Commsec.thy ===== *)
theory Commsec
  imports Gcm_Types
begin

text \<open>
  The secure packages of \<open>components/pilot/src/aeslib/commsec.c\<close>: a message is encrypted with
  GCM under an initial value made of a salt, the sender's station number and a counter,
  and is sent as station number, counter, ciphertext and tag. Buffers are lists of bytes;
  a buffer too short for what the code writes into it gives no result. The distances of
  the buffers from the blocks of the GCM context are arguments, as in \<open>gcm.c\<close>.
\<close>

subsection \<open>State\<close>

definition COMMSEC_SUCCEED :: u32 where "COMMSEC_SUCCEED = 0"
definition COMMSEC_FAIL_BAD_BASE_STATION :: u32 where "COMMSEC_FAIL_BAD_BASE_STATION = 1"
definition COMMSEC_FAIL_DUP_CTR :: u32 where "COMMSEC_FAIL_DUP_CTR = 2"
definition COMMSEC_FAIL_CTR_ROLLOVER :: u32 where "COMMSEC_FAIL_CTR_ROLLOVER = 3"
definition COMMSEC_FAIL_BAD_INPUT :: u32 where "COMMSEC_FAIL_BAD_INPUT = 4"
definition COMMSEC_FAIL_MSG_LENGTH_VIOLATES_ASSUMPTIONS :: u32 where "COMMSEC_FAIL_MSG_LENGTH_VIOLATES_ASSUMPTIONS = 5"
definition COMMSEC_FAIL_GCM :: u32 where "COMMSEC_FAIL_GCM = 6"

definition MAX_BASE_STATIONS :: nat where "MAX_BASE_STATIONS = 16"
definition TAG_LEN :: nat where "TAG_LEN = 8"
definition IV_LEN :: nat where "IV_LEN = 12"
definition HEADER_LEN :: nat where "HEADER_LEN = 8"
definition MAX_MESSAGE_LEN :: nat where "MAX_MESSAGE_LEN = 512"
definition UINT32_MAX :: u32 where "UINT32_MAX = 0xFFFFFFFF"

record commsec_ctx =
  encCtx :: gcm_ctx
  encSalt :: u32
  myId :: u32
  myCounter :: u32
  decCtx :: gcm_ctx
  decSalt :: u32
  mostRecentCounter :: "u32 list"

subsection \<open>Initial values\<close>

definition be_bytes :: "u32 \<Rightarrow> byte list" where
  "be_bytes w = [ucast (drop_bit 24 w AND 0xFF), ucast (drop_bit 16 w AND 0xFF), ucast (drop_bit 8 w AND 0xFF), ucast (w AND 0xFF)]"

definition be_word :: "byte list \<Rightarrow> nat \<Rightarrow> u32" where
  "be_word p i = (let w = 0; w = w + push_bit 24 (ucast (p ! i)); w = w + push_bit 16 (ucast (p ! (i + 1)));
     w = w + push_bit 8 (ucast (p ! (i + 2))) in w + ucast (p ! (i + 3)))"

definition commsec_iv :: "u32 \<Rightarrow> u32 \<Rightarrow> u32 \<Rightarrow> byte list" where
  "commsec_iv salt sid ctr = be_bytes salt @ be_bytes sid @ be_bytes ctr"

subsection \<open>Operations\<close>

definition securePkg_init ::
  "commsec_ctx \<Rightarrow> u32 \<Rightarrow> u32 \<Rightarrow> byte list \<Rightarrow> u32 \<Rightarrow> byte list \<Rightarrow> (u32 \<times> commsec_ctx) option" where
  "securePkg_init ctx myID dSalt rawDecKey eSalt rawEncKey = do {
     (_, d) \<leftarrow> gcm_init_and_key rawDecKey 16 (decCtx ctx);
     let ctx = ctx\<lparr>decCtx := d\<rparr>;
     (_, e) \<leftarrow> gcm_init_and_key rawEncKey 16 (encCtx ctx);
     let ctx = ctx\<lparr>encCtx := e, encSalt := eSalt, decSalt := dSalt, myCounter := 1, myId := myID\<rparr>;
     let ctx = ctx\<lparr>mostRecentCounter := foldl (\<lambda>c i. c[i := 0]) (mostRecentCounter ctx) [0..<MAX_BASE_STATIONS]\<rparr>;
     Some (COMMSEC_SUCCEED, ctx) }"

definition securePkg_enc ::
  "buf_dist \<Rightarrow> commsec_ctx \<Rightarrow> byte list \<Rightarrow> byte list \<Rightarrow> byte list \<Rightarrow> (u32 \<times> byte list \<times> byte list \<times> byte list \<times> commsec_ctx) option" where
  "securePkg_enc ds ctx msg ivStorage tag =
    (if MAX_MESSAGE_LEN < length msg then Some (COMMSEC_FAIL_MSG_LENGTH_VIOLATES_ASSUMPTIONS, msg, ivStorage, tag, ctx)
     else if myCounter ctx = UINT32_MAX then Some (COMMSEC_FAIL_CTR_ROLLOVER, msg, ivStorage, tag, ctx)
     else if length ivStorage < HEADER_LEN \<or> length tag < TAG_LEN then None
     else
       let iv = commsec_iv (encSalt ctx) (myId ctx) (myCounter ctx);
           ctx = ctx\<lparr>myCounter := myCounter ctx + 1\<rparr>
       in do {
         (gcmRet, msg, t, e) \<leftarrow> gcm_encrypt_message ds iv [] msg (take TAG_LEN tag) (encCtx ctx);
         Some (if gcmRet = RETURN_GOOD then COMMSEC_SUCCEED else COMMSEC_FAIL_GCM, msg,
           take HEADER_LEN (drop 4 iv) @ drop HEADER_LEN ivStorage, t @ drop TAG_LEN tag, ctx\<lparr>encCtx := e\<rparr>) })"

definition securePkg_enc_in_place :: "buf_dist \<Rightarrow> commsec_ctx \<Rightarrow> byte list \<Rightarrow> nat \<Rightarrow> nat \<Rightarrow> (u32 \<times> byte list \<times> commsec_ctx) option" where
  "securePkg_enc_in_place ds ctx buf msgStartIdx msgLen =
    (if msgStartIdx < 8 then Some (COMMSEC_FAIL_BAD_INPUT, buf, ctx)
     else if length buf < msgStartIdx + msgLen then None
     else do {
       (ret, msg, iv, tag, ctx) \<leftarrow> securePkg_enc ds ctx (take msgLen (drop msgStartIdx buf))
         (take HEADER_LEN (drop (msgStartIdx - HEADER_LEN) buf)) (drop (msgStartIdx + msgLen) buf);
       Some (ret, take (msgStartIdx - HEADER_LEN) buf @ iv @ msg @ tag, ctx) })"

definition securePkg_dec :: "buf_dist \<Rightarrow> commsec_ctx \<Rightarrow> byte list \<Rightarrow> (u32 \<times> byte list \<times> commsec_ctx) option" where
  "securePkg_dec ds ctx pkg =
    (if length pkg < HEADER_LEN + TAG_LEN + 1 then Some (COMMSEC_FAIL_MSG_LENGTH_VIOLATES_ASSUMPTIONS, pkg, ctx)
     else
       let theirID = be_word pkg 0; theirCounter = be_word pkg 4 in
       if word_of_nat MAX_BASE_STATIONS \<le> theirID then Some (COMMSEC_FAIL_BAD_BASE_STATION, pkg, ctx)
       else if theirCounter \<le> mostRecentCounter ctx ! unat theirID then Some (COMMSEC_FAIL_DUP_CTR, pkg, ctx)
       else
         let iv = commsec_iv (decSalt ctx) theirID theirCounter;
             n = length pkg - HEADER_LEN - TAG_LEN
         in do {
           (gcmRet, msg, d) \<leftarrow> gcm_decrypt_message ds iv [] (take n (drop HEADER_LEN pkg)) (drop (length pkg - TAG_LEN) pkg) (decCtx ctx);
           let pkg = take HEADER_LEN pkg @ msg @ drop (length pkg - TAG_LEN) pkg;
           let ctx = ctx\<lparr>decCtx := d\<rparr>;
           Some (if gcmRet = RETURN_GOOD
             then (COMMSEC_SUCCEED, pkg, ctx\<lparr>mostRecentCounter := (mostRecentCounter ctx)[unat theirID := theirCounter]\<rparr>)
             else (COMMSEC_FAIL_GCM, pkg, ctx)) })"

text \<open>\<open>memset\<close> of a whole GCM context.\<close>

definition memset_gcm :: "byte \<Rightarrow> gcm_ctx" where
  "memset_gcm b = \<lparr>gf_t4k = replicate 256 (replicate 16 b), ctr_val = replicate 16 b, enc_ctr = replicate 16 b, hdr_ghv = replicate 16 b,
     txt_ghv = replicate 16 b, ghash_h = replicate 16 b, aes = \<lparr>ks = replicate KS_LENGTH (ui32_of b b b b), inf_b = [b, b, b, b]\<rparr>,
     y0_val = ui32_of b b b b, hdr_cnt = ui32_of b b b b, txt_ccnt = ui32_of b b b b, txt_acnt = ui32_of b b b b\<rparr>"

definition securePkg_zero :: "commsec_ctx \<Rightarrow> commsec_ctx" where
  "securePkg_zero ctx =
    (let ctx = ctx\<lparr>decCtx := snd (gcm_end (decCtx ctx))\<rparr>;
         ctx = ctx\<lparr>encCtx := snd (gcm_end (encCtx ctx))\<rparr>;
         ctx = ctx\<lparr>encSalt := 0, myId := 0, myCounter := UINT32_MAX, decSalt := 0\<rparr>;
         ctx = ctx\<lparr>mostRecentCounter := foldl (\<lambda>c i. c[i := UINT32_MAX]) (mostRecentCounter ctx) [0..<MAX_BASE_STATIONS]\<rparr>;
         ctx = ctx\<lparr>decCtx := memset_gcm 0xFF\<rparr>; ctx = ctx\<lparr>encCtx := memset_gcm 0xFF\<rparr>;
         ctx = ctx\<lparr>decCtx := memset_gcm 0x00\<rparr>; ctx = ctx\<lparr>encCtx := memset_gcm 0x00\<rparr>
     in ctx)"

definition securePkg_size_of_message :: "int \<Rightarrow> int" where
  "securePkg_size_of_message pkgLen = pkgLen - int TAG_LEN - int HEADER_LEN"

definition securePkg_size_of_package :: "int \<Rightarrow> int" where
  "securePkg_size_of_package msgLen = msgLen + int TAG_LEN + int HEADER_LEN"

subsection \<open>Counters and initial values\<close>

lemma be_bytes_rev: "be_bytes w = rev (ui32_bytes w)"
proof -
  have "ucast (x AND 0xFF) = (ucast x :: byte)" for x :: u32
    by (rule word_bits_eqI) (simp add: bit_simps upt_word_bits bit_beyond)
  then show ?thesis by (simp add: be_bytes_def ui32_bytes_def)
qed

lemma be_bytes_length [simp]: "length (be_bytes w) = 4"
  by (simp add: be_bytes_def)

lemma be_word_of: "be_word p i = ui32_of (p ! (i + 3)) (p ! (i + 2)) (p ! (i + 1)) (p ! i)"
  by (simp add: be_word_def word_add_bytes push_bit_eq_mult Let_def ac_simps)

lemma be_word_bytes:
  "be_word (be_bytes a @ be_bytes b @ p) 0 = a" "be_word (be_bytes a @ be_bytes b @ p) 4 = b"
  using ui32_of_bytes [of a] ui32_of_bytes [of b] by (simp_all add: be_word_of be_bytes_rev ui32_bytes_def numeral_eq_Suc)

lemma be_bytes_inj: "be_bytes a = be_bytes b \<longleftrightarrow> a = b"
  using be_word_bytes(1) [of a b "[]"] be_word_bytes(1) [of b b "[]"] by metis

lemma commsec_iv_length [simp]: "length (commsec_iv s i c) = 12"
  by (simp add: commsec_iv_def)

lemma commsec_iv_inj: "commsec_iv s i c = commsec_iv s' i' c' \<longleftrightarrow> s = s' \<and> i = i' \<and> c = c'"
  by (simp add: commsec_iv_def be_bytes_inj)

lemma commsec_iv_header: "take HEADER_LEN (drop 4 (commsec_iv s i c)) = be_bytes i @ be_bytes c"
  by (simp add: commsec_iv_def HEADER_LEN_def)

subsection \<open>Keyed contexts\<close>

definition commsec_ready :: "block \<Rightarrow> block \<Rightarrow> commsec_ctx \<Rightarrow> bool" where
  "commsec_ready ekey dkey ctx \<longleftrightarrow> gcm_ready ekey (encCtx ctx) \<and> gcm_ready dkey (decCtx ctx) \<and> length (mostRecentCounter ctx) = MAX_BASE_STATIONS"

lemma securePkg_init_ready:
  assumes "gcm_wf (encCtx ctx)" "gcm_wf (decCtx ctx)" "length (mostRecentCounter ctx) = MAX_BASE_STATIONS" "length dkey = 16" "length ekey = 16"
  shows "\<exists>ctx'. securePkg_init ctx sid dsalt dkey esalt ekey = Some (COMMSEC_SUCCEED, ctx') \<and> commsec_ready ekey dkey ctx' \<and>
    encSalt ctx' = esalt \<and> decSalt ctx' = dsalt \<and> myId ctx' = sid \<and> myCounter ctx' = 1 \<and>
    mostRecentCounter ctx' = replicate MAX_BASE_STATIONS 0"
proof -
  obtain d where d: "gcm_init_and_key dkey 16 (decCtx ctx) = Some (RETURN_GOOD, d)" "gcm_ready dkey d"
    using gcm_init_and_key_ready [OF assms(2,4)] by blast
  obtain e where e: "gcm_init_and_key ekey 16 (encCtx ctx) = Some (RETURN_GOOD, e)" "gcm_ready ekey e"
    using gcm_init_and_key_ready [OF assms(1,5)] by blast
  have "foldl (\<lambda>c i. c[i := 0]) (mostRecentCounter ctx) [0..<MAX_BASE_STATIONS] = replicate MAX_BASE_STATIONS 0"
    using assms(3) by (intro nth_equalityI) (simp_all add: foldl_update_nth)
  then show ?thesis using d e by (simp add: securePkg_init_def commsec_ready_def)
qed

lemma securePkg_enc_ready:
  assumes r: "commsec_ready ekey dkey ctx"
    and l: "length msg \<le> MAX_MESSAGE_LEN" "HEADER_LEN \<le> length ivs" "TAG_LEN \<le> length tag" "myCounter ctx \<noteq> UINT32_MAX"
  shows "\<exists>ctx'. securePkg_enc ds ctx msg ivs tag =
    Some (COMMSEC_SUCCEED, fst (GCM_AE (fips_cipher ekey) (commsec_iv (encSalt ctx) (myId ctx) (myCounter ctx)) msg [] TAG_LEN),
      be_bytes (myId ctx) @ be_bytes (myCounter ctx) @ drop HEADER_LEN ivs,
      snd (GCM_AE (fips_cipher ekey) (commsec_iv (encSalt ctx) (myId ctx) (myCounter ctx)) msg [] TAG_LEN) @ drop TAG_LEN tag,
      ctx') \<and> commsec_ready ekey dkey ctx' \<and> myCounter ctx' = myCounter ctx + 1 \<and> myId ctx' = myId ctx \<and> encSalt ctx' = encSalt ctx"
proof -
  let ?iv = "commsec_iv (encSalt ctx) (myId ctx) (myCounter ctx)"
  obtain e where e: "gcm_encrypt_message ds ?iv [] msg (take TAG_LEN tag) (encCtx ctx) =
      Some (RETURN_GOOD, fst (GCM_AE (fips_cipher ekey) ?iv msg [] TAG_LEN), snd (GCM_AE (fips_cipher ekey) ?iv msg [] TAG_LEN), e)"
      "gcm_ready ekey e"
    using gcm_encrypt_message_ready [of ekey "encCtx ctx" ?iv "[]" msg "take TAG_LEN tag" ds] r l
    by (auto simp: commsec_ready_def MAX_MESSAGE_LEN_def TAG_LEN_def)
  then show ?thesis using r l by (simp add: securePkg_enc_def not_less Let_def commsec_iv_header commsec_ready_def)
qed

lemma securePkg_dec_ready:
  assumes r: "commsec_ready ekey dkey ctx" and t: "length tag = TAG_LEN" and l: "0 < length c" "length c + 16 \<le> 2 ^ 32"
    and i: "unat sid < MAX_BASE_STATIONS" "mostRecentCounter ctx ! unat sid < ctr"
  defines "iv \<equiv> commsec_iv (decSalt ctx) sid ctr"
  shows "\<exists>d. gcm_ready dkey d \<and> securePkg_dec ds ctx (be_bytes sid @ be_bytes ctr @ c @ tag) =
    Some (let p = be_bytes sid @ be_bytes ctr @ GCTR (fips_cipher dkey) (inc32 (J0 (fips_cipher dkey) iv)) c @ tag in
      if GCM_AD (fips_cipher dkey) iv c [] tag = None then (COMMSEC_FAIL_GCM, p, ctx\<lparr>decCtx := d\<rparr>)
      else (COMMSEC_SUCCEED, p, ctx\<lparr>decCtx := d, mostRecentCounter := (mostRecentCounter ctx)[unat sid := ctr]\<rparr>))"
proof -
  obtain d where d: "gcm_decrypt_message ds iv [] c tag (decCtx ctx) =
      Some (if GCM_AD (fips_cipher dkey) iv c [] tag = None then RETURN_ERROR else RETURN_GOOD,
        GCTR (fips_cipher dkey) (inc32 (J0 (fips_cipher dkey) iv)) c, d)" "gcm_ready dkey d"
    using gcm_decrypt_message_ready [of dkey "decCtx ctx" iv "[]" c tag ds] r t l by (auto simp: commsec_ready_def iv_def TAG_LEN_def)
  have "\<not> word_of_nat MAX_BASE_STATIONS \<le> sid" using i(1) by (simp add: word_le_nat_alt MAX_BASE_STATIONS_def)
  moreover have "\<not> length (be_bytes sid @ be_bytes ctr @ c @ tag) < HEADER_LEN + TAG_LEN + 1"
    using l(1) t by (simp add: HEADER_LEN_def TAG_LEN_def)
  ultimately show ?thesis using d t i(2)
    by (auto simp: securePkg_dec_def be_word_bytes HEADER_LEN_def TAG_LEN_def iv_def [symmetric] Let_def RETURN_GOOD_def RETURN_ERROR_def)
qed

end
