(* ===== verification/Commsec_Channel.thy ===== *)
theory Commsec_Channel
  imports Commsec
begin

text \<open>
  What the secure packages promise over a whole session. \<open>chan_step\<close> is the contract: every
  package sent takes a new initial value, and a package is accepted from a station only
  with a counter above the last one accepted from it. The operations of \<open>commsec.c\<close>, called
  in any order and with any arguments, refine it.
\<close>

subsection \<open>The contract\<close>

datatype commsec_event = Sent "byte list" | Accepted u32 u32 | Refused u32

type_synonym chan = "u32 \<times> u32 \<times> u32 \<times> u32 list"

inductive chan_step :: "chan \<Rightarrow> commsec_event \<Rightarrow> chan \<Rightarrow> bool" where
  send: "n \<noteq> UINT32_MAX \<Longrightarrow> chan_step (s, i, n, m) (Sent (commsec_iv s i n)) (s, i, n + 1, m)"
| accept: "unat k < length m \<Longrightarrow> m ! unat k < ctr \<Longrightarrow> chan_step (s, i, n, m) (Accepted k ctr) (s, i, n, m[unat k := ctr])"
| refuse: "chan_step x (Refused r) x"

inductive_cases chan_stepE: "chan_step x e y"

inductive chan_run :: "chan \<Rightarrow> commsec_event list \<Rightarrow> chan \<Rightarrow> bool" for x where
  start: "chan_run x [] x"
| step: "chan_run x es y \<Longrightarrow> chan_step y e z \<Longrightarrow> chan_run x (es @ [e]) z"

fun sent :: "commsec_event list \<Rightarrow> byte list list" where
  "sent [] = []"
| "sent (Sent iv # es) = iv # sent es"
| "sent (e # es) = sent es"

fun accepted :: "commsec_event list \<Rightarrow> (u32 \<times> u32) list" where
  "accepted [] = []"
| "accepted (Accepted k ctr # es) = (k, ctr) # accepted es"
| "accepted (e # es) = accepted es"

lemma sent_append [simp]: "sent (es @ fs) = sent es @ sent fs"
  by (induction es rule: sent.induct) simp_all

lemma accepted_append [simp]: "accepted (es @ fs) = accepted es @ accepted fs"
  by (induction es rule: accepted.induct) simp_all

lemma unat_succ: "n \<noteq> UINT32_MAX \<Longrightarrow> unat (n + 1) = Suc (unat n)"
proof -
  assume "n \<noteq> UINT32_MAX"
  then have "n + 1 \<noteq> 0" using eq_neg_iff_add_eq_0 [of n 1] by (auto simp: UINT32_MAX_def)
  then show ?thesis using unatSuc [of n] by (simp only: add.commute [of n 1] not_False_eq_True simp_thms)
qed

lemma chan_run_sent:
  "chan_run (s, i, n0, m0) es y \<Longrightarrow> \<exists>n m. y = (s, i, n, m) \<and> unat n = unat n0 + length (sent es) \<and>
    (\<forall>iv\<in>set (sent es). \<exists>c. unat c < unat n \<and> iv = commsec_iv s i c) \<and> distinct (sent es)"
proof (induction rule: chan_run.induct)
  case (step es y e z)
  then obtain n m where y: "y = (s, i, n, m)" "unat n = unat n0 + length (sent es)" "distinct (sent es)"
      and iv: "\<forall>iv\<in>set (sent es). \<exists>c. unat c < unat n \<and> iv = commsec_iv s i c" by blast
  have new: "commsec_iv s i n \<notin> set (sent es)" using iv by (auto simp: commsec_iv_inj)
  from step(2) show ?case
  proof (cases rule: chan_step.cases)
    case send
    then show ?thesis using y iv new by (force simp: unat_succ less_Suc_eq)
  qed (use y iv in auto)
qed auto

lemma chan_run_accepted:
  "chan_run (s, i, n0, m0) es y \<Longrightarrow> \<exists>n m. y = (s, i, n, m) \<and> length m = length m0 \<and>
    (\<forall>k c. (k, c) \<in> set (accepted es) \<longrightarrow> unat k < length m \<and> c \<le> m ! unat k) \<and>
    sorted_wrt (\<lambda>(k, c) (k', c'). k = k' \<longrightarrow> c < c') (accepted es)"
proof (induction rule: chan_run.induct)
  case (step es y e z)
  then obtain n m where y: "y = (s, i, n, m)" "length m = length m0"
      and a: "\<And>k c. (k, c) \<in> set (accepted es) \<Longrightarrow> unat k < length m \<and> c \<le> m ! unat k"
      and w: "sorted_wrt (\<lambda>(k, c) (k', c'). k = k' \<longrightarrow> c < c') (accepted es)" by blast
  from step(2) show ?case
  proof (cases rule: chan_step.cases)
    case (accept k m' ctr)
    have m: "m' = m" using accept(1) y by simp
    have "c < ctr" if "(k, c) \<in> set (accepted es)" for c using a [OF that] accept(5) m le_less_trans [of c "m ! unat k" ctr] by simp
    moreover have "c \<le> m[unat k := ctr] ! unat k'" if "(k', c) \<in> set (accepted es)" for k' c
      using a [OF that] accept(5) m by (cases "unat k' = unat k") (auto simp: nth_list_update)
    ultimately show ?thesis using y a w accept m by (auto simp: sorted_wrt_append nth_list_update)
  qed (use y a w in auto)
qed auto

subsection \<open>The operations refine it\<close>

inductive commsec_step :: "commsec_ctx \<Rightarrow> commsec_event \<Rightarrow> commsec_ctx \<Rightarrow> bool" where
  enc: "securePkg_enc ds c msg ivs tag = Some (r, msg', ivs', tag', c') \<Longrightarrow>
    commsec_step c (if r = COMMSEC_SUCCEED \<or> r = COMMSEC_FAIL_GCM then Sent (commsec_iv (encSalt c) (myId c) (myCounter c)) else Refused r) c'"
| enc_in_place: "securePkg_enc_in_place ds c buf start len = Some (r, buf', c') \<Longrightarrow>
    commsec_step c (if r = COMMSEC_SUCCEED \<or> r = COMMSEC_FAIL_GCM then Sent (commsec_iv (encSalt c) (myId c) (myCounter c)) else Refused r) c'"
| dec: "securePkg_dec ds c pkg = Some (r, pkg', c') \<Longrightarrow>
    commsec_step c (if r = COMMSEC_SUCCEED then Accepted (be_word pkg 0) (be_word pkg 4) else Refused r) c'"

inductive commsec_run :: "commsec_ctx \<Rightarrow> commsec_event list \<Rightarrow> commsec_ctx \<Rightarrow> bool" for c0 where
  start: "commsec_run c0 [] c0"
| step: "commsec_run c0 es c \<Longrightarrow> commsec_step c e c' \<Longrightarrow> commsec_run c0 (es @ [e]) c'"

definition chan_of :: "commsec_ctx \<Rightarrow> chan" where
  "chan_of c = (encSalt c, myId c, myCounter c, mostRecentCounter c)"

lemmas commsec_results = COMMSEC_SUCCEED_def COMMSEC_FAIL_BAD_BASE_STATION_def COMMSEC_FAIL_DUP_CTR_def COMMSEC_FAIL_CTR_ROLLOVER_def
  COMMSEC_FAIL_BAD_INPUT_def COMMSEC_FAIL_MSG_LENGTH_VIOLATES_ASSUMPTIONS_def COMMSEC_FAIL_GCM_def

lemma securePkg_enc_step:
  assumes "securePkg_enc ds c msg ivs tag = Some (r, msg', ivs', tag', c')"
  shows "chan_step (chan_of c)
    (if r = COMMSEC_SUCCEED \<or> r = COMMSEC_FAIL_GCM then Sent (commsec_iv (encSalt c) (myId c) (myCounter c)) else Refused r) (chan_of c')"
  using assms send [of "myCounter c" "encSalt c" "myId c" "mostRecentCounter c"] refuse
  by (auto simp: securePkg_enc_def chan_of_def Let_def bind_eq_Some_conv commsec_results split: if_splits)

lemma securePkg_dec_step:
  assumes "securePkg_dec ds c pkg = Some (r, pkg', c')" "length (mostRecentCounter c) = MAX_BASE_STATIONS"
  shows "chan_step (chan_of c) (if r = COMMSEC_SUCCEED then Accepted (be_word pkg 0) (be_word pkg 4) else Refused r) (chan_of c')"
proof -
  have "unat (be_word pkg 0) < length (mostRecentCounter c)" if "\<not> word_of_nat MAX_BASE_STATIONS \<le> be_word pkg 0"
    using that assms(2) by (simp add: word_le_nat_alt MAX_BASE_STATIONS_def)
  then show ?thesis
    using assms(1) accept [of "be_word pkg 0" "mostRecentCounter c" "be_word pkg 4" "encSalt c" "myId c" "myCounter c"] refuse
    by (auto simp: securePkg_dec_def chan_of_def Let_def bind_eq_Some_conv commsec_results split: if_splits)
qed

lemma commsec_step_refines:
  "commsec_step c e c' \<Longrightarrow> length (mostRecentCounter c) = MAX_BASE_STATIONS \<Longrightarrow> chan_step (chan_of c) e (chan_of c')"
proof (induction rule: commsec_step.induct)
  case (enc_in_place ds c buf start len r buf' c')
  show ?case
  proof (cases "start < 8")
    case True
    then show ?thesis using enc_in_place refuse by (auto simp: securePkg_enc_in_place_def commsec_results)
  next
    case False
    then obtain m i t where "securePkg_enc ds c (take len (drop start buf)) (take HEADER_LEN (drop (start - HEADER_LEN) buf))
        (drop (start + len) buf) = Some (r, m, i, t, c')"
      using enc_in_place(1) by (auto simp: securePkg_enc_in_place_def bind_eq_Some_conv split: if_splits)
    then show ?thesis by (rule securePkg_enc_step)
  qed
qed (erule securePkg_enc_step | (erule securePkg_dec_step, assumption))+

lemma commsec_run_refines:
  "commsec_run c0 es c \<Longrightarrow> length (mostRecentCounter c0) = MAX_BASE_STATIONS \<Longrightarrow>
    chan_run (chan_of c0) es (chan_of c) \<and> length (mostRecentCounter c) = MAX_BASE_STATIONS"
proof (induction rule: commsec_run.induct)
  case (step es c e c')
  then have "chan_run (chan_of c0) (es @ [e]) (chan_of c')" using commsec_step_refines chan_run.step by blast
  then show ?case
    using chan_run_accepted [of "encSalt c0" "myId c0" "myCounter c0" "mostRecentCounter c0" "es @ [e]" "chan_of c'"] step(4)
    by (auto simp: chan_of_def)
qed (simp add: chan_run.start)

subsection \<open>Properties\<close>

definition zero_commsec :: commsec_ctx where
  "zero_commsec = \<lparr>encCtx = zero_gcm_ctx, encSalt = 0, myId = 0, myCounter = 0, decCtx = zero_gcm_ctx, decSalt = 0,
     mostRecentCounter = replicate 16 0\<rparr>"

lemma zero_commsec_simps [simp]:
  "gcm_wf (encCtx zero_commsec)" "gcm_wf (decCtx zero_commsec)" "length (mostRecentCounter zero_commsec) = MAX_BASE_STATIONS"
  by (simp_all add: zero_commsec_def MAX_BASE_STATIONS_def)

lemma package_delivered:
  assumes "commsec_ready key dkey s" "commsec_ready ekey key r" "decSalt r = encSalt s" "unat (myId s) < MAX_BASE_STATIONS"
    "mostRecentCounter r ! unat (myId s) < myCounter s" "myCounter s \<noteq> UINT32_MAX" "length msg \<le> MAX_MESSAGE_LEN"
    "length ivs = HEADER_LEN" "length tag = TAG_LEN"
  shows "\<exists>c h t s' r' ret p. securePkg_enc ds s msg ivs tag = Some (COMMSEC_SUCCEED, c, h, t, s') \<and> length c = length msg \<and>
    securePkg_dec ds' r (h @ c @ t) = Some (ret, p, r') \<and>
    (if msg = [] then ret = COMMSEC_FAIL_MSG_LENGTH_VIOLATES_ASSUMPTIONS \<and> r' = r
     else ret = COMMSEC_SUCCEED \<and> p = h @ msg @ t \<and> mostRecentCounter r' = (mostRecentCounter r)[unat (myId s) := myCounter s])"
proof -
  let ?iv = "commsec_iv (encSalt s) (myId s) (myCounter s)" and ?E = "fips_cipher key"
  define c where "c = GCTR ?E (inc32 (J0 ?E ?iv)) msg"
  define t where "t = gcm_tag ?E ?iv [] c TAG_LEN"
  have k: "length key = 16" using assms(1) by (auto simp: commsec_ready_def gcm_ready_def)
  have l: "length c = length msg" "length t = TAG_LEN"
    using k by (simp_all add: c_def GCTR_message J0_length t_def gcm_tag_eq TAG_LEN_def)
  have g: "GCTR ?E (inc32 (J0 ?E ?iv)) c = msg" by (simp add: c_def GCTR_message k J0_length stream_xor_twice)
  obtain s' where e: "securePkg_enc ds s msg ivs tag = Some (COMMSEC_SUCCEED, c, be_bytes (myId s) @ be_bytes (myCounter s), t, s')"
    using securePkg_enc_ready [OF assms(1), of msg ivs tag ds] assms(6-9) by (auto simp: GCM_AE_def Let_def c_def t_def)
  show ?thesis
  proof (cases "msg = []")
    case True
    then show ?thesis using e l by (simp add: securePkg_dec_def HEADER_LEN_def TAG_LEN_def)
  next
    case False
    then obtain d where "securePkg_dec ds' r (be_bytes (myId s) @ be_bytes (myCounter s) @ c @ t) =
        Some (COMMSEC_SUCCEED, be_bytes (myId s) @ be_bytes (myCounter s) @ msg @ t,
          r\<lparr>decCtx := d, mostRecentCounter := (mostRecentCounter r)[unat (myId s) := myCounter s]\<rparr>)"
      using securePkg_dec_ready [OF assms(2), of t c "myId s" "myCounter s" ds'] assms(3-7) l
      by (auto simp: GCM_AD_def g t_def [symmetric] MAX_MESSAGE_LEN_def)
    then show ?thesis using e l False by simp
  qed
qed

text \<open>
  C5. Delivery. Let a receiver have the sender's key and salt for decryption, and not have seen
  the sender's counter yet. Then a message of at most 512 bytes is encrypted successfully,
  and the package of header, ciphertext and tag is accepted by \<open>securePkg_dec\<close>, which leaves
  the message in place of the ciphertext and records the counter; only the package of an
  empty message is refused, for its length.
\<close>

theorem commsec_roundtrip:
  assumes "commsec_ready key dkey s" "commsec_ready ekey key r" "decSalt r = encSalt s" "unat (myId s) < MAX_BASE_STATIONS"
    "mostRecentCounter r ! unat (myId s) < myCounter s" "myCounter s \<noteq> UINT32_MAX" "length msg \<le> MAX_MESSAGE_LEN"
    "length ivs = HEADER_LEN" "length tag = TAG_LEN"
  shows "\<exists>c h t s' r' ret p. securePkg_enc ds s msg ivs tag = Some (COMMSEC_SUCCEED, c, h, t, s') \<and> length c = length msg \<and>
    securePkg_dec ds' r (h @ c @ t) = Some (ret, p, r') \<and>
    (if msg = [] then ret = COMMSEC_FAIL_MSG_LENGTH_VIOLATES_ASSUMPTIONS \<and> r' = r
     else ret = COMMSEC_SUCCEED \<and> p = h @ msg @ t \<and> mostRecentCounter r' = (mostRecentCounter r)[unat (myId s) := myCounter s])"
  by (rule package_delivered [OF assms])

theorem commsec_roundtrip_witness:
  "\<exists>s0 r0 c h t s' r' p. securePkg_init zero_commsec 3 11 (replicate 16 1) 22 (replicate 16 2) = Some (COMMSEC_SUCCEED, s0) \<and>
    securePkg_init zero_commsec 0 22 (replicate 16 2) 11 (replicate 16 1) = Some (COMMSEC_SUCCEED, r0) \<and>
    securePkg_enc \<lparr>hdr_dist = 0, enc_dist = 1, txt_dist = 2\<rparr> s0 [7, 8, 9] (replicate 8 0) (replicate 8 0) = Some (COMMSEC_SUCCEED, c, h, t, s') \<and>
    securePkg_dec \<lparr>hdr_dist = 0, enc_dist = 0, txt_dist = 0\<rparr> r0 (h @ c @ t) = Some (COMMSEC_SUCCEED, p, r') \<and> p = h @ [7, 8, 9] @ t"
proof -
  obtain s0 where s: "securePkg_init zero_commsec 3 11 (replicate 16 1) 22 (replicate 16 2) = Some (COMMSEC_SUCCEED, s0)"
      "commsec_ready (replicate 16 2) (replicate 16 1) s0" "encSalt s0 = 22" "myId s0 = 3" "myCounter s0 = 1"
    using securePkg_init_ready [of zero_commsec "replicate 16 1" "replicate 16 2" 3 11 22] by auto
  obtain r0 where r: "securePkg_init zero_commsec 0 22 (replicate 16 2) 11 (replicate 16 1) = Some (COMMSEC_SUCCEED, r0)"
      "commsec_ready (replicate 16 1) (replicate 16 2) r0" "decSalt r0 = 22" "mostRecentCounter r0 = replicate MAX_BASE_STATIONS 0"
    using securePkg_init_ready [of zero_commsec "replicate 16 2" "replicate 16 1" 0 22 11] by auto
  show ?thesis
    using commsec_roundtrip [OF s(2) r(2), of "[7, 8, 9]" "replicate 8 0" "replicate 8 0" "\<lparr>hdr_dist = 0, enc_dist = 1, txt_dist = 2\<rparr>"
      "\<lparr>hdr_dist = 0, enc_dist = 0, txt_dist = 0\<rparr>"] s r
    by (auto simp: MAX_BASE_STATIONS_def UINT32_MAX_def MAX_MESSAGE_LEN_def HEADER_LEN_def TAG_LEN_def)
qed

text \<open>Two packages sent in a row, and one accepted, by a freshly keyed context.\<close>

lemma two_sends:
  assumes "commsec_ready ekey dkey c0" "myCounter c0 = 1"
  shows "\<exists>es c. commsec_run c0 es c \<and> length (sent es) = 2"
proof -
  let ?ds = "\<lparr>hdr_dist = 0, enc_dist = 0, txt_dist = 0\<rparr>"
  obtain m1 h1 t1 c1 where 1: "securePkg_enc ?ds c0 [1] (replicate 8 0) (replicate 8 0) = Some (COMMSEC_SUCCEED, m1, h1, t1, c1)"
      "commsec_ready ekey dkey c1" "myCounter c1 = 2"
    using securePkg_enc_ready [OF assms(1), of "[1]" "replicate 8 0" "replicate 8 0" ?ds] assms(2)
    by (auto simp: MAX_MESSAGE_LEN_def HEADER_LEN_def TAG_LEN_def UINT32_MAX_def)
  obtain m2 h2 t2 c2 where 2: "securePkg_enc ?ds c1 [1] (replicate 8 0) (replicate 8 0) = Some (COMMSEC_SUCCEED, m2, h2, t2, c2)"
    using securePkg_enc_ready [OF 1(2), of "[1]" "replicate 8 0" "replicate 8 0" ?ds] 1(3)
    by (auto simp: MAX_MESSAGE_LEN_def HEADER_LEN_def TAG_LEN_def UINT32_MAX_def)
  show ?thesis
    using commsec_run.step [OF commsec_run.step [OF commsec_run.start commsec_step.enc [OF 1(1)]] commsec_step.enc [OF 2]] by fastforce
qed

lemma one_accept:
  assumes "commsec_ready ekey dkey c0" "mostRecentCounter c0 = replicate MAX_BASE_STATIONS 0"
  shows "\<exists>pkg c. commsec_run c0 [Accepted 3 1] c \<and> be_word pkg 0 = 3 \<and> be_word pkg 4 = 1 \<and>
    (\<exists>ds ret p c'. securePkg_dec ds c pkg = Some (ret, p, c'))"
proof -
  let ?ds = "\<lparr>hdr_dist = 0, enc_dist = 0, txt_dist = 0\<rparr>" and ?iv = "commsec_iv (decSalt c0) 3 1"
  define t where "t = gcm_tag (fips_cipher dkey) ?iv [] [5] TAG_LEN"
  define pkg where "pkg = be_bytes 3 @ be_bytes 1 @ [5] @ t"
  have k: "length dkey = 16" using assms(1) by (auto simp: commsec_ready_def gcm_ready_def)
  have l: "length t = TAG_LEN" using k by (simp add: t_def gcm_tag_eq TAG_LEN_def J0_length)
  have i: "be_word pkg 0 = 3" "be_word pkg 4 = 1" by (simp_all only: pkg_def be_word_bytes)
  obtain p d where d: "securePkg_dec ?ds c0 pkg =
      Some (COMMSEC_SUCCEED, p, c0\<lparr>decCtx := d, mostRecentCounter := (mostRecentCounter c0)[3 := 1]\<rparr>)"
    using securePkg_dec_ready [OF assms(1) l, of "[5]" 3 1 ?ds] assms(2) l
    by (auto simp: GCM_AD_def t_def [symmetric] Let_def MAX_BASE_STATIONS_def pkg_def)
  let ?c = "c0\<lparr>decCtx := d, mostRecentCounter := (mostRecentCounter c0)[3 := 1]\<rparr>"
  have "commsec_run c0 [Accepted 3 1] ?c"
    using commsec_run.step [OF commsec_run.start commsec_step.dec [OF d]] i by simp
  moreover have "\<not> word_of_nat MAX_BASE_STATIONS \<le> (3 :: u32)" by (simp add: MAX_BASE_STATIONS_def)
  then have "securePkg_dec ?ds ?c pkg = Some (COMMSEC_FAIL_DUP_CTR, pkg, ?c)"
    using i assms(2) l by (simp add: securePkg_dec_def Let_def MAX_BASE_STATIONS_def HEADER_LEN_def TAG_LEN_def pkg_def)
  ultimately show ?thesis using i by blast
qed



text \<open>
  C6. No replay. In every session the counters accepted from a station strictly increase, and a
  package whose header has been accepted before is refused.
\<close>

theorem commsec_no_replay:
  assumes "commsec_run c0 es c" "length (mostRecentCounter c0) = MAX_BASE_STATIONS"
  shows "sorted_wrt (\<lambda>(k, n) (k', n'). k = k' \<longrightarrow> n < n') (accepted es) \<and>
    (\<forall>ds pkg r pkg' c'. (be_word pkg 0, be_word pkg 4) \<in> set (accepted es) \<and> securePkg_dec ds c pkg = Some (r, pkg', c') \<longrightarrow>
      r \<noteq> COMMSEC_SUCCEED)"
proof -
  have s: "sorted_wrt (\<lambda>(k, n) (k', n'). k = k' \<longrightarrow> n < n') (accepted es)" if "commsec_run c0 es c" for es c
    using chan_run_accepted [of "encSalt c0" "myId c0" "myCounter c0" "mostRecentCounter c0" es "chan_of c"]
      commsec_run_refines [OF that assms(2)] by (auto simp: chan_of_def)
  have "r \<noteq> COMMSEC_SUCCEED" if "(be_word pkg 0, be_word pkg 4) \<in> set (accepted es)" "securePkg_dec ds c pkg = Some (r, pkg', c')"
    for ds pkg r pkg' c'
  proof
    assume "r = COMMSEC_SUCCEED"
    then have "commsec_step c (Accepted (be_word pkg 0) (be_word pkg 4)) c'" using commsec_step.dec [OF that(2)] by simp
    then have "commsec_run c0 (es @ [Accepted (be_word pkg 0) (be_word pkg 4)]) c'" using assms(1) commsec_run.step by blast
    then show False using s that(1) by (fastforce simp: sorted_wrt_append)
  qed
  then show ?thesis using s [OF assms(1)] by blast
qed

theorem commsec_no_replay_witness:
  "\<exists>c0 c pkg ds ret p c'. securePkg_init zero_commsec 0 22 (replicate 16 2) 11 (replicate 16 1) = Some (COMMSEC_SUCCEED, c0) \<and>
    commsec_run c0 [Accepted 3 1] c \<and> be_word pkg 0 = 3 \<and> be_word pkg 4 = 1 \<and> securePkg_dec ds c pkg = Some (ret, p, c') \<and>
    ret \<noteq> COMMSEC_SUCCEED"
proof -
  obtain c0 where s: "securePkg_init zero_commsec 0 22 (replicate 16 2) 11 (replicate 16 1) = Some (COMMSEC_SUCCEED, c0)"
      "commsec_ready (replicate 16 1) (replicate 16 2) c0" "mostRecentCounter c0 = replicate MAX_BASE_STATIONS 0"
    using securePkg_init_ready [of zero_commsec "replicate 16 2" "replicate 16 1" 0 22 11] by auto
  obtain pkg c ds ret p c' where r: "commsec_run c0 [Accepted 3 1] c" "be_word pkg 0 = 3" "be_word pkg 4 = 1"
      "securePkg_dec ds c pkg = Some (ret, p, c')"
    using one_accept [OF s(2,3)] by blast
  have "length (mostRecentCounter c0) = MAX_BASE_STATIONS" using s(3) by simp
  then have "ret \<noteq> COMMSEC_SUCCEED" using commsec_no_replay [OF r(1)] r(2-4) by fastforce
  then show ?thesis using s(1) r by blast
qed

text \<open>
  C28. Clearing. After \<open>securePkg_zero\<close> both GCM contexts are zero, and in any later session nothing
  is encrypted and no package accepted.
\<close>

theorem commsec_zeroed:
  assumes "length (mostRecentCounter c0) = MAX_BASE_STATIONS" "commsec_run (securePkg_zero c0) es c"
  shows "encCtx (securePkg_zero c0) = zero_gcm_ctx \<and> decCtx (securePkg_zero c0) = zero_gcm_ctx \<and> sent es = [] \<and> accepted es = []"
proof -
  have z: "ui32_of 0 0 0 0 = 0" by (simp add: ui32_of_def)
  have f: "foldl (\<lambda>c i. c[i := UINT32_MAX]) (mostRecentCounter c0) [0..<MAX_BASE_STATIONS] = replicate MAX_BASE_STATIONS UINT32_MAX"
    using assms(1) by (intro nth_equalityI) (simp_all add: foldl_update_nth)
  have m: "memset_gcm 0 = zero_gcm_ctx" by (simp add: memset_gcm_def zero_gcm_ctx_def z zero_block_rep)
  have c: "chan_of (securePkg_zero c0) = (0, 0, UINT32_MAX, replicate MAX_BASE_STATIONS UINT32_MAX)"
    by (simp add: chan_of_def securePkg_zero_def f)
  have top: "\<not> UINT32_MAX < x" for x by (simp add: UINT32_MAX_def not_less word_le_nat_alt) (use unsigned_less [of x, where ?'a = nat] in simp)
  have "chan_run (chan_of (securePkg_zero c0)) es (chan_of c)"
    using commsec_run_refines [OF assms(2)] c by (simp add: chan_of_def)
  then have "sent es = [] \<and> accepted es = [] \<and> chan_of c = chan_of (securePkg_zero c0)"
    unfolding c by (induction rule: chan_run.induct) (auto elim!: chan_stepE simp: top)
  then show ?thesis by (simp add: securePkg_zero_def m)
qed

theorem commsec_zeroed_witness:
  "\<exists>c. commsec_run (securePkg_zero zero_commsec) [Refused COMMSEC_FAIL_CTR_ROLLOVER] c \<and>
    encCtx (securePkg_zero zero_commsec) = zero_gcm_ctx \<and> sent [Refused COMMSEC_FAIL_CTR_ROLLOVER] = []"
proof -
  let ?z = "securePkg_zero zero_commsec" and ?ds = "\<lparr>hdr_dist = 0, enc_dist = 0, txt_dist = 0\<rparr>"
  have "securePkg_enc ?ds ?z [1] [] [] = Some (COMMSEC_FAIL_CTR_ROLLOVER, [1], [], [], ?z)"
    by (simp add: securePkg_enc_def securePkg_zero_def MAX_MESSAGE_LEN_def)
  from commsec_run.step [OF commsec_run.start commsec_step.enc [OF this]]
  have r: "commsec_run ?z [Refused COMMSEC_FAIL_CTR_ROLLOVER] ?z" by (simp add: commsec_results)
  show ?thesis using commsec_zeroed [OF _ r] r by auto
qed

end
