(* ===== verification/Pilot.thy ===== *)
theory Pilot
  imports Commsec_Channel
begin

text \<open>
  The pilot of \<open>odroid_vm\<close>, \<open>components/pilot/src/pilot.c\<close>: it collects the bytes of the ground station
  and of the flight controller in two shared buffers, hands them over in portions of
  twenty bytes, and holds the check of encrypted packets. The interfaces it calls are
  outputs, in the order of the calls; an output of a UART write carries what the shared
  buffer holds at the call. The sizes of the shared buffers and \<open>malloc\<close> are arguments.
\<close>

subsection \<open>State\<close>

definition MAVLINK_LEN :: int where "MAVLINK_LEN = 80"
definition COMMSEC_PAYLOAD_LEN :: int where "COMMSEC_PAYLOAD_LEN = securePkg_size_of_package 80"
definition MAX_ERR :: u32 where "MAX_ERR = 20"
definition CHK_BUF_SIZE :: nat where "CHK_BUF_SIZE = 256"
definition TRIGGER_LVL :: u32 where "TRIGGER_LVL = 20"

definition base_to_uav_key :: "byte list" where
  "base_to_uav_key = [15, 14, 13, 12, 11, 10, 9, 8, 7, 6, 5, 4, 3, 2, 1, 0]"
definition uav_to_base_key :: "byte list" where
  "uav_to_base_key = [0, 1, 2, 3, 4, 5, 6, 7, 8, 9, 10, 11, 12, 13, 14, 15]"
definition b2uSalt :: u32 where "b2uSalt = 9219834"
definition u2bSalt :: u32 where "u2bSalt = 284920"

record packet =
  pkt_data :: "byte list"
  pkt_len :: u32

record pilot =
  decrypt_state :: commsec_ctx
  pkt_gcs :: packet
  pkt_px4 :: packet
  check_buf :: packet
  err_cnt :: u32

datatype pilot_output =
    Uart_px4_write int u32 "byte list"
  | Uart_gcs_write int u32 "byte list"
  | Signal_emit
  | Restart_vm_emit

subsection \<open>Operations\<close>

definition init_decrypt :: "pilot \<Rightarrow> pilot option" where
  "init_decrypt s = do {
     (_, ctx) \<leftarrow> securePkg_init (decrypt_state s) 0 b2uSalt base_to_uav_key u2bSalt uav_to_base_key;
     Some (s\<lparr>decrypt_state := ctx\<rparr>) }"

definition try_decrypt :: "buf_dist \<Rightarrow> byte list \<Rightarrow> int \<Rightarrow> pilot \<Rightarrow> (int \<times> pilot) option" where
  "try_decrypt ds buf msgsize s =
    (if msgsize < 2 + COMMSEC_PAYLOAD_LEN then Some (0, s)
     else if int (length buf) < 2 + COMMSEC_PAYLOAD_LEN then None
     else if buf ! 0 \<noteq> 0x7e then Some (0, s)
     else if buf ! 1 \<noteq> 0 then Some (0, s)
     else do {
       (ret, _, ctx) \<leftarrow> securePkg_dec ds (decrypt_state s) (take (nat COMMSEC_PAYLOAD_LEN) (drop 2 buf));
       let s = s\<lparr>decrypt_state := ctx\<rparr>;
       Some (if ret \<noteq> 0 then 0 else 1, s) })"

definition pilot_pre_init :: "byte list \<Rightarrow> byte list \<Rightarrow> (nat \<Rightarrow> byte list option) \<Rightarrow> pilot \<Rightarrow> pilot option" where
  "pilot_pre_init gcs_buf px4_buf malloc s = do {
     let s = s\<lparr>pkt_gcs := \<lparr>pkt_data = gcs_buf, pkt_len = 0\<rparr>\<rparr>;
     let s = s\<lparr>pkt_px4 := \<lparr>pkt_data = px4_buf, pkt_len = 0\<rparr>\<rparr>;
     d \<leftarrow> malloc CHK_BUF_SIZE;
     let s = s\<lparr>check_buf := \<lparr>pkt_data = d, pkt_len = 0\<rparr>\<rparr>;
     init_decrypt s }"

text \<open>\<open>pkt->data[pkt->len++] = c\<close>; outside the buffer it has no result.\<close>

definition pkt_append :: "packet \<Rightarrow> byte \<Rightarrow> packet option" where
  "pkt_append pkt c =
    (if unat (pkt_len pkt) < length (pkt_data pkt)
     then Some (pkt\<lparr>pkt_data := (pkt_data pkt)[unat (pkt_len pkt) := c], pkt_len := pkt_len pkt + 1\<rparr>) else None)"

definition check_packet :: "buf_dist \<Rightarrow> packet \<Rightarrow> byte \<Rightarrow> pilot \<Rightarrow> (packet \<times> pilot) option" where
  "check_packet ds pkt c s = do {
     pkt \<leftarrow> pkt_append pkt c;
     if c = 0x7e \<and> 1 < pkt_len pkt
     then do {
       (ret, s) \<leftarrow> try_decrypt ds (pkt_data pkt) (sint (pkt_len pkt)) s;
       let s = (if ret \<noteq> 0 then s else s\<lparr>err_cnt := err_cnt s + 1\<rparr>);
       Some (pkt\<lparr>pkt_len := 0\<rparr>, s) }
     else Some (pkt, s) }"

definition mavlink_recv :: "int \<Rightarrow> int \<Rightarrow> pilot \<Rightarrow> (pilot \<times> pilot_output list) option" where
  "mavlink_recv uart_num c s = do {
     (pkt, func, upd) \<leftarrow>
       (if uart_num = 1 then Some (pkt_px4 s, Uart_px4_write, \<lambda>p s. s\<lparr>pkt_px4 := p\<rparr>)
        else if uart_num = 3 then Some (pkt_gcs s, Uart_gcs_write, \<lambda>p s. s\<lparr>pkt_gcs := p\<rparr>)
        else None);
     pkt \<leftarrow> pkt_append pkt (word_of_int c);
     let (pkt, os) =
       (if pkt_len pkt = TRIGGER_LVL then (pkt\<lparr>pkt_len := 0\<rparr>, [func 0 (pkt_len pkt) (pkt_data pkt), Signal_emit]) else (pkt, []));
     let s = upd pkt s;
     let s = s\<lparr>err_cnt := err_cnt s + 1\<rparr>;
     Some (if MAX_ERR < err_cnt s then (s\<lparr>err_cnt := 0\<rparr>, os @ [Restart_vm_emit]) else (s, os)) }"

text \<open>A sequence of calls of \<open>mavlink_recv\<close>.\<close>

fun mavlink_calls :: "(int \<times> int) list \<Rightarrow> pilot \<Rightarrow> (pilot \<times> pilot_output list) option" where
  "mavlink_calls [] s = Some (s, [])"
| "mavlink_calls ((u, c) # es) s = do {
     (s, os) \<leftarrow> mavlink_recv u c s;
     (s, os') \<leftarrow> mavlink_calls es s;
     Some (s, os @ os') }"

subsection \<open>The bytes of a link\<close>

text \<open>The bytes the UARTs read from the shared buffers, and the bytes received on a link.\<close>

fun px4_sent :: "pilot_output list \<Rightarrow> byte list" where
  "px4_sent [] = []"
| "px4_sent (Uart_px4_write i n d # os) = take (unat n) (drop (nat i) d) @ px4_sent os"
| "px4_sent (_ # os) = px4_sent os"

fun gcs_sent :: "pilot_output list \<Rightarrow> byte list" where
  "gcs_sent [] = []"
| "gcs_sent (Uart_gcs_write i n d # os) = take (unat n) (drop (nat i) d) @ gcs_sent os"
| "gcs_sent (_ # os) = gcs_sent os"

definition received :: "int \<Rightarrow> (int \<times> int) list \<Rightarrow> byte list" where
  "received u es = map (word_of_int \<circ> snd) (filter (\<lambda>e. fst e = u) es)"

definition pending :: "packet \<Rightarrow> byte list" where
  "pending pkt = take (unat (pkt_len pkt)) (pkt_data pkt)"

definition pkt_ok :: "packet \<Rightarrow> bool" where
  "pkt_ok pkt \<longleftrightarrow> unat (pkt_len pkt) < 20 \<and> 20 \<le> length (pkt_data pkt)"

definition pilot_ok :: "pilot \<Rightarrow> bool" where
  "pilot_ok s \<longleftrightarrow> pkt_ok (pkt_px4 s) \<and> pkt_ok (pkt_gcs s) \<and> unat (err_cnt s) \<le> 20"

lemma px4_sent_append [simp]: "px4_sent (os @ os') = px4_sent os @ px4_sent os'"
  by (induction os rule: px4_sent.induct) simp_all

lemma gcs_sent_append [simp]: "gcs_sent (os @ os') = gcs_sent os @ gcs_sent os'"
  by (induction os rule: gcs_sent.induct) simp_all

lemma received_Nil [simp]: "received u [] = []"
  by (simp add: received_def)

lemma received_Cons [simp]: "received u ((v, c) # es) = (if u = v then [word_of_int c] else []) @ received u es"
  by (simp add: received_def)

text \<open>What one byte does to a packet: it is appended, and a full packet is handed over.\<close>

lemma pkt_append_room:
  assumes "unat (pkt_len p) < 256" "unat (pkt_len p) < length (pkt_data p)"
  obtains q where "pkt_append p c = Some q" "pending q = pending p @ [c]" "unat (pkt_len q) = Suc (unat (pkt_len p))"
    "length (pkt_data q) = length (pkt_data p)"
proof
  let ?q = "p\<lparr>pkt_data := (pkt_data p)[unat (pkt_len p) := c], pkt_len := pkt_len p + 1\<rparr>"
  note l = assms
  show "pkt_append p c = Some ?q" using l by (simp add: pkt_append_def)
  show u: "unat (pkt_len ?q) = Suc (unat (pkt_len p))"
    using l unat_succ [of "pkt_len p"] by (cases "pkt_len p = UINT32_MAX") (simp_all add: UINT32_MAX_def)
  show "pending ?q = pending p @ [c]" using l u by (simp add: pending_def take_Suc_conv_app_nth take_update_swap list_update_append)
  show "length (pkt_data ?q) = length (pkt_data p)" by simp
qed

lemma trigger_lvl: "w = TRIGGER_LVL \<longleftrightarrow> unat w = 20"
  by (simp add: TRIGGER_LVL_def word_unat_eq_iff)

lemma link_step:
  assumes "pkt_ok p"
  obtains q where "pkt_append p c = Some q"
    "pkt_len q = TRIGGER_LVL \<Longrightarrow> take 20 (pkt_data q) = pending p @ [c] \<and> pkt_ok (q\<lparr>pkt_len := 0\<rparr>) \<and> length (pending p) = 19"
    "pkt_len q \<noteq> TRIGGER_LVL \<Longrightarrow> pending q = pending p @ [c] \<and> pkt_ok q"
proof -
  obtain q where q: "pkt_append p c = Some q" "pending q = pending p @ [c]" "unat (pkt_len q) = Suc (unat (pkt_len p))"
    "length (pkt_data q) = length (pkt_data p)" using pkt_append_room [of p] assms by (auto simp: pkt_ok_def)
  show ?thesis
    by (rule that [OF q(1)]) (use q assms in \<open>auto simp: trigger_lvl pkt_ok_def pending_def\<close>)
qed

lemma pending_empty [simp]: "pending (p\<lparr>pkt_len := 0\<rparr>) = []"
  by (simp add: pending_def)

lemma err_cnt_step:
  assumes "unat (e :: u32) \<le> 20"
  shows "MAX_ERR < e + 1 \<longleftrightarrow> unat e = 20" "unat (e + 1) = Suc (unat e)"
proof -
  show u: "unat (e + 1) = Suc (unat e)" using assms unat_succ [of e] by (cases "e = UINT32_MAX") (simp_all add: UINT32_MAX_def)
  show "MAX_ERR < e + 1 \<longleftrightarrow> unat e = 20" using assms u by (auto simp: MAX_ERR_def word_less_nat_alt)
qed

text \<open>One call: what it hands over and keeps, how often it signals and restarts.\<close>

definition recv_effect :: "(int \<times> int) list \<Rightarrow> pilot \<Rightarrow> pilot \<Rightarrow> pilot_output list \<Rightarrow> bool" where
  "recv_effect es s s' os \<longleftrightarrow> pilot_ok s' \<and>
    px4_sent os @ pending (pkt_px4 s') = pending (pkt_px4 s) @ received 1 es \<and>
    gcs_sent os @ pending (pkt_gcs s') = pending (pkt_gcs s) @ received 3 es \<and>
    length (px4_sent os) mod 20 = 0 \<and> length (gcs_sent os) mod 20 = 0 \<and>
    20 * count_list os Signal_emit = length (px4_sent os) + length (gcs_sent os) \<and>
    21 * count_list os Restart_vm_emit + unat (err_cnt s') = unat (err_cnt s) + length es"

lemma mavlink_recv_ok:
  assumes "pilot_ok s" "u = 1 \<or> u = 3"
  shows "\<exists>s' os. mavlink_recv u c s = Some (s', os) \<and> recv_effect [(u, c)] s s' os"
proof (cases "u = 1")
  case True
  obtain q where "pkt_append (pkt_px4 s) (word_of_int c) = Some q"
    "pkt_len q = TRIGGER_LVL \<Longrightarrow> take 20 (pkt_data q) = pending (pkt_px4 s) @ [word_of_int c] \<and> pkt_ok (q\<lparr>pkt_len := 0\<rparr>) \<and>
      length (pending (pkt_px4 s)) = 19"
    "pkt_len q \<noteq> TRIGGER_LVL \<Longrightarrow> pending q = pending (pkt_px4 s) @ [word_of_int c] \<and> pkt_ok q"
    using assms(1) link_step [of "pkt_px4 s"] by (auto simp: pilot_ok_def)
  then show ?thesis using True assms(1) err_cnt_step [of "err_cnt s"]
    by (cases "pkt_len q = TRIGGER_LVL") (auto simp: mavlink_recv_def recv_effect_def pilot_ok_def TRIGGER_LVL_def)
next
  case False
  then have u: "u = 3" using assms(2) by simp
  obtain q where "pkt_append (pkt_gcs s) (word_of_int c) = Some q"
    "pkt_len q = TRIGGER_LVL \<Longrightarrow> take 20 (pkt_data q) = pending (pkt_gcs s) @ [word_of_int c] \<and> pkt_ok (q\<lparr>pkt_len := 0\<rparr>) \<and>
      length (pending (pkt_gcs s)) = 19"
    "pkt_len q \<noteq> TRIGGER_LVL \<Longrightarrow> pending q = pending (pkt_gcs s) @ [word_of_int c] \<and> pkt_ok q"
    using assms(1) link_step [of "pkt_gcs s"] by (auto simp: pilot_ok_def)
  then show ?thesis using u assms(1) err_cnt_step [of "err_cnt s"]
    by (cases "pkt_len q = TRIGGER_LVL") (auto simp: mavlink_recv_def recv_effect_def pilot_ok_def TRIGGER_LVL_def)
qed

lemma recv_effect_trans:
  assumes "recv_effect es s s1 os" "recv_effect es' s1 s2 os'"
  shows "recv_effect (es @ es') s s2 (os @ os')"
proof -
  have r: "received u (es @ es') = received u es @ received u es'" for u by (simp add: received_def)
  show ?thesis using assms unfolding recv_effect_def
    by (simp add: r mod_add_eq [of _ 20, symmetric] flip: append_assoc) (simp add: append_assoc)
qed

lemma mavlink_calls_ok:
  "pilot_ok s \<Longrightarrow> \<forall>(u, c) \<in> set es. u = 1 \<or> u = 3 \<Longrightarrow> \<exists>s' os. mavlink_calls es s = Some (s', os) \<and> recv_effect es s s' os"
proof (induction es arbitrary: s)
  case Nil
  then show ?case by (simp add: recv_effect_def)
next
  case (Cons e es)
  obtain u c where e: "e = (u, c)" by (cases e)
  then obtain s1 os where 1: "mavlink_recv u c s = Some (s1, os)" "recv_effect [(u, c)] s s1 os"
    using Cons.prems mavlink_recv_ok [of s u c] by auto
  moreover have "pilot_ok s1" using 1(2) by (simp add: recv_effect_def)
  then obtain s2 os' where "mavlink_calls es s1 = Some (s2, os')" "recv_effect es s1 s2 os'"
    using Cons.IH [of s1] Cons.prems(2) by auto
  ultimately show ?case using recv_effect_trans [of "[(u, c)]" s s1 os es s2 os'] by (simp add: e)
qed

text \<open>Whole portions are handed over and fewer than twenty bytes wait.\<close>

lemma quotient: "(d :: nat) * q + r = n \<Longrightarrow> r < d \<Longrightarrow> n div d = q"
  by (rule div_nat_eqI) auto

lemma portions:
  assumes "xs @ ys = (zs :: 'a list)" "length xs mod 20 = 0" "length ys < 20"
  shows "xs = take (20 * (length zs div 20)) zs" "ys = drop (20 * (length zs div 20)) zs"
proof -
  have x: "length xs = 20 * (length xs div 20)" using assms(2) by auto
  moreover have "length zs = length xs + length ys" using assms(1) by auto
  ultimately have "length zs div 20 = length xs div 20" using assms(3) by (intro quotient [of _ _ "length ys"]) auto
  then have "20 * (length zs div 20) = length xs" using x by simp
  then show "xs = take (20 * (length zs div 20)) zs" "ys = drop (20 * (length zs div 20)) zs" using assms(1) by auto
qed

lemma pilot_pre_init_ok:
  assumes "gcm_wf (encCtx (decrypt_state s0))" "gcm_wf (decCtx (decrypt_state s0))"
    "length (mostRecentCounter (decrypt_state s0)) = MAX_BASE_STATIONS" "malloc CHK_BUF_SIZE = Some d"
  obtains s where "pilot_pre_init gcs_buf px4_buf malloc s0 = Some s" "pkt_gcs s = \<lparr>pkt_data = gcs_buf, pkt_len = 0\<rparr>"
    "pkt_px4 s = \<lparr>pkt_data = px4_buf, pkt_len = 0\<rparr>" "check_buf s = \<lparr>pkt_data = d, pkt_len = 0\<rparr>" "err_cnt s = err_cnt s0"
    "commsec_ready uav_to_base_key base_to_uav_key (decrypt_state s)" "decSalt (decrypt_state s) = b2uSalt"
    "mostRecentCounter (decrypt_state s) = replicate MAX_BASE_STATIONS 0"
proof -
  have "length base_to_uav_key = 16" "length uav_to_base_key = 16" by (simp_all add: base_to_uav_key_def uav_to_base_key_def)
  then obtain ctx where "securePkg_init (decrypt_state s0) 0 b2uSalt base_to_uav_key u2bSalt uav_to_base_key = Some (COMMSEC_SUCCEED, ctx)"
    "commsec_ready uav_to_base_key base_to_uav_key ctx" "decSalt ctx = b2uSalt" "mostRecentCounter ctx = replicate MAX_BASE_STATIONS 0"
    using securePkg_init_ready [OF assms(1-3)] by blast
  then show ?thesis using assms(4) that by (simp add: pilot_pre_init_def init_decrypt_def)
qed

text \<open>A state before initialisation.\<close>

definition pilot0 :: pilot where
  "pilot0 = \<lparr>decrypt_state = zero_commsec, pkt_gcs = \<lparr>pkt_data = [], pkt_len = 0\<rparr>, pkt_px4 = \<lparr>pkt_data = [], pkt_len = 0\<rparr>,
     check_buf = \<lparr>pkt_data = [], pkt_len = 0\<rparr>, err_cnt = 0\<rparr>"

lemma pilot0_init:
  "\<exists>s. pilot_pre_init (replicate 4096 0) (replicate 4096 0) (\<lambda>n. Some (replicate n 0)) pilot0 = Some s"
  by (rule pilot_pre_init_ok [of pilot0 "\<lambda>n. Some (replicate n 0)" "replicate CHK_BUF_SIZE 0" "replicate 4096 0" "replicate 4096 0"])
    (auto simp: pilot0_def)

text \<open>
  C10. Forwarding. After initialisation with shared buffers of at least twenty bytes, any
  sequence of bytes received on links 1 and 3, interleaved in any way, returns. The flight
  controller gets exactly the bytes of link 1 and the ground station exactly those of link
  3, in their order and in portions of twenty; the remaining bytes of each link are kept
  in its buffer. The status signal is raised once for each portion, and the virtual machine
  is restarted at every 21st byte received.
\<close>

theorem pilot_forwards:
  assumes "pilot_pre_init gcs_buf px4_buf malloc s0 = Some s" "err_cnt s0 = 0" "20 \<le> length gcs_buf" "20 \<le> length px4_buf"
    "\<forall>(u, c) \<in> set es. u = 1 \<or> u = 3"
  shows "\<exists>s' os. mavlink_calls es s = Some (s', os) \<and>
    (let n1 = length (received 1 es) div 20; n3 = length (received 3 es) div 20 in
     px4_sent os = take (20 * n1) (received 1 es) \<and> pending (pkt_px4 s') = drop (20 * n1) (received 1 es) \<and>
     gcs_sent os = take (20 * n3) (received 3 es) \<and> pending (pkt_gcs s') = drop (20 * n3) (received 3 es) \<and>
     count_list os Signal_emit = n1 + n3 \<and> count_list os Restart_vm_emit = length es div 21)"
proof -
  have s: "pkt_gcs s = \<lparr>pkt_data = gcs_buf, pkt_len = 0\<rparr>" "pkt_px4 s = \<lparr>pkt_data = px4_buf, pkt_len = 0\<rparr>" "err_cnt s = 0"
    using assms(1,2) by (auto simp: pilot_pre_init_def init_decrypt_def bind_eq_Some_conv)
  then have "pilot_ok s" using assms(3,4) by (simp add: pilot_ok_def pkt_ok_def)
  then obtain s' os where r: "mavlink_calls es s = Some (s', os)" "recv_effect es s s' os" using mavlink_calls_ok assms(5) by blast
  note e = r(2) [unfolded recv_effect_def]
  have p: "pending (pkt_px4 s) = []" "pending (pkt_gcs s) = []" by (simp_all add: s pending_def)
  have l: "length (pending (pkt_px4 s')) < 20" "length (pending (pkt_gcs s')) < 20" "unat (err_cnt s') \<le> 20"
    using e by (auto simp: pilot_ok_def pkt_ok_def pending_def)
  note px4 = portions [of "px4_sent os" "pending (pkt_px4 s')" "received 1 es"]
  note gcs = portions [of "gcs_sent os" "pending (pkt_gcs s')" "received 3 es"]
  have x: "px4_sent os = take (20 * (length (received 1 es) div 20)) (received 1 es)" "pending (pkt_px4 s') = drop (20 * (length (received 1 es) div 20)) (received 1 es)"
    "gcs_sent os = take (20 * (length (received 3 es) div 20)) (received 3 es)" "pending (pkt_gcs s') = drop (20 * (length (received 3 es) div 20)) (received 3 es)"
    using e px4 gcs p l by simp_all
  have "length (px4_sent os) = 20 * (length (received 1 es) div 20)" "length (gcs_sent os) = 20 * (length (received 3 es) div 20)"
    by (simp_all add: x(1,3))
  then have "count_list os Signal_emit = length (received 1 es) div 20 + length (received 3 es) div 20" using e by linarith
  moreover have "21 * count_list os Restart_vm_emit + unat (err_cnt s') = length es" using e s(3) by simp
  then have "count_list os Restart_vm_emit = length es div 21" using l(3) quotient by fastforce
  ultimately show ?thesis using r(1) x unfolding Let_def by blast
qed

theorem pilot_forwards_witness:
  "\<exists>s s' os. pilot_pre_init (replicate 4096 0) (replicate 4096 0) (\<lambda>n. Some (replicate n 0)) pilot0 = Some s \<and>
    mavlink_calls (map (\<lambda>i. (if i mod 2 = 0 then 1 else 3, i)) [0..44]) s = Some (s', os) \<and> px4_sent os = map (\<lambda>i. word_of_int (2 * i)) [0..19] \<and>
    pending (pkt_px4 s') = [40, 42, 44] \<and> count_list os Signal_emit = 2 \<and> count_list os Restart_vm_emit = 2"
proof -
  obtain s where s: "pilot_pre_init (replicate 4096 0) (replicate 4096 0) (\<lambda>n. Some (replicate n 0)) pilot0 = Some s"
    using pilot0_init by blast
  define es where "es = map (\<lambda>i :: int. (if i mod 2 = 0 then 1 else 3 :: int, i)) [0..44]"
  have "received 1 es = map (\<lambda>i. word_of_int (2 * i)) [0..22]" "received 3 es = map (\<lambda>i. word_of_int (2 * i + 1)) [0..21]" "length es = 45"
    "\<forall>(u, c) \<in> set es. u = 1 \<or> u = 3"
    by (simp_all add: es_def upto_rec1 received_def)
  then show ?thesis
    using pilot_forwards [OF s, of es] s unfolding es_def [symmetric] by (auto simp: pilot0_def upto_rec1 Let_def numeral_2_eq_2)
qed

text \<open>A frame with its header is handed to \<open>securePkg_dec\<close>.\<close>

lemma try_decrypt_frame:
  assumes "length pkg = 96" "98 \<le> n"
  shows "try_decrypt ds (0x7e # 0 # pkg @ rest) n s = map_option
    (\<lambda>(ret, _, ctx). (if ret = COMMSEC_SUCCEED then 1 else 0, s\<lparr>decrypt_state := ctx\<rparr>)) (securePkg_dec ds (decrypt_state s) pkg)"
  using assms by (cases "securePkg_dec ds (decrypt_state s) pkg")
    (auto simp: try_decrypt_def COMMSEC_PAYLOAD_LEN_def securePkg_size_of_package_def TAG_LEN_def HEADER_LEN_def COMMSEC_SUCCEED_def)

text \<open>
  A stream of bytes checked one at a time: bytes other than the flag are collected, and the
  flag after a frame whose package does not contain it hands the package to the decryption.
\<close>

fun check_bytes :: "buf_dist \<Rightarrow> byte list \<Rightarrow> packet \<Rightarrow> pilot \<Rightarrow> (packet \<times> pilot) option" where
  "check_bytes ds [] pkt s = Some (pkt, s)"
| "check_bytes ds (c # cs) pkt s = do { (pkt, s) \<leftarrow> check_packet ds pkt c s; check_bytes ds cs pkt s }"

lemma check_bytes_append:
  "check_bytes ds (cs @ cs') pkt s = do { (pkt, s) \<leftarrow> check_bytes ds cs pkt s; check_bytes ds cs' pkt s }"
  by (induction ds cs pkt s rule: check_bytes.induct) (auto split: bind_split)

lemma check_packet_collects:
  assumes "unat (pkt_len p) < 256" "length (pkt_data p) = 256" "c \<noteq> 0x7e \<or> pkt_len p = 0"
  shows "\<exists>q. check_packet ds p c s = Some (q, s) \<and> pending q = pending p @ [c] \<and> unat (pkt_len q) = Suc (unat (pkt_len p)) \<and>
    length (pkt_data q) = 256"
proof -
  obtain q where q: "pkt_append p c = Some q" "pending q = pending p @ [c]" "unat (pkt_len q) = Suc (unat (pkt_len p))"
    "length (pkt_data q) = length (pkt_data p)" using pkt_append_room [of p] assms(1,2) by auto
  then have "\<not> (c = 0x7e \<and> 1 < pkt_len q)" using assms(3) by (auto simp: word_less_nat_alt)
  then show ?thesis using q assms(2) by (auto simp: check_packet_def)
qed

lemma check_bytes_collects:
  "0x7e \<notin> set cs \<Longrightarrow> unat (pkt_len p) + length cs \<le> 256 \<Longrightarrow> length (pkt_data p) = 256 \<Longrightarrow>
    \<exists>q. check_bytes ds cs p s = Some (q, s) \<and> pending q = pending p @ cs \<and> unat (pkt_len q) = unat (pkt_len p) + length cs \<and>
      length (pkt_data q) = 256"
proof (induction cs arbitrary: p)
  case (Cons c cs)
  obtain p1 where p1: "check_packet ds p c s = Some (p1, s)" "pending p1 = pending p @ [c]" "unat (pkt_len p1) = Suc (unat (pkt_len p))"
    "length (pkt_data p1) = 256" using check_packet_collects [of p c ds s] Cons.prems by auto
  then show ?case using Cons.IH [of p1] Cons.prems by auto
qed simp

lemma check_frame:
  assumes "length pkg = 96" "0x7e \<notin> set pkg" "length d = 256" "securePkg_dec ds (decrypt_state s) pkg = Some (ret, pkg', ctx)"
  shows "\<exists>q. check_bytes ds ([0x7e, 0] @ pkg @ [0x7e]) \<lparr>pkt_data = d, pkt_len = 0\<rparr> s =
    Some (q, s\<lparr>decrypt_state := ctx, err_cnt := err_cnt s + (if ret = COMMSEC_SUCCEED then 0 else 1)\<rparr>) \<and> pkt_len q = 0 \<and> length (pkt_data q) = 256"
proof -
  obtain p1 where p1: "check_packet ds \<lparr>pkt_data = d, pkt_len = 0\<rparr> 0x7e s = Some (p1, s)" "pending p1 = [0x7e]" "unat (pkt_len p1) = 1"
    "length (pkt_data p1) = 256" using check_packet_collects [of "\<lparr>pkt_data = d, pkt_len = 0\<rparr>" "0x7e" ds s] assms(3) by (auto simp: pending_def)
  obtain p2 where p2: "check_bytes ds (0 # pkg) p1 s = Some (p2, s)" "pending p2 = 0x7e # 0 # pkg" "unat (pkt_len p2) = 98"
    "length (pkt_data p2) = 256" using check_bytes_collects [of "0 # pkg" p1 ds s] assms(1,2) p1 by auto
  obtain p3 where p3: "pkt_append p2 0x7e = Some p3" "pending p3 = 0x7e # 0 # pkg @ [0x7e]" "unat (pkt_len p3) = 99" "length (pkt_data p3) = 256"
    using pkt_append_room [of p2 "0x7e"] p2 by auto
  have "pkt_data p3 = pending p3 @ drop (unat (pkt_len p3)) (pkt_data p3)" by (simp add: pending_def)
  then have data: "pkt_data p3 = 0x7e # 0 # pkg @ (0x7e # drop (unat (pkt_len p3)) (pkt_data p3))" using p3(2) by simp
  have len: "pkt_len p3 = 99" using p3(3) by (simp add: word_unat_eq_iff)
  have "try_decrypt ds (pkt_data p3) 99 s = Some (if ret = COMMSEC_SUCCEED then 1 else 0, s\<lparr>decrypt_state := ctx\<rparr>)"
    by (subst data, subst try_decrypt_frame [OF assms(1)]) (simp_all add: assms(4))
  then have "check_bytes ds [0x7e] p2 s = Some (p3\<lparr>pkt_len := 0\<rparr>, s\<lparr>decrypt_state := ctx, err_cnt := err_cnt s + (if ret = COMMSEC_SUCCEED then 0 else 1)\<rparr>)"
    using p3(1) by (simp add: check_packet_def len)
  moreover have "check_bytes ds [0x7e] \<lparr>pkt_data = d, pkt_len = 0\<rparr> s = Some (p1, s)" using p1(1) by simp
  ultimately have "check_bytes ds ([0x7e] @ (0 # pkg) @ [0x7e]) \<lparr>pkt_data = d, pkt_len = 0\<rparr> s =
      Some (p3\<lparr>pkt_len := 0\<rparr>, s\<lparr>decrypt_state := ctx, err_cnt := err_cnt s + (if ret = COMMSEC_SUCCEED then 0 else 1)\<rparr>)"
    using p2(1) by (simp only: check_bytes_append bind.bind_lunit prod.case)
  then show ?thesis using p3(4) by simp
qed

text \<open>
  C19. Frames of the ground station. A package that a station with the pilot's key and salt makes
  of an 80-byte message, framed by the bytes 0x7e and 0, is accepted by an initialised pilot;
  the same frame a second time is refused and changes nothing.
\<close>

theorem pilot_accepts_once:
  assumes "pilot_pre_init gcs_buf px4_buf malloc s0 = Some s" "gcm_wf (encCtx (decrypt_state s0))" "gcm_wf (decCtx (decrypt_state s0))"
    "length (mostRecentCounter (decrypt_state s0)) = MAX_BASE_STATIONS"
    "commsec_ready base_to_uav_key dkey g" "encSalt g = b2uSalt" "unat (myId g) < MAX_BASE_STATIONS" "0 < myCounter g" "myCounter g \<noteq> UINT32_MAX"
    "length msg = 80"
  shows "\<exists>c h t g' s'. securePkg_enc ds g msg (replicate 8 0) (replicate 8 0) = Some (COMMSEC_SUCCEED, c, h, t, g') \<and>
    (let f = [0x7e, 0] @ h @ c @ t in
     try_decrypt ds' f (int (length f)) s = Some (1, s') \<and> try_decrypt ds' f (int (length f)) s' = Some (0, s'))"
proof -
  obtain d where d: "malloc CHK_BUF_SIZE = Some d" using assms(1) by (auto simp: pilot_pre_init_def bind_eq_Some_conv)
  obtain s1 where s1: "pilot_pre_init gcs_buf px4_buf malloc s0 = Some s1" "commsec_ready uav_to_base_key base_to_uav_key (decrypt_state s1)"
    "decSalt (decrypt_state s1) = b2uSalt" "mostRecentCounter (decrypt_state s1) = replicate MAX_BASE_STATIONS 0"
    by (rule pilot_pre_init_ok [of s0 malloc d gcs_buf px4_buf, OF assms(2-4) d])
  have "s1 = s" using s1(1) assms(1) by simp
  then have s: "commsec_ready uav_to_base_key base_to_uav_key (decrypt_state s)" "decSalt (decrypt_state s) = encSalt g"
    "mostRecentCounter (decrypt_state s) ! unat (myId g) < myCounter g"
    using s1 assms(6-8) by simp_all
  obtain c h t g' r p where e: "securePkg_enc ds g msg (replicate 8 0) (replicate 8 0) = Some (COMMSEC_SUCCEED, c, h, t, g')" "length c = 80"
    "securePkg_dec ds' (decrypt_state s) (h @ c @ t) = Some (COMMSEC_SUCCEED, p, r)"
    "mostRecentCounter r = (mostRecentCounter (decrypt_state s))[unat (myId g) := myCounter g]"
    using package_delivered [OF assms(5) s(1,2) assms(7) s(3) assms(9), of msg "replicate 8 0" "replicate 8 0" ds ds'] assms(10)
    by (auto simp: MAX_MESSAGE_LEN_def HEADER_LEN_def TAG_LEN_def split: if_splits)
  have k: "length base_to_uav_key = 16" by (simp add: base_to_uav_key_def)
  have ht: "h = be_bytes (myId g) @ be_bytes (myCounter g)" "length t = 8"
    using securePkg_enc_ready [OF assms(5), of msg "replicate 8 0" "replicate 8 0" ds] assms(9,10) e(1) k
    by (auto simp: MAX_MESSAGE_LEN_def HEADER_LEN_def TAG_LEN_def GCM_AE_def Let_def GCTR_message J0_length gcm_tag_eq)
  have "length (mostRecentCounter (decrypt_state s)) = MAX_BASE_STATIONS" using s(1) by (simp add: commsec_ready_def)
  then have "mostRecentCounter r ! unat (myId g) = myCounter g" using e(4) assms(7) by simp
  then have d2: "\<exists>ret. securePkg_dec ds' r (h @ c @ t) = Some (ret, h @ c @ t, r) \<and> ret \<noteq> COMMSEC_SUCCEED"
    using ht e(2) by (simp add: securePkg_dec_def be_word_bytes Let_def commsec_results HEADER_LEN_def TAG_LEN_def)
  show ?thesis
    using e d2 ht try_decrypt_frame [of "h @ c @ t" 98 ds' "[]"] by (auto simp: Let_def intro!: exI [of _ "s\<lparr>decrypt_state := r\<rparr>"])
qed

theorem pilot_accepts_once_witness:
  "\<exists>g s c h t g' s'. securePkg_init zero_commsec 3 u2bSalt uav_to_base_key b2uSalt base_to_uav_key = Some (COMMSEC_SUCCEED, g) \<and>
    pilot_pre_init (replicate 4096 0) (replicate 4096 0) (\<lambda>n. Some (replicate n 0)) pilot0 = Some s \<and>
    securePkg_enc \<lparr>hdr_dist = 0, enc_dist = 1, txt_dist = 2\<rparr> g (replicate 80 5) (replicate 8 0) (replicate 8 0) = Some (COMMSEC_SUCCEED, c, h, t, g') \<and>
    try_decrypt \<lparr>hdr_dist = 0, enc_dist = 0, txt_dist = 0\<rparr> ([0x7e, 0] @ h @ c @ t) (int (length ([0x7e, 0] @ h @ c @ t))) s = Some (1, s')"
proof -
  have "length uav_to_base_key = 16" "length base_to_uav_key = 16" by (simp_all add: base_to_uav_key_def uav_to_base_key_def)
  then obtain g where g: "securePkg_init zero_commsec 3 u2bSalt uav_to_base_key b2uSalt base_to_uav_key = Some (COMMSEC_SUCCEED, g)"
      "commsec_ready base_to_uav_key uav_to_base_key g" "encSalt g = b2uSalt" "myId g = 3" "myCounter g = 1"
    using securePkg_init_ready [of zero_commsec uav_to_base_key base_to_uav_key 3 u2bSalt b2uSalt] by auto
  obtain s where s: "pilot_pre_init (replicate 4096 0) (replicate 4096 0) (\<lambda>n. Some (replicate n 0)) pilot0 = Some s" using pilot0_init by blast
  have p0: "decrypt_state pilot0 = zero_commsec" by (simp add: pilot0_def)
  show ?thesis
    using pilot_accepts_once [OF s _ _ _ g(2,3), of "replicate 80 5" "\<lparr>hdr_dist = 0, enc_dist = 1, txt_dist = 2\<rparr>"
      "\<lparr>hdr_dist = 0, enc_dist = 0, txt_dist = 0\<rparr>"] s g(1,4,5)
    by (auto simp: Let_def p0 UINT32_MAX_def MAX_BASE_STATIONS_def)
qed

end
