(* ===== verification/Uart.thy ===== *)
theory Uart
  imports Pilot
begin

text \<open>
  The UART driver of \<open>odroid_vm\<close>, \<open>components/uart/src/driver.c\<close>, and its link to the pilot. The character
  device of the platform library, the semaphores and the call of the pilot are the fields of
  \<open>uart_ops\<close>, over an arbitrary state; \<open>read_complete\<close> and \<open>write_complete\<close> give the number of bytes with which
  the library next calls the callback, from its interrupt handler. Waiting for a semaphore is
  the loop over these calls until one of them posts it. Addresses are natural numbers.
\<close>

subsection \<open>The driver\<close>

definition BAUD_RATE :: nat where "BAUD_RATE = 57600"

record uart_token =
  cur_bytes :: u32
  req_bytes :: u32
  tbuf :: nat

record 'v uart_ops =
  ps_cdev_read :: "nat \<Rightarrow> u32 \<Rightarrow> 'v \<Rightarrow> int \<times> 'v"
  ps_cdev_write :: "nat \<Rightarrow> u32 \<Rightarrow> 'v \<Rightarrow> int \<times> 'v"
  read_complete :: "'v \<Rightarrow> (u32 \<times> 'v) option"
  write_complete :: "'v \<Rightarrow> (u32 \<times> 'v) option"
  load_char :: "nat \<Rightarrow> 'v \<Rightarrow> byte"
  pilot_recv :: "int \<Rightarrow> int \<Rightarrow> 'v \<Rightarrow> 'v option"
  ps_cdev_handle_irq :: "'v \<Rightarrow> 'v"
  interrupt_acknowledge :: "'v \<Rightarrow> 'v"
  exynos_serial_init :: "'v \<Rightarrow> int \<times> 'v"
  cdev_flags :: "'v \<Rightarrow> u32"
  SERIAL_AUTO_CR :: u32
  ps_cdev_set_flags :: "u32 \<Rightarrow> 'v \<Rightarrow> 'v"
  PARITY_NONE :: int
  serial_configure :: "nat \<Rightarrow> nat \<Rightarrow> int \<Rightarrow> nat \<Rightarrow> 'v \<Rightarrow> 'v"
  read_sem_wait :: "'v \<Rightarrow> 'v option"
  write_sem_wait :: "'v \<Rightarrow> 'v option"

definition interrupt_handle :: "'v uart_ops \<Rightarrow> 'v \<Rightarrow> 'v" where
  "interrupt_handle ops v = interrupt_acknowledge ops (ps_cdev_handle_irq ops v)"

definition dummy_get_freq :: nat where
  "dummy_get_freq = 24000000"

definition dummy_set_freq :: "nat \<Rightarrow> nat" where
  "dummy_set_freq hz = dummy_get_freq"

definition uart__init :: "'v uart_ops \<Rightarrow> 'v \<Rightarrow> 'v option" where
  "uart__init ops v =
    (let (err, v) = exynos_serial_init ops v in
     if err \<noteq> 0 then None
     else
       let v = ps_cdev_set_flags ops (cdev_flags ops v AND NOT (SERIAL_AUTO_CR ops)) v;
           v = serial_configure ops BAUD_RATE 8 (PARITY_NONE ops) 1 v
       in do { v \<leftarrow> read_sem_wait ops v; write_sem_wait ops v })"

text \<open>The first component of the result says whether the callback posts its semaphore.\<close>

definition read_callback :: "'v uart_ops \<Rightarrow> u32 \<Rightarrow> uart_token \<Rightarrow> 'v \<Rightarrow> bool \<times> uart_token \<times> 'v" where
  "read_callback ops bytes_transfered t v =
    (let t = t\<lparr>cur_bytes := cur_bytes t + bytes_transfered\<rparr>;
         t = t\<lparr>tbuf := tbuf t + unat bytes_transfered\<rparr>
     in if cur_bytes t < req_bytes t
        then
          let (ret, v) = ps_cdev_read ops (tbuf t) (req_bytes t - cur_bytes t) v in
          if ret < 0 then (True, t, v) else (False, t, v)
        else (True, t, v))"

definition write_callback :: "u32 \<Rightarrow> uart_token \<Rightarrow> bool \<times> uart_token" where
  "write_callback bytes_transfered t =
    (let t = t\<lparr>cur_bytes := cur_bytes t + bytes_transfered\<rparr> in (cur_bytes t = req_bytes t, t))"

partial_function (option) read_wait :: "'v uart_ops \<Rightarrow> uart_token \<Rightarrow> 'v \<Rightarrow> (uart_token \<times> 'v) option" where
  "read_wait ops t v = do {
     (n, v) \<leftarrow> read_complete ops v;
     let (posted, t, v) = read_callback ops n t v;
     if posted then Some (t, v) else read_wait ops t v }"

partial_function (option) write_wait :: "'v uart_ops \<Rightarrow> uart_token \<Rightarrow> 'v \<Rightarrow> (uart_token \<times> 'v) option" where
  "write_wait ops t v = do {
     (n, v) \<leftarrow> write_complete ops v;
     let (posted, t) = write_callback n t;
     if posted then Some (t, v) else write_wait ops t v }"

definition uart_read :: "'v uart_ops \<Rightarrow> int \<Rightarrow> nat \<Rightarrow> int \<Rightarrow> 'v \<Rightarrow> (int \<times> 'v) option" where
  "uart_read ops uart_num c rsize v =
    (if uart_num \<noteq> 0 then Some (- 1, v)
     else
       let token = \<lparr>cur_bytes = 0, req_bytes = word_of_int rsize, tbuf = c\<rparr>;
           (ret, v) = ps_cdev_read ops (tbuf token) (req_bytes token) v
       in if ret < 0 then Some (- 1, v)
          else do { (token, v) \<leftarrow> read_wait ops token v; Some (sint (cur_bytes token), v) })"

definition uart_write :: "'v uart_ops \<Rightarrow> nat \<Rightarrow> int \<Rightarrow> int \<Rightarrow> 'v \<Rightarrow> (int \<times> 'v) option" where
  "uart_write ops client_buf uart_num wsize v =
    (if uart_num \<noteq> 0 then Some (- 1, v)
     else
       let token = \<lparr>cur_bytes = 0, req_bytes = word_of_int wsize, tbuf = client_buf\<rparr>;
           (ret, v) = ps_cdev_write ops (tbuf token) (req_bytes token) v
       in if ret < 0 then Some (- 1, v)
          else do { (token, v) \<leftarrow> write_wait ops token v; Some (wsize, v) })"

text \<open>The first turns of the endless loop of \<open>run\<close>; the byte read is at address \<open>c\<close>.\<close>

fun uart_run :: "'v uart_ops \<Rightarrow> int \<Rightarrow> nat \<Rightarrow> nat \<Rightarrow> 'v \<Rightarrow> 'v option" where
  "uart_run ops ID c 0 v = Some v"
| "uart_run ops ID c (Suc n) v = do {
     (_, v) \<leftarrow> uart_read ops 0 c 1 v;
     v \<leftarrow> pilot_recv ops ID (uint (load_char ops c v)) v;
     uart_run ops ID c n v }"

subsection \<open>The character device\<close>

text \<open>
  What the platform library does, seen through the bytes \<open>rx\<close> that arrive on the line, the
  pending read request \<open>rq\<close>, and a part \<open>pl\<close> of the state that belongs to others: a request is
  accepted when none is pending, and completed with some of its bytes, at most as many as it
  asks for, stored at its address.
\<close>

definition uart_laws :: "'v uart_ops \<Rightarrow> ('v \<Rightarrow> byte list) \<Rightarrow> ('v \<Rightarrow> (nat \<times> u32) option) \<Rightarrow> ('v \<Rightarrow> 'p) \<Rightarrow> bool" where
  "uart_laws ops rx rq pl \<longleftrightarrow>
    (\<forall>a n v. rq v = None \<and> 0 < n \<longrightarrow> (\<exists>r v'. ps_cdev_read ops a n v = (r, v') \<and> 0 \<le> r \<and> rq v' = Some (a, n) \<and>
      rx v' = rx v \<and> pl v' = pl v \<and> (\<forall>x. load_char ops x v' = load_char ops x v))) \<and>
    (\<forall>a n v. rq v = Some (a, n) \<and> 0 < n \<and> rx v \<noteq> [] \<longrightarrow> (\<exists>k v'. read_complete ops v = Some (k, v') \<and> 0 < k \<and> k \<le> n \<and> unat k \<le> length (rx v) \<and>
      rx v' = drop (unat k) (rx v) \<and> rq v' = None \<and> pl v' = pl v \<and> (\<forall>i<unat k. load_char ops (a + i) v' = rx v ! i) \<and>
      (\<forall>x<a. load_char ops x v' = load_char ops x v)))"

lemma uart_request:
  assumes "uart_laws ops rx rq pl" "rq v = None" "0 < n"
  obtains r v' where "ps_cdev_read ops a n v = (r, v')" "0 \<le> r" "rq v' = Some (a, n)" "rx v' = rx v" "pl v' = pl v"
    "\<And>x. load_char ops x v' = load_char ops x v"
  using assms unfolding uart_laws_def by blast

lemma uart_complete:
  assumes "uart_laws ops rx rq pl" "rq v = Some (a, n)" "0 < n" "rx v \<noteq> []"
  obtains k v' where "read_complete ops v = Some (k, v')" "0 < k" "k \<le> n" "unat k \<le> length (rx v)" "rx v' = drop (unat k) (rx v)" "rq v' = None"
    "pl v' = pl v" "\<And>i. i < unat k \<Longrightarrow> load_char ops (a + i) v' = rx v ! i" "\<And>x. x < a \<Longrightarrow> load_char ops x v' = load_char ops x v"
  using assms unfolding uart_laws_def by blast

text \<open>Short reads are resumed until all bytes are there.\<close>

lemma read_wait_exact:
  assumes "uart_laws ops rx rq pl"
  shows "rq v = Some (tbuf t, req_bytes t - cur_bytes t) \<Longrightarrow> cur_bytes t < req_bytes t \<Longrightarrow>
    unat (req_bytes t) - unat (cur_bytes t) \<le> length (rx v) \<Longrightarrow>
    \<exists>t' v'. read_wait ops t v = Some (t', v') \<and> cur_bytes t' = req_bytes t \<and> rx v' = drop (unat (req_bytes t) - unat (cur_bytes t)) (rx v) \<and>
      rq v' = None \<and> pl v' = pl v \<and> (\<forall>i<unat (req_bytes t) - unat (cur_bytes t). load_char ops (tbuf t + i) v' = rx v ! i) \<and>
      (\<forall>x<tbuf t. load_char ops x v' = load_char ops x v)"
proof (induction "unat (req_bytes t) - unat (cur_bytes t)" arbitrary: t v rule: less_induct)
  case less
  have d: "unat (req_bytes t - cur_bytes t) = unat (req_bytes t) - unat (cur_bytes t)" "unat (cur_bytes t) < unat (req_bytes t)"
    using less.prems(2) by (simp_all add: unat_sub word_le_nat_alt word_less_nat_alt)
  then have "0 < req_bytes t - cur_bytes t" "rx v \<noteq> []" using less.prems(3) by (auto simp: word_less_nat_alt)
  then obtain k v1 where k: "read_complete ops v = Some (k, v1)" "0 < k" "k \<le> req_bytes t - cur_bytes t" "unat k \<le> length (rx v)"
    "rx v1 = drop (unat k) (rx v)" "rq v1 = None" "pl v1 = pl v" "\<And>i. i < unat k \<Longrightarrow> load_char ops (tbuf t + i) v1 = rx v ! i"
    "\<And>x. x < tbuf t \<Longrightarrow> load_char ops x v1 = load_char ops x v" using uart_complete [OF assms less.prems(1)] by metis
  define u where "u = t\<lparr>cur_bytes := cur_bytes t + k, tbuf := tbuf t + unat k\<rparr>"
  have uk: "0 < unat k" "unat k \<le> unat (req_bytes t) - unat (cur_bytes t)" using k(2,3) d by (simp_all add: word_less_nat_alt word_le_nat_alt)
  have uc: "unat (cur_bytes u) = unat (cur_bytes t) + unat k"
  proof -
    have "unat (cur_bytes t) + unat k < 2 ^ LENGTH(32)" using uk d(2) unsigned_less [of "req_bytes t", where ?'a = nat] by simp
    then show ?thesis by (simp add: u_def unat_add_lem [THEN iffD1])
  qed
  show ?case
  proof (cases "cur_bytes u < req_bytes u")
    case True
    then have m: "0 < req_bytes u - cur_bytes u" by (simp add: word_gt_0)
    obtain r v2 where r: "ps_cdev_read ops (tbuf u) (req_bytes u - cur_bytes u) v1 = (r, v2)" "0 \<le> r" "rq v2 = Some (tbuf u, req_bytes u - cur_bytes u)"
      "rx v2 = rx v1" "pl v2 = pl v1" "\<And>x. load_char ops x v2 = load_char ops x v1" using uart_request [OF assms k(6) m] by metis
    have q: "req_bytes u = req_bytes t" "tbuf u = tbuf t + unat k" by (simp_all add: u_def)
    have "unat (cur_bytes u) < unat (req_bytes u)" using True by (simp add: word_less_nat_alt)
    then have s: "unat (req_bytes u) - unat (cur_bytes u) < unat (req_bytes t) - unat (cur_bytes t)"
      "unat (req_bytes u) - unat (cur_bytes u) \<le> length (rx v2)"
      using uc uk q(1) less.prems(3) r(4) k(5) by auto
    obtain t' v' where w: "read_wait ops u v2 = Some (t', v')" "cur_bytes t' = req_bytes t"
      "rx v' = drop (unat (req_bytes t) - unat (cur_bytes u)) (rx v2)" "rq v' = None" "pl v' = pl v2"
      "\<forall>i<unat (req_bytes t) - unat (cur_bytes u). load_char ops (tbuf u + i) v' = rx v2 ! i" "\<forall>x<tbuf u. load_char ops x v' = load_char ops x v2"
      using less.hyps [OF s(1) r(3) True s(2)] unfolding q(1) by blast
    have "load_char ops (tbuf t + i) v' = rx v ! i" if "i < unat (req_bytes t) - unat (cur_bytes t)" for i
    proof (cases "i < unat k")
      case True
      then show ?thesis using w(7) r(6) k(8) q(2) by auto
    next
      case False
      then have "i - unat k < unat (req_bytes t) - unat (cur_bytes u)" using that uc by linarith
      then have "load_char ops (tbuf u + (i - unat k)) v' = rx v2 ! (i - unat k)" using w(6) by blast
      then show ?thesis using False q(2) r(4) k(4,5) by simp
    qed
    moreover have "read_wait ops t v = read_wait ops u v2"
      using k(1) r(1,2) True by (simp add: read_wait.simps [of ops t v] read_callback_def u_def [symmetric] Let_def del: u_def) (simp add: u_def Let_def)
    ultimately show ?thesis using w r k uc uk q by (auto simp: add.commute)
  next
    case False
    then have e: "unat (cur_bytes u) = unat (req_bytes t)" using uc uk d(2) by (simp add: word_less_nat_alt u_def)
    then have "unat k = unat (req_bytes t) - unat (cur_bytes t)" using uc by simp
    moreover have "read_wait ops t v = Some (u, v1)"
      using k(1) False by (simp add: read_wait.simps [of ops t v] read_callback_def u_def Let_def)
    moreover have "cur_bytes u = req_bytes t" using e by (simp add: word_unat_eq_iff)
    ultimately show ?thesis using k by simp
  qed
qed

lemma uart_read_delivers:
  assumes "uart_laws ops rx rq pl" "rq v = None" "0 < rsize" "rsize < 2 ^ 31" "nat rsize \<le> length (rx v)"
  shows "\<exists>v'. uart_read ops 0 c rsize v = Some (rsize, v') \<and> rx v' = drop (nat rsize) (rx v) \<and> rq v' = None \<and> pl v' = pl v \<and>
    (\<forall>i<nat rsize. load_char ops (c + i) v' = rx v ! i)"
proof -
  let ?t = "\<lparr>cur_bytes = 0, req_bytes = word_of_int rsize, tbuf = c\<rparr>"
  have r: "unat (word_of_int rsize :: u32) = nat rsize" "sint (word_of_int rsize :: u32) = rsize"
    using assms(3,4) by (simp_all add: unsigned_of_int signed_of_int take_bit_int_eq_self signed_take_bit_int_eq_self)
  then have p: "0 < (word_of_int rsize :: u32)" using assms(3) by (simp add: word_less_nat_alt)
  obtain q v1 where 1: "ps_cdev_read ops c (word_of_int rsize) v = (q, v1)" "0 \<le> q" "rq v1 = Some (c, word_of_int rsize)" "rx v1 = rx v" "pl v1 = pl v"
    using uart_request [OF assms(1,2) p] by metis
  then show ?thesis using read_wait_exact [OF assms(1), of v1 ?t] r p assms(5) by (auto simp: uart_read_def Let_def)
qed

text \<open>A write returns when the pieces reported add up to the bytes asked for.\<close>

lemma write_wait_ends:
  assumes "\<And>v. 0 < rest v \<Longrightarrow> \<exists>k v'. write_complete ops v = Some (k, v') \<and> 0 < k \<and> unat k \<le> rest v \<and> rest v' = rest v - unat k"
  shows "unat (cur_bytes t) + rest v = unat (req_bytes t) \<Longrightarrow> 0 < rest v \<Longrightarrow> \<exists>t' v'. write_wait ops t v = Some (t', v') \<and> rest v' = 0"
proof (induction "rest v" arbitrary: t v rule: less_induct)
  case less
  obtain k v1 where k: "write_complete ops v = Some (k, v1)" "0 < k" "unat k \<le> rest v" "rest v1 = rest v - unat k" using assms less.prems(2) by blast
  define u where "u = t\<lparr>cur_bytes := cur_bytes t + k\<rparr>"
  have "unat (cur_bytes t) + unat k < 2 ^ LENGTH(32)" using k(3) less.prems(1) unsigned_less [of "req_bytes t", where ?'a = nat] by simp
  then have c: "unat (cur_bytes u) = unat (cur_bytes t) + unat k" "req_bytes u = req_bytes t" by (simp_all add: u_def unat_add_lem [THEN iffD1])
  have w: "write_wait ops t v = (if cur_bytes u = req_bytes u then Some (u, v1) else write_wait ops u v1)"
    using k(1) by (simp add: write_wait.simps [of ops t v] write_callback_def u_def Let_def)
  show ?case
  proof (cases "cur_bytes u = req_bytes u")
    case True
    then show ?thesis using w k(4) c less.prems(1) by simp
  next
    case False
    then have "unat (cur_bytes u) \<noteq> unat (req_bytes u)" by (simp add: word_unat_eq_iff)
    then have "0 < rest v1" using c k(3,4) less.prems(1) by simp
    then show ?thesis using less.hyps [of v1 u] False w c k(2-4) less.prems by (simp add: word_less_nat_alt)
  qed
qed

lemma uart_write_returns:
  assumes "\<And>v. 0 < rest v \<Longrightarrow> \<exists>k v'. write_complete ops v = Some (k, v') \<and> 0 < k \<and> unat k \<le> rest v \<and> rest v' = rest v - unat k"
    "ps_cdev_write ops b (word_of_int wsize) v = (r, v1)" "0 \<le> r" "rest v1 = nat wsize" "0 < wsize" "wsize < 2 ^ 31"
  shows "\<exists>v'. uart_write ops b 0 wsize v = Some (wsize, v') \<and> rest v' = 0"
proof -
  have "unat (word_of_int wsize :: u32) = nat wsize" using assms(5,6) by (simp add: unsigned_of_int take_bit_int_eq_self)
  then show ?thesis
    using write_wait_ends [OF assms(1), of "\<lparr>cur_bytes = 0, req_bytes = word_of_int wsize, tbuf = b\<rparr>" v1] assms(2-5) by (auto simp: uart_write_def)
qed

text \<open>A device on whose line bytes wait, that delivers at most two of them at a time.\<close>

record demo_dev =
  d_rx :: "byte list"
  d_rq :: "(nat \<times> u32) option"
  d_mem :: "nat \<Rightarrow> byte"
  d_pl :: "pilot \<times> pilot_output list"

definition demo_count :: "demo_dev \<Rightarrow> nat" where
  "demo_count v = (case d_rq v of None \<Rightarrow> 0 | Some (a, n) \<Rightarrow> min (min 2 (unat n)) (length (d_rx v)))"

definition demo_complete :: "demo_dev \<Rightarrow> (u32 \<times> demo_dev) option" where
  "demo_complete v = (case d_rq v of None \<Rightarrow> None | Some (a, n) \<Rightarrow>
    Some (word_of_nat (demo_count v), v\<lparr>d_rx := drop (demo_count v) (d_rx v), d_rq := None,
      d_mem := \<lambda>x. if a \<le> x \<and> x < a + demo_count v then d_rx v ! (x - a) else d_mem v x\<rparr>))"

definition demo_ops :: "demo_dev uart_ops" where
  "demo_ops = \<lparr>ps_cdev_read = \<lambda>a n v. (0, v\<lparr>d_rq := Some (a, n)\<rparr>), ps_cdev_write = \<lambda>a n v. (0, v), read_complete = demo_complete,
     write_complete = \<lambda>v. None, load_char = \<lambda>x v. d_mem v x,
     pilot_recv = \<lambda>i c v. map_option (\<lambda>(s, os). v\<lparr>d_pl := (s, snd (d_pl v) @ os)\<rparr>) (mavlink_recv i c (fst (d_pl v))),
     ps_cdev_handle_irq = \<lambda>v. v, interrupt_acknowledge = \<lambda>v. v, exynos_serial_init = \<lambda>v. (0, v), cdev_flags = \<lambda>v. 0, SERIAL_AUTO_CR = 1,
     ps_cdev_set_flags = \<lambda>f v. v, PARITY_NONE = 0, serial_configure = \<lambda>b n p s v. v, read_sem_wait = Some, write_sem_wait = Some\<rparr>"

lemma demo_laws: "uart_laws demo_ops d_rx d_rq d_pl"
proof -
  have c: "unat (word_of_nat (demo_count v) :: u32) = demo_count v" for v
  proof -
    have "demo_count v \<le> 2" by (auto simp: demo_count_def split: option.splits)
    then show ?thesis by (simp add: unat_of_nat)
  qed
  have "\<exists>k v'. demo_complete v = Some (k, v') \<and> 0 < k \<and> k \<le> n \<and> unat k \<le> length (d_rx v) \<and> d_rx v' = drop (unat k) (d_rx v) \<and> d_rq v' = None \<and>
      d_pl v' = d_pl v \<and> (\<forall>i<unat k. d_mem v' (a + i) = d_rx v ! i) \<and> (\<forall>x<a. d_mem v' x = d_mem v x)"
    if "d_rq v = Some (a, n)" "d_rx v \<noteq> []" "0 < n" for a n v
  proof -
    have "demo_count v = min (min 2 (unat n)) (length (d_rx v))" using that(1) by (simp add: demo_count_def)
    then have "0 < demo_count v" "demo_count v \<le> unat n" "demo_count v \<le> length (d_rx v)" using that by (auto simp: word_less_nat_alt)
    then show ?thesis using that(1) by (simp add: demo_complete_def c word_less_nat_alt word_le_nat_alt)
  qed
  then show ?thesis by (auto simp: uart_laws_def demo_ops_def)
qed

text \<open>
  C18. Reading. However few bytes the device transfers at a time, \<open>uart_read\<close> of a positive number
  of bytes that arrive on the line returns this number; the buffer then holds exactly
  these bytes in order, and the bytes after them are still to be read.
\<close>

theorem uart_read_exact:
  assumes "uart_laws ops rx rq pl" "rq v = None" "0 < rsize" "rsize < 2 ^ 31" "nat rsize \<le> length (rx v)"
  shows "\<exists>v'. uart_read ops 0 c rsize v = Some (rsize, v') \<and> rx v' = drop (nat rsize) (rx v) \<and>
    map (\<lambda>i. load_char ops (c + i) v') [0..<nat rsize] = take (nat rsize) (rx v)"
proof -
  obtain v' where "uart_read ops 0 c rsize v = Some (rsize, v')" "rx v' = drop (nat rsize) (rx v)"
    "\<forall>i<nat rsize. load_char ops (c + i) v' = rx v ! i" using uart_read_delivers [OF assms] by blast
  moreover from this have "map (\<lambda>i. load_char ops (c + i) v') [0..<nat rsize] = take (nat rsize) (rx v)"
    using assms(5) by (intro nth_equalityI) auto
  ultimately show ?thesis by blast
qed

theorem uart_read_exact_witness:
  "\<exists>v'. uart_read demo_ops 0 100 5 \<lparr>d_rx = [1, 2, 3, 4, 5, 6], d_rq = None, d_mem = \<lambda>x. 0, d_pl = (pilot0, [])\<rparr> = Some (5, v') \<and>
    d_rx v' = [6] \<and> map (\<lambda>i. d_mem v' (100 + i)) [0..<5] = [1, 2, 3, 4, 5]"
  using uart_read_exact [OF demo_laws, of "\<lparr>d_rx = [1, 2, 3, 4, 5, 6], d_rq = None, d_mem = \<lambda>x. 0, d_pl = (pilot0, [])\<rparr>" 5 100]
  by (simp add: demo_ops_def)

subsection \<open>The link to the pilot\<close>

text \<open>The call of the pilot reaches \<open>mavlink_recv\<close>, whose state and outputs are \<open>pl\<close>, and leaves the device alone.\<close>

definition pilot_link :: "'v uart_ops \<Rightarrow> ('v \<Rightarrow> byte list) \<Rightarrow> ('v \<Rightarrow> (nat \<times> u32) option) \<Rightarrow> ('v \<Rightarrow> pilot \<times> pilot_output list) \<Rightarrow> bool" where
  "pilot_link ops rx rq pl \<longleftrightarrow>
    (\<forall>i c v s' os. mavlink_recv i c (fst (pl v)) = Some (s', os) \<longrightarrow>
      (\<exists>v'. pilot_recv ops i c v = Some v' \<and> pl v' = (s', snd (pl v) @ os) \<and> rx v' = rx v \<and> rq v' = rq v))"

lemma uart_run_calls:
  assumes "uart_laws ops rx rq pl" "pilot_link ops rx rq pl"
  shows "rq v = None \<Longrightarrow> n \<le> length (rx v) \<Longrightarrow> mavlink_calls (map (\<lambda>b. (i, uint b)) (take n (rx v))) (fst (pl v)) = Some (s', os) \<Longrightarrow>
    \<exists>v'. uart_run ops i c n v = Some v' \<and> pl v' = (s', snd (pl v) @ os) \<and> rx v' = drop n (rx v)"
proof (induction n arbitrary: v os)
  case 0
  then show ?case by (cases "pl v") simp
next
  case (Suc n)
  then obtain b bs where rx: "rx v = b # bs" by (cases "rx v") auto
  then obtain s1 os1 os2 where calls: "mavlink_recv i (uint b) (fst (pl v)) = Some (s1, os1)"
    "mavlink_calls (map (\<lambda>b. (i, uint b)) (take n bs)) s1 = Some (s', os2)" "os = os1 @ os2"
    using Suc.prems(3) by (auto simp: bind_eq_Some_conv)
  obtain v1 where 1: "uart_read ops 0 c 1 v = Some (1, v1)" "rx v1 = bs" "rq v1 = None" "pl v1 = pl v" "load_char ops c v1 = b"
    using uart_read_delivers [OF assms(1) Suc.prems(1), of 1 c] rx by auto
  obtain v2 where 2: "pilot_recv ops i (uint b) v1 = Some v2" "pl v2 = (s1, snd (pl v1) @ os1)" "rx v2 = bs" "rq v2 = None"
    using assms(2) calls(1) 1 unfolding pilot_link_def by metis
  show ?case using Suc.IH [of v2 os2] Suc.prems(2) calls(2,3) 1 2 rx by auto
qed

text \<open>
  C17. From line to line. Let the pilot be initialised, and a UART driver with number 1 or 3 run while
  \<open>n\<close> bytes arrive on its line. Then the loop gets through these bytes, and the pilot has
  handed to the other UART exactly these bytes, in order, up to the last full portion of
  twenty.
\<close>

theorem uart_pilot_forwards:
  assumes "uart_laws ops rx rq pl" "pilot_link ops rx rq pl" "pilot_pre_init gcs_buf px4_buf malloc s0 = Some s" "err_cnt s0 = 0"
    "20 \<le> length gcs_buf" "20 \<le> length px4_buf" "pl v = (s, [])" "rq v = None" "n \<le> length (rx v)" "ID = 1 \<or> ID = 3"
  shows "\<exists>v' s' os. uart_run ops ID c n v = Some v' \<and> pl v' = (s', os) \<and> rx v' = drop n (rx v) \<and>
    (if ID = 1 then px4_sent os else gcs_sent os) = take (20 * (n div 20)) (rx v) \<and> (if ID = 1 then gcs_sent os else px4_sent os) = []"
proof -
  let ?es = "map (\<lambda>b. (ID, uint b)) (take n (rx v))"
  have s: "pilot_ok s" "pending (pkt_px4 s) = []" "pending (pkt_gcs s) = []"
    using assms(3-6) by (auto simp: pilot_pre_init_def init_decrypt_def bind_eq_Some_conv pilot_ok_def pkt_ok_def pending_def)
  then obtain s' os where m: "mavlink_calls ?es s = Some (s', os)" "recv_effect ?es s s' os"
    using mavlink_calls_ok [of s ?es] assms(10) by auto
  have r: "received u ?es = (if u = ID then take n (rx v) else [])" for u
    by (simp add: received_def filter_map comp_def)
  have l: "length (pending (pkt_px4 s')) < 20" "length (pending (pkt_gcs s')) < 20"
    using m(2) by (auto simp: recv_effect_def pilot_ok_def pkt_ok_def pending_def)
  have "px4_sent os = take (20 * (length (received 1 ?es) div 20)) (received 1 ?es)" "gcs_sent os = take (20 * (length (received 3 ?es) div 20)) (received 3 ?es)"
    using portions(1) [OF _ _ l(1), of "px4_sent os" "received 1 ?es"] portions(1) [OF _ _ l(2), of "gcs_sent os" "received 3 ?es"] m(2) s(2,3)
    unfolding recv_effect_def by simp_all
  moreover have "length (take n (rx v)) = n" "20 * (n div 20) \<le> n" using assms(9) by simp_all
  ultimately have "(if ID = 1 then px4_sent os else gcs_sent os) = take (20 * (n div 20)) (rx v)" "(if ID = 1 then gcs_sent os else px4_sent os) = []"
    using assms(10) unfolding r by (auto simp: min_absorb1)
  moreover obtain v' where "uart_run ops ID c n v = Some v'" "pl v' = (s', os)" "rx v' = drop n (rx v)"
    using uart_run_calls [OF assms(1,2,8,9), of ID s' os c] m(1) assms(7) by auto
  ultimately show ?thesis by blast
qed

lemma demo_link: "pilot_link demo_ops d_rx d_rq d_pl"
  by (auto simp: pilot_link_def demo_ops_def)

theorem uart_pilot_forwards_witness:
  "\<exists>s v' s' os. pilot_pre_init (replicate 4096 0) (replicate 4096 0) (\<lambda>n. Some (replicate n 0)) pilot0 = Some s \<and>
    uart_run demo_ops 1 100 25 \<lparr>d_rx = replicate 30 7, d_rq = None, d_mem = \<lambda>x. 0, d_pl = (s, [])\<rparr> = Some v' \<and> d_pl v' = (s', os) \<and>
    px4_sent os = replicate 20 7 \<and> gcs_sent os = [] \<and> d_rx v' = replicate 5 7"
proof -
  obtain s where s: "pilot_pre_init (replicate 4096 0) (replicate 4096 0) (\<lambda>n. Some (replicate n 0)) pilot0 = Some s" using pilot0_init by blast
  show ?thesis
    using uart_pilot_forwards [OF demo_laws demo_link s, of "\<lparr>d_rx = replicate 30 7, d_rq = None, d_mem = \<lambda>x. 0, d_pl = (s, [])\<rparr>" 25 1 100] s
    by (auto simp: pilot0_def take_replicate drop_replicate)
qed

end
