(* ===== verification/Pwm.thy ===== *)
theory Pwm
  imports Prelude
begin

text \<open>
  The PWM component of \<open>odroid_vm\<close>, \<open>components/pwm/src/pwm.c\<close>: LED and motor levels in the registers
  of a PCA9685 on an I2C bus. The I2C library, the semaphores and locks and the
  registration of callbacks are generated or external code: they are the fields of \<open>pwm_ops\<close>,
  over an arbitrary state. A failed assertion and a wait that never ends give no result.
  Speeds are values of an arbitrary type with the floating-point operations of \<open>fp_ops\<close>.
\<close>

subsection \<open>Registers\<close>

definition I2C_PWM_ADDR :: int where "I2C_PWM_ADDR = 0x8E"
definition MIN_PWM :: int where "MIN_PWM = 225"
definition MAX_PWM :: int where "MAX_PWM = 410"
definition MODE1 :: int where "MODE1 = 0x00"
definition MODE2 :: int where "MODE2 = 0x10"
definition LED0 :: int where "LED0 = 0x06"
definition LED1 :: int where "LED1 = 0x0A"
definition LED2 :: int where "LED2 = 0x0E"
definition LED3 :: int where "LED3 = 0x12"
definition LED :: "int \<Rightarrow> int" where "LED x = LED0 + x * 0x4"
definition PRESCALE :: int where "PRESCALE = 0xFE"
definition NREGS :: nat where "NREGS = 0x100"
definition NLEDS :: int where "NLEDS = 16"
definition FL :: nat where "FL = 0"
definition FR :: nat where "FR = 1"
definition BL :: nat where "BL = 2"
definition BR :: nat where "BR = 3"
definition MODE1_AUTOINC :: int where "MODE1_AUTOINC = push_bit 5 1"
definition MODE2_INVERT_OUT :: int where "MODE2_INVERT_OUT = push_bit 4 1"
definition LEDON_FULL :: int where "LEDON_FULL = push_bit (4 + 8) 1"

lemmas pwm_consts = I2C_PWM_ADDR_def MIN_PWM_def MAX_PWM_def MODE1_def MODE2_def LED0_def LED1_def LED2_def LED3_def LED_def PRESCALE_def
  NLEDS_def MODE1_AUTOINC_def MODE2_INVERT_OUT_def LEDON_FULL_def

record motor_t =
  on_l :: int
  on_h :: int
  off_l :: int
  off_h :: int

definition motors :: "motor_t list" where
  "motors =
    [\<lparr>on_l = LED0, on_h = LED0 + 1, off_l = LED0 + 2, off_h = LED0 + 3\<rparr>,
     \<lparr>on_l = LED1, on_h = LED1 + 1, off_l = LED1 + 2, off_h = LED1 + 3\<rparr>,
     \<lparr>on_l = LED2, on_h = LED2 + 1, off_l = LED2 + 2, off_h = LED2 + 3\<rparr>,
     \<lparr>on_l = LED3, on_h = LED3 + 1, off_l = LED3 + 2, off_h = LED3 + 3\<rparr>]"

record 'v pwm_ops =
  i2c_slave_write :: "byte list \<Rightarrow> bool \<Rightarrow> 'v \<Rightarrow> int \<times> 'v"
  i2c_slave_read :: "nat \<Rightarrow> bool \<Rightarrow> 'v \<Rightarrow> int \<times> byte list \<times> 'v"
  bus_sem_wait :: "'v \<Rightarrow> 'v option"
  bus_sem_post :: "'v \<Rightarrow> 'v"
  i2c_handle_irq :: "'v \<Rightarrow> 'v"
  i2c0_int_acknowledge :: "'v \<Rightarrow> 'v"
  exynos_i2c_init :: "'v \<Rightarrow> int \<times> 'v"
  i2c_slave_init :: "int \<Rightarrow> 'v \<Rightarrow> int \<times> 'v"
  i2c_kvslave_init :: "'v \<Rightarrow> int \<times> 'v"
  zf_logf :: "'v \<Rightarrow> 'v option"
  i2c_scan :: "int \<Rightarrow> 'v \<Rightarrow> int \<times> int \<times> 'v"
  set_motors_lock :: "'v \<Rightarrow> 'v option"
  set_motors_unlock :: "'v \<Rightarrow> 'v"
  sig_lock :: "'v \<Rightarrow> 'v option"
  sig_unlock :: "'v \<Rightarrow> 'v"
  signal_reg_callback :: "'v \<Rightarrow> 'v"
  timer_update_reg_callback :: "'v \<Rightarrow> 'v"
  ps_udelay :: "nat \<Rightarrow> 'v \<Rightarrow> 'v"

subsection \<open>Register access\<close>

definition i2c_complete_cb :: "'v pwm_ops \<Rightarrow> 'v \<Rightarrow> 'v" where
  "i2c_complete_cb ops v = bus_sem_post ops v"

definition write_register :: "'v pwm_ops \<Rightarrow> byte \<Rightarrow> byte \<Rightarrow> 'v \<Rightarrow> 'v option" where
  "write_register ops address val v =
    (let (count, v) = i2c_slave_write ops [address, val] False v in
     if 0 \<le> count then bus_sem_wait ops v else None)"

definition read_register :: "'v pwm_ops \<Rightarrow> byte \<Rightarrow> 'v \<Rightarrow> (byte \<times> 'v) option" where
  "read_register ops address v = do {
     let (count, v) = i2c_slave_write ops [address] True v;
     v \<leftarrow> (if 0 \<le> count then bus_sem_wait ops v else Some v);
     let data = [0xEE];
     let (count, bs, v) = i2c_slave_read ops 1 False v;
     let data = take 1 bs @ drop (length bs) data;
     if 0 \<le> count then do { v \<leftarrow> bus_sem_wait ops v; Some (data ! 0, v) } else None }"

fun dump_loop :: "'v pwm_ops \<Rightarrow> nat \<Rightarrow> 'v \<Rightarrow> (byte list \<times> 'v) option" where
  "dump_loop ops 0 v = Some ([], v)"
| "dump_loop ops (Suc i) v = do {
     (bs, v) \<leftarrow> dump_loop ops i v;
     (b, v) \<leftarrow> read_register ops (word_of_nat i) v;
     Some (bs @ [b], v) }"

definition register_dump :: "'v pwm_ops \<Rightarrow> 'v \<Rightarrow> (byte list \<times> 'v) option" where
  "register_dump ops v = dump_loop ops NREGS v"

definition pwm_set_led :: "'v pwm_ops \<Rightarrow> int \<Rightarrow> int \<Rightarrow> 'v \<Rightarrow> 'v option" where
  "pwm_set_led ops led level v =
    (let level = (if LEDON_FULL < level then LEDON_FULL else level);
         data = [word_of_int (LED led), 0, 0, word_of_int level, word_of_int (drop_bit 8 level)];
         (count, v) = i2c_slave_write ops data False v
     in if 0 \<le> count then bus_sem_wait ops v else None)"

definition init_pwm_driver :: "'v pwm_ops \<Rightarrow> 'v \<Rightarrow> 'v option" where
  "init_pwm_driver ops v = do {
     (mode1, v) \<leftarrow> read_register ops (word_of_int MODE1) v;
     v \<leftarrow> write_register ops (word_of_int MODE2) (word_of_int MODE2_INVERT_OUT) v;
     (mode2, v) \<leftarrow> read_register ops (word_of_int MODE2) v;
     v \<leftarrow> write_register ops (word_of_int PRESCALE) 135 v;
     v \<leftarrow> write_register ops (word_of_int MODE1) (word_of_int MODE1_AUTOINC) v;
     Some (ps_udelay ops 2000 v) }"

definition i2c0_int_handle :: "'v pwm_ops \<Rightarrow> 'v \<Rightarrow> 'v" where
  "i2c0_int_handle ops v = i2c0_int_acknowledge ops (i2c_handle_irq ops v)"

subsection \<open>Motors\<close>

record 'd fp_ops =
  fp_of_int :: "int \<Rightarrow> 'd"
  fp_add :: "'d \<Rightarrow> 'd \<Rightarrow> 'd"
  fp_mult :: "'d \<Rightarrow> 'd \<Rightarrow> 'd"
  fp_to_int :: "'d \<Rightarrow> int"

definition set_motor :: "'d fp_ops \<Rightarrow> 'v pwm_ops \<Rightarrow> nat \<Rightarrow> 'd \<Rightarrow> 'v \<Rightarrow> 'v option" where
  "set_motor fp ops motor_id speed v =
    (if length motors \<le> motor_id then None
     else
       let out = fp_to_int fp (fp_add fp (fp_of_int fp MIN_PWM) (fp_mult fp (fp_of_int fp (MAX_PWM - MIN_PWM)) speed));
           mo = motors ! motor_id
       in do {
         v \<leftarrow> write_register ops (word_of_int (on_l mo)) 0 v;
         v \<leftarrow> write_register ops (word_of_int (on_h mo)) 0 v;
         v \<leftarrow> write_register ops (word_of_int (off_l mo)) (word_of_int out) v;
         write_register ops (word_of_int (off_h mo)) (word_of_int (drop_bit 8 out)) v })"

definition pwm_set_motors :: "'v pwm_ops \<Rightarrow> 'd \<Rightarrow> 'd \<Rightarrow> 'd \<Rightarrow> 'd \<Rightarrow> 'd list \<Rightarrow> 'v \<Rightarrow> 'd list \<times> 'v" where
  "pwm_set_motors ops fl fr bl br m v = (m[FL := fl, FR := fr, BL := bl, BR := br], set_motors_unlock ops v)"

subsection \<open>Initialisation\<close>

text \<open>Each turn of the loop scans from the same address.\<close>

partial_function (option) scan_loop :: "'v pwm_ops \<Rightarrow> 'v \<Rightarrow> (bool \<times> 'v) option" where
  "scan_loop ops v =
    (let (count, addr, v) = i2c_scan ops 0 v in
     if count \<noteq> 0 then (if addr = I2C_PWM_ADDR then Some (True, v) else scan_loop ops v) else Some (False, v))"

definition pwm__init :: "'v pwm_ops \<Rightarrow> 'v \<Rightarrow> 'v option" where
  "pwm__init ops v = do {
     v \<leftarrow> bus_sem_wait ops v;
     let (err, v) = exynos_i2c_init ops v;
     if err \<noteq> 0 then None
     else do {
       let (err, v) = i2c_slave_init ops I2C_PWM_ADDR v;
       if err \<noteq> 0 then None
       else do {
         let (err, v) = i2c_kvslave_init ops v;
         v \<leftarrow> (if err \<noteq> 0 then zf_logf ops v else Some v);
         (found, v) \<leftarrow> scan_loop ops v;
         set_motors_lock ops v } } }"

subsection \<open>Callbacks\<close>

record pwm_state =
  counter :: int
  cnt :: u32

function led_loop :: "'v pwm_ops \<Rightarrow> int \<Rightarrow> int \<Rightarrow> int \<Rightarrow> int \<Rightarrow> 'v \<Rightarrow> 'v option" where
  "led_loop ops led bound step level v =
    (if led < bound \<and> 0 < step then do { v \<leftarrow> pwm_set_led ops led level v; led_loop ops (led + step) bound step level v } else Some v)"
  by auto
termination by (relation "measure (\<lambda>(_, led, bound, _). nat (bound - led))") auto

declare led_loop.simps [simp del]

definition set_leds :: "'v pwm_ops \<Rightarrow> int \<Rightarrow> int \<Rightarrow> 'v \<Rightarrow> 'v option" where
  "set_leds ops first level v = do {
     v \<leftarrow> sig_lock ops v;
     v \<leftarrow> led_loop ops first (NLEDS - 1) 3 level v;
     Some (sig_unlock ops v) }"

definition pwm_signal :: "'v pwm_ops \<Rightarrow> pwm_state \<Rightarrow> 'v \<Rightarrow> (pwm_state \<times> 'v) option" where
  "pwm_signal ops s v = do {
     let level = (if counter s mod 2 \<noteq> 0 then 0 else 4095);
     v \<leftarrow> set_leds ops 2 level v;
     let s = s\<lparr>counter := counter s + 1\<rparr>;
     let s = (if counter s = 16 then s\<lparr>counter := 0\<rparr> else s);
     Some (s, signal_reg_callback ops v) }"

definition timer_update_callback :: "'v pwm_ops \<Rightarrow> pwm_state \<Rightarrow> 'v \<Rightarrow> (pwm_state \<times> 'v) option" where
  "timer_update_callback ops s v = do {
     let level = (if cnt s mod 2 \<noteq> 0 then 0 else 4095);
     v \<leftarrow> set_leds ops 0 level v;
     let s = s\<lparr>cnt := cnt s + 1\<rparr>;
     let s = (if cnt s = 16 then s\<lparr>cnt := 0\<rparr> else s);
     Some (s, timer_update_reg_callback ops v) }"

definition pwm_vmsig :: "'v pwm_ops \<Rightarrow> int \<Rightarrow> 'v \<Rightarrow> 'v option" where
  "pwm_vmsig ops val v =
    (if val = 0 then Some (timer_update_reg_callback ops v)
     else let val = (if val < 0 then 0 else 4095) in set_leds ops 1 val v)"

definition pwm_run :: "'v pwm_ops \<Rightarrow> 'v \<Rightarrow> (int \<times> 'v) option" where
  "pwm_run ops v = do {
     v \<leftarrow> init_pwm_driver ops v;
     v \<leftarrow> led_loop ops 0 NLEDS 1 4095 v;
     Some (0, signal_reg_callback ops v) }"

text \<open>Any sequence of calls of the callbacks.\<close>

datatype pwm_event = Signal | Timer_update | Vmsig int

fun pwm_event_step :: "'v pwm_ops \<Rightarrow> pwm_event \<Rightarrow> pwm_state \<Rightarrow> 'v \<Rightarrow> (pwm_state \<times> 'v) option" where
  "pwm_event_step ops Signal s v = pwm_signal ops s v"
| "pwm_event_step ops Timer_update s v = timer_update_callback ops s v"
| "pwm_event_step ops (Vmsig val) s v = map_option (\<lambda>v. (s, v)) (pwm_vmsig ops val v)"

fun pwm_events :: "'v pwm_ops \<Rightarrow> pwm_event list \<Rightarrow> pwm_state \<Rightarrow> 'v \<Rightarrow> (pwm_state \<times> 'v) option" where
  "pwm_events ops [] s v = Some (s, v)"
| "pwm_events ops (e # es) s v = do { (s, v) \<leftarrow> pwm_event_step ops e s v; pwm_events ops es s v }"

subsection \<open>The chip\<close>

text \<open>
  What the code relies on, seen through the registers of the chip: a write of one byte sets
  the register addressed, and with the auto-increment bit of MODE1 set a write of several
  bytes inside the LED registers sets consecutive ones; every transfer is started and
  completed; nothing else changes a register.
\<close>

definition store :: "(nat \<Rightarrow> byte) \<Rightarrow> nat \<Rightarrow> byte list \<Rightarrow> nat \<Rightarrow> byte" where
  "store r a bs k = (if a \<le> k \<and> k < a + length bs then bs ! (k - a) else r k)"

definition store_ok :: "(nat \<Rightarrow> byte) \<Rightarrow> nat \<Rightarrow> byte list \<Rightarrow> bool" where
  "store_ok r a bs \<longleftrightarrow> length bs \<le> 1 \<or> (bit (r 0) 5 \<and> 6 \<le> a \<and> a + length bs \<le> 0x46)"

definition pwm_laws :: "'v pwm_ops \<Rightarrow> ('v \<Rightarrow> nat \<Rightarrow> byte) \<Rightarrow> bool" where
  "pwm_laws ops regs \<longleftrightarrow>
    (\<forall>a bs again v. store_ok (regs v) (unat a) bs \<longrightarrow>
      (\<exists>c v1 v2. i2c_slave_write ops (a # bs) again v = (c, v1) \<and> 0 \<le> c \<and> bus_sem_wait ops v1 = Some v2 \<and>
        regs v2 = store (regs v) (unat a) bs)) \<and>
    (\<forall>n again v. \<exists>c bs v1 v2. i2c_slave_read ops n again v = (c, bs, v1) \<and> 0 \<le> c \<and> bus_sem_wait ops v1 = Some v2 \<and> regs v2 = regs v) \<and>
    (\<forall>v. \<exists>v'. sig_lock ops v = Some v' \<and> regs v' = regs v) \<and>
    (\<forall>v. regs (sig_unlock ops v) = regs v \<and> regs (signal_reg_callback ops v) = regs v \<and> regs (timer_update_reg_callback ops v) = regs v) \<and>
    (\<forall>n v. regs (ps_udelay ops n v) = regs v)"

lemma pwm_write:
  assumes "pwm_laws ops regs" "store_ok (regs v) (unat a) bs"
  obtains c v1 v2 where "i2c_slave_write ops (a # bs) again v = (c, v1)" "0 \<le> c" "bus_sem_wait ops v1 = Some v2"
    "regs v2 = store (regs v) (unat a) bs"
  using assms unfolding pwm_laws_def by blast

lemma pwm_quiet:
  assumes "pwm_laws ops regs"
  shows "\<exists>v'. sig_lock ops v = Some v' \<and> regs v' = regs v" "regs (sig_unlock ops v) = regs v" "regs (signal_reg_callback ops v) = regs v"
    "regs (timer_update_reg_callback ops v) = regs v" "regs (ps_udelay ops n v) = regs v"
  using assms by (auto simp: pwm_laws_def)

lemma write_register_stores:
  assumes "pwm_laws ops regs"
  shows "\<exists>v'. write_register ops a b v = Some v' \<and> regs v' = store (regs v) (unat a) [b]"
  by (rule pwm_write [OF assms, of v a "[b]" False]) (auto simp: store_ok_def write_register_def)

lemma read_register_keeps:
  assumes "pwm_laws ops regs"
  shows "\<exists>b v'. read_register ops a v = Some (b, v') \<and> regs v' = regs v"
proof -
  obtain c v1 v2 where 1: "i2c_slave_write ops [a] True v = (c, v1)" "0 \<le> c" "bus_sem_wait ops v1 = Some v2" "regs v2 = store (regs v) (unat a) []"
    by (rule pwm_write [OF assms, of v a "[]" True]) (auto simp: store_ok_def)
  moreover obtain c' bs v3 v4 where "i2c_slave_read ops 1 False v2 = (c', bs, v3)" "0 \<le> c'" "bus_sem_wait ops v3 = Some v4" "regs v4 = regs v2"
    using assms unfolding pwm_laws_def by blast
  moreover have "store (regs v) (unat a) [] = regs v" by (auto simp: store_def fun_eq_iff)
  ultimately show ?thesis by (simp add: read_register_def)
qed

subsection \<open>LED levels\<close>

definition leds :: "(nat \<Rightarrow> byte) \<Rightarrow> nat \<Rightarrow> byte list" where
  "leds r i = map r [6 + 4 * i..<10 + 4 * i]"

definition level_bytes :: "int \<Rightarrow> byte list" where
  "level_bytes level = [0, 0, word_of_int level, word_of_int (drop_bit 8 level)]"

lemma leds_store:
  assumes "length bs = 4"
  shows "leds (store r (6 + 4 * i) bs) j = (if j = i then bs else leds r j)"
proof -
  obtain a b c d where bs: "bs = [a, b, c, d]" using assms by (auto simp: numeral_eq_Suc length_Suc_conv)
  have u: "[6 + 4 * j..<10 + 4 * j] = [6 + 4 * j, 7 + 4 * j, 8 + 4 * j, 9 + 4 * j]" by (simp add: upt_rec)
  show ?thesis unfolding leds_def u by (cases j i rule: linorder_cases) (auto simp: store_def bs nth_Cons')
qed

lemma pwm_set_led_stores:
  assumes "pwm_laws ops regs" "bit (regs v 0) 5" "i < 16" "level \<le> 4095"
  shows "\<exists>v'. pwm_set_led ops (int i) level v = Some v' \<and> bit (regs v' 0) 5 \<and> leds (regs v') = (leds (regs v))(i := level_bytes level)"
proof -
  have a: "unat (word_of_int (LED (int i)) :: byte) = 6 + 4 * i"
  proof -
    have "(word_of_int (LED (int i)) :: byte) = word_of_nat (6 + 4 * i)" by (simp add: pwm_consts)
    moreover have "unat (word_of_nat (6 + 4 * i) :: byte) = 6 + 4 * i" using assms(3) by (simp only: unat_of_nat) simp
    ultimately show ?thesis by (simp only:)
  qed
  have l: "length (level_bytes level) = 4" by (simp add: level_bytes_def)
  have "store_ok (regs v) (6 + 4 * i) (level_bytes level)" using assms(2,3) by (simp add: store_ok_def l)
  then obtain c v1 v2 where w: "i2c_slave_write ops (word_of_int (LED (int i)) # level_bytes level) False v = (c, v1)" "0 \<le> c"
    "bus_sem_wait ops v1 = Some v2" "regs v2 = store (regs v) (6 + 4 * i) (level_bytes level)"
    using pwm_write [OF assms(1), of v "word_of_int (LED (int i))" "level_bytes level" False] unfolding a by blast
  moreover have "\<not> LEDON_FULL < level" using assms(4) by (simp add: LEDON_FULL_def)
  moreover have "leds (regs v2) = (leds (regs v))(i := level_bytes level)" by (simp add: w(4) leds_store l fun_eq_iff)
  moreover have "bit (regs v2 0) 5" using assms(2) by (simp add: w(4) store_def)
  ultimately show ?thesis by (simp add: pwm_set_led_def level_bytes_def Let_def)
qed

lemma led_loop_stores:
  assumes "pwm_laws ops regs" "bound \<le> 16" "0 < st" "level \<le> 4095"
  shows "bit (regs v 0) 5 \<Longrightarrow> \<exists>v'. led_loop ops (int i) (int bound) (int st) level v = Some v' \<and> bit (regs v' 0) 5 \<and>
    (\<forall>j. leds (regs v') j = (if i \<le> j \<and> j < bound \<and> st dvd (j - i) then level_bytes level else leds (regs v) j))"
proof (induction "bound - i" arbitrary: i v rule: less_induct)
  case less
  show ?case
  proof (cases "i < bound")
    case True
    then obtain v1 where 1: "pwm_set_led ops (int i) level v = Some v1" "bit (regs v1 0) 5" "leds (regs v1) = (leds (regs v))(i := level_bytes level)"
      using pwm_set_led_stores [OF assms(1) less.prems, of i level] assms(2,4) by auto
    obtain v2 where 2: "led_loop ops (int (i + st)) (int bound) (int st) level v1 = Some v2" "bit (regs v2 0) 5"
      "\<forall>j. leds (regs v2) j = (if i + st \<le> j \<and> j < bound \<and> st dvd (j - (i + st)) then level_bytes level else leds (regs v1) j)"
      using less.hyps [of "i + st" v1, OF _ 1(2)] True assms(3) by (metis add_strict_left_mono diff_less_mono2 add_0_right)
    have d: "st dvd (j - i) \<longleftrightarrow> j = i \<or> (i + st \<le> j \<and> st dvd (j - (i + st)))" if "i \<le> j" for j
    proof (cases "j - i < st")
      case True
      then show ?thesis using that nat_dvd_not_less [of "j - i" st] by auto
    next
      case False
      then have "j - i = (j - (i + st)) + st" "i + st \<le> j" using that by auto
      then show ?thesis using dvd_add_left_iff [of st st "j - (i + st)"] assms(3) by auto
    qed
    have "leds (regs v2) j = (if i \<le> j \<and> j < bound \<and> st dvd (j - i) then level_bytes level else leds (regs v) j)" for j
      by (cases "i \<le> j") (use 2(3) 1(3) True d [of j] in auto)
    then show ?thesis using 1(1) 2(1,2) True assms(3) by (simp add: led_loop.simps [of ops "int i"])
  qed (use less.prems in \<open>auto simp: led_loop.simps\<close>)
qed

lemma set_leds_stores:
  assumes "pwm_laws ops regs" "bit (regs v 0) 5" "level \<le> 4095" "i < 3"
  shows "\<exists>v'. set_leds ops (int i) level v = Some v' \<and> bit (regs v' 0) 5 \<and>
    (\<forall>j<16. leds (regs v') j = (if j < 15 \<and> j mod 3 = i then level_bytes level else leds (regs v) j))"
proof -
  obtain v1 where 1: "sig_lock ops v = Some v1" "regs v1 = regs v" using pwm_quiet(1) [OF assms(1)] by blast
  obtain v2 where 2: "led_loop ops (int i) (int 15) (int 3) level v1 = Some v2" "bit (regs v2 0) 5"
    "\<forall>j. leds (regs v2) j = (if i \<le> j \<and> j < 15 \<and> 3 dvd (j - i) then level_bytes level else leds (regs v1) j)"
    using led_loop_stores [OF assms(1), of 15 3 level v1 i] assms(2,3) 1(2) by auto
  have "i \<le> j \<and> j < 15 \<and> 3 dvd (j - i) \<longleftrightarrow> j < 15 \<and> j mod 3 = i" for j
    using assms(4) mod_eq_dvd_iff_nat [of i j 3] mod_less_eq_dividend [of j 3] by auto
  then have "\<forall>j<16. leds (regs v2) j = (if j < 15 \<and> j mod 3 = i then level_bytes level else leds (regs v) j)" using 2(3) 1(2) by simp
  moreover have "set_leds ops (int i) level v = Some (sig_unlock ops v2)" using 1(1) 2(1) by (simp add: set_leds_def NLEDS_def)
  ultimately show ?thesis using 2(2) pwm_quiet(2) [OF assms(1)] by simp
qed

lemma pwm_run_stores:
  assumes "pwm_laws ops regs"
  shows "\<exists>v'. pwm_run ops v = Some (0, v') \<and> bit (regs v' 0) 5 \<and> (\<forall>j<16. leds (regs v') j = level_bytes 4095)"
proof -
  obtain b1 v1 where 1: "read_register ops (word_of_int MODE1) v = Some (b1, v1)" using read_register_keeps [OF assms] by blast
  obtain v2 where 2: "write_register ops (word_of_int MODE2) (word_of_int MODE2_INVERT_OUT) v1 = Some v2" using write_register_stores [OF assms] by blast
  obtain b3 v3 where 3: "read_register ops (word_of_int MODE2) v2 = Some (b3, v3)" using read_register_keeps [OF assms] by blast
  obtain v4 where 4: "write_register ops (word_of_int PRESCALE) 135 v3 = Some v4" using write_register_stores [OF assms] by blast
  obtain v5 where 5: "write_register ops (word_of_int MODE1) (word_of_int MODE1_AUTOINC) v4 = Some v5"
    "regs v5 = store (regs v4) 0 [0x20]" using write_register_stores [OF assms, of "word_of_int MODE1"] by (fastforce simp: MODE1_def MODE1_AUTOINC_def)
  then have "bit (regs (ps_udelay ops 2000 v5) 0) 5" by (simp add: pwm_quiet(5) [OF assms] store_def)
  then obtain v6 where 6: "led_loop ops (int 0) (int 16) (int 1) 4095 (ps_udelay ops 2000 v5) = Some v6" "bit (regs v6 0) 5"
    "\<forall>j. leds (regs v6) j = (if 0 \<le> j \<and> j < 16 \<and> 1 dvd (j - 0) then level_bytes 4095 else leds (regs (ps_udelay ops 2000 v5)) j)"
    using led_loop_stores [OF assms order.refl zero_less_one order.refl] by blast
  then have "\<forall>j<16. leds (regs v6) j = level_bytes 4095" by simp
  then show ?thesis using 1 2 3 4 5(1) 6(1,2) by (simp add: pwm_run_def init_pwm_driver_def NLEDS_def pwm_quiet(3) [OF assms])
qed

text \<open>The level of each LED after a sequence of calls.\<close>

definition blink :: "nat \<Rightarrow> int" where
  "blink n = (if 0 < n \<and> even n then 0 else 4095)"

fun vm_level :: "pwm_event list \<Rightarrow> int \<Rightarrow> int" where
  "vm_level [] l = l"
| "vm_level (Vmsig val # es) l = vm_level es (if val < 0 then 0 else if 0 < val then 4095 else l)"
| "vm_level (_ # es) l = vm_level es l"

definition led_level :: "pwm_event list \<Rightarrow> nat \<Rightarrow> int" where
  "led_level es j =
    (if j = 15 then 4095 else if j mod 3 = 2 then blink (count_list es Signal)
     else if j mod 3 = 0 then blink (count_list es Timer_update) else vm_level es 4095)"

lemma vm_level_append [simp]: "vm_level (es @ fs) l = vm_level fs (vm_level es l)"
  by (induction es l rule: vm_level.induct) simp_all

lemma pwm_events_append: "pwm_events ops (es @ fs) s v = do { (s, v) \<leftarrow> pwm_events ops es s v; pwm_events ops fs s v }"
  by (induction es arbitrary: s v) (auto split: bind_split)

text \<open>The counters count modulo 16 and keep the parity.\<close>

definition pwm_counts :: "pwm_state \<Rightarrow> nat \<Rightarrow> nat \<Rightarrow> bool" where
  "pwm_counts s m n \<longleftrightarrow> counter s = int (m mod 16) \<and> cnt s = word_of_nat (n mod 16)"

lemma parity16: "(n mod 16) mod 2 = (n :: nat) mod 2"
  by (simp add: mod_mod_cancel)

lemma cnt_parity: "(word_of_nat (n mod 16) :: u32) mod 2 \<noteq> 0 \<longleftrightarrow> odd n"
proof -
  have "unat ((word_of_nat (n mod 16) :: u32) mod 2) = n mod 2"
    by (simp add: unat_mod_distrib unsigned_of_nat take_bit_nat_eq_self parity16)
  then show ?thesis by (metis odd_iff_mod_2_eq_one even_iff_mod_2_eq_zero unat_eq_zero)
qed

lemma cnt_wraps: "(word_of_nat (n mod 16) :: u32) + 1 = 16 \<longleftrightarrow> Suc (n mod 16) = 16"
proof -
  have "(word_of_nat (n mod 16) :: u32) + 1 = word_of_nat (Suc (n mod 16))" by simp
  moreover have "unat (word_of_nat (Suc (n mod 16)) :: u32) = Suc (n mod 16)"
    by (simp only: unat_of_nat) (simp add: less_imp_le)
  moreover have "unat (16 :: u32) = 16" by simp
  ultimately show ?thesis by (metis word_unat_eq_iff)
qed

lemma level_le: "(if b then 0 else 4095) \<le> (4095 :: int)"
  by simp

lemma pwm_signal_effect:
  assumes "pwm_laws ops regs" "bit (regs v 0) 5" "pwm_counts s m n"
  shows "\<exists>s' v'. pwm_signal ops s v = Some (s', v') \<and> bit (regs v' 0) 5 \<and> pwm_counts s' (Suc m) n \<and>
    (\<forall>j<16. leds (regs v') j = (if j < 15 \<and> j mod 3 = 2 then level_bytes (blink (Suc m)) else leds (regs v) j))"
proof -
  have "counter s mod 2 = int (m mod 16 mod 2)" using assms(3) by (simp add: pwm_counts_def of_nat_mod)
  then have c: "counter s mod 2 \<noteq> 0 \<longleftrightarrow> odd m" by (simp add: parity16 odd_iff_mod_2_eq_one)
  have w: "counter s + 1 = 16 \<longleftrightarrow> Suc (m mod 16) = 16" using assms(3) by (simp add: pwm_counts_def)
  obtain v1 where 1: "set_leds ops (int 2) (if odd m then 0 else 4095) v = Some v1" "bit (regs v1 0) 5"
    "\<forall>j<16. leds (regs v1) j = (if j < 15 \<and> j mod 3 = 2 then level_bytes (if odd m then 0 else 4095) else leds (regs v) j)"
    using set_leds_stores [OF assms(1,2), of "if odd m then 0 else 4095", OF level_le, of 2] by auto
  have "pwm_signal ops s v = Some (if Suc (m mod 16) = 16 then s\<lparr>counter := 0\<rparr> else s\<lparr>counter := counter s + 1\<rparr>, signal_reg_callback ops v1)"
    unfolding pwm_signal_def Let_def c using 1(1) w by simp
  moreover have "pwm_counts (if Suc (m mod 16) = 16 then s\<lparr>counter := 0\<rparr> else s\<lparr>counter := counter s + 1\<rparr>) (Suc m) n"
    using assms(3) by (simp add: pwm_counts_def mod_Suc)
  moreover have "blink (Suc m) = (if odd m then 0 else 4095)" by (simp add: blink_def)
  ultimately show ?thesis using 1(2,3) pwm_quiet(3) [OF assms(1)] by simp
qed

lemma timer_update_effect:
  assumes "pwm_laws ops regs" "bit (regs v 0) 5" "pwm_counts s m n"
  shows "\<exists>s' v'. timer_update_callback ops s v = Some (s', v') \<and> bit (regs v' 0) 5 \<and> pwm_counts s' m (Suc n) \<and>
    (\<forall>j<16. leds (regs v') j = (if j < 15 \<and> j mod 3 = 0 then level_bytes (blink (Suc n)) else leds (regs v) j))"
proof -
  have c: "cnt s = word_of_nat (n mod 16)" using assms(3) by (simp add: pwm_counts_def)
  obtain v1 where 1: "set_leds ops (int 0) (if odd n then 0 else 4095) v = Some v1" "bit (regs v1 0) 5"
    "\<forall>j<16. leds (regs v1) j = (if j < 15 \<and> j mod 3 = 0 then level_bytes (if odd n then 0 else 4095) else leds (regs v) j)"
    using set_leds_stores [OF assms(1,2), of "if odd n then 0 else 4095", OF level_le, of 0] by auto
  have "timer_update_callback ops s v =
      Some (if Suc (n mod 16) = 16 then s\<lparr>cnt := 0\<rparr> else s\<lparr>cnt := cnt s + 1\<rparr>, timer_update_reg_callback ops v1)"
    unfolding timer_update_callback_def Let_def c cnt_parity using 1(1) cnt_wraps [of n] c by simp
  moreover have "pwm_counts (if Suc (n mod 16) = 16 then s\<lparr>cnt := 0\<rparr> else s\<lparr>cnt := cnt s + 1\<rparr>) m (Suc n)"
    using assms(3) by (simp add: pwm_counts_def mod_Suc)
  moreover have "blink (Suc n) = (if odd n then 0 else 4095)" by (simp add: blink_def)
  ultimately show ?thesis using 1(2,3) pwm_quiet(4) [OF assms(1)] by simp
qed

lemma pwm_vmsig_effect:
  assumes "pwm_laws ops regs" "bit (regs v 0) 5"
  shows "\<exists>v'. pwm_vmsig ops val v = Some v' \<and> bit (regs v' 0) 5 \<and>
    (\<forall>j<16. leds (regs v') j = (if val \<noteq> 0 \<and> j < 15 \<and> j mod 3 = 1 then level_bytes (if val < 0 then 0 else 4095) else leds (regs v) j))"
proof (cases "val = 0")
  case True
  then show ?thesis using assms(2) pwm_quiet(4) [OF assms(1)] by (simp add: pwm_vmsig_def)
next
  case False
  then show ?thesis using set_leds_stores [OF assms, of "if val < 0 then 0 else 4095" 1] by (simp add: pwm_vmsig_def Let_def)
qed

lemma led_level_step:
  "j < 16 \<Longrightarrow> led_level (es @ [Signal]) j = (if j < 15 \<and> j mod 3 = 2 then blink (Suc (count_list es Signal)) else led_level es j)"
  "j < 16 \<Longrightarrow> led_level (es @ [Timer_update]) j = (if j < 15 \<and> j mod 3 = 0 then blink (Suc (count_list es Timer_update)) else led_level es j)"
  "j < 16 \<Longrightarrow> led_level (es @ [Vmsig val]) j =
    (if val \<noteq> 0 \<and> j < 15 \<and> j mod 3 = 1 then (if val < 0 then 0 else 4095) else led_level es j)"
  by (auto simp: led_level_def)

lemma pwm_events_effect:
  assumes "pwm_laws ops regs" "bit (regs v 0) 5" "\<forall>j<16. leds (regs v) j = level_bytes 4095" "pwm_counts s 0 0"
  shows "\<exists>s' v'. pwm_events ops es s v = Some (s', v') \<and> bit (regs v' 0) 5 \<and>
    pwm_counts s' (count_list es Signal) (count_list es Timer_update) \<and> (\<forall>j<16. leds (regs v') j = level_bytes (led_level es j))"
proof (induction es rule: rev_induct)
  case Nil
  then show ?case using assms(2-4) by (simp add: led_level_def blink_def)
next
  case (snoc e es)
  then obtain s1 v1 where 1: "pwm_events ops es s v = Some (s1, v1)" "bit (regs v1 0) 5"
    "pwm_counts s1 (count_list es Signal) (count_list es Timer_update)" "\<forall>j<16. leds (regs v1) j = level_bytes (led_level es j)" by blast
  show ?case
  proof (cases e)
    case Signal
    then show ?thesis using pwm_signal_effect [OF assms(1) 1(2,3)] 1(1,4) by (auto simp: pwm_events_append led_level_step)
  next
    case Timer_update
    then show ?thesis using timer_update_effect [OF assms(1) 1(2,3)] 1(1,4) by (auto simp: pwm_events_append led_level_step)
  next
    case (Vmsig val)
    then show ?thesis using pwm_vmsig_effect [OF assms(1) 1(2), of val] 1(1,3,4) by (auto simp: pwm_events_append led_level_step)
  qed
qed

text \<open>
  C15. LED levels. On a chip that behaves as documented, \<open>run\<close> and then any sequence of signals,
  timer updates and messages from the virtual machine return, and then the sixteen LEDs have
  these levels: LEDs 2, 5, 8, 11 and 14 alternate with the signals, LEDs 0, 3, 6, 9 and 12
  with the timer updates, LEDs 1, 4, 7, 10 and 13 show the sign of the last non-zero message,
  and LED 15 stays on. No group disturbs another.
\<close>

theorem pwm_led_levels:
  assumes "pwm_laws ops regs"
  shows "\<exists>v1 s' v'. pwm_run ops v = Some (0, v1) \<and> pwm_events ops es \<lparr>counter = 0, cnt = 0\<rparr> v1 = Some (s', v') \<and>
    (\<forall>j<16. leds (regs v') j = level_bytes (led_level es j))"
proof -
  obtain v1 where "pwm_run ops v = Some (0, v1)" "bit (regs v1 0) 5" "\<forall>j<16. leds (regs v1) j = level_bytes 4095"
    using pwm_run_stores [OF assms] by blast
  then show ?thesis using pwm_events_effect [OF assms, of v1 "\<lparr>counter = 0, cnt = 0\<rparr>" es] by (auto simp: pwm_counts_def)
qed

text \<open>A chip whose registers are the state.\<close>

definition chip_write :: "byte list \<Rightarrow> (nat \<Rightarrow> byte) \<Rightarrow> nat \<Rightarrow> byte" where
  "chip_write d r = (case d of [] \<Rightarrow> r | a # bs \<Rightarrow> store r (unat a) bs)"

definition chip_ops :: "(nat \<Rightarrow> byte) pwm_ops" where
  "chip_ops = \<lparr>i2c_slave_write = \<lambda>d again r. (int (length d), chip_write d r), i2c_slave_read = \<lambda>n again r. (int n, replicate n 0, r),
     bus_sem_wait = Some, bus_sem_post = \<lambda>r. r, i2c_handle_irq = \<lambda>r. r, i2c0_int_acknowledge = \<lambda>r. r, exynos_i2c_init = \<lambda>r. (0, r),
     i2c_slave_init = \<lambda>a r. (0, r), i2c_kvslave_init = \<lambda>r. (0, r), zf_logf = Some, i2c_scan = \<lambda>a r. (1, I2C_PWM_ADDR, r),
     set_motors_lock = Some, set_motors_unlock = \<lambda>r. r, sig_lock = Some, sig_unlock = \<lambda>r. r, signal_reg_callback = \<lambda>r. r,
     timer_update_reg_callback = \<lambda>r. r, ps_udelay = \<lambda>n r. r\<rparr>"

theorem pwm_led_levels_witness:
  "\<exists>v1 s' v'. pwm_run chip_ops (\<lambda>_. 0) = Some (0, v1) \<and>
    pwm_events chip_ops [Signal, Vmsig (- 1), Signal, Timer_update] \<lparr>counter = 0, cnt = 0\<rparr> v1 = Some (s', v') \<and>
    leds v' 5 = [0, 0, 0, 0] \<and> leds v' 4 = [0, 0, 0, 0] \<and> leds v' 3 = [0, 0, 255, 15] \<and> leds v' 15 = [0, 0, 255, 15]"
proof -
  have "pwm_laws chip_ops (\<lambda>r. r)" by (simp add: pwm_laws_def chip_ops_def chip_write_def)
  from pwm_led_levels [OF this, of "\<lambda>_. 0" "[Signal, Vmsig (- 1), Signal, Timer_update]"]
  obtain v1 s' v' where r: "pwm_run chip_ops (\<lambda>_. 0) = Some (0, v1)"
    "pwm_events chip_ops [Signal, Vmsig (- 1), Signal, Timer_update] \<lparr>counter = 0, cnt = 0\<rparr> v1 = Some (s', v')"
    and l: "\<forall>j<16. leds v' j = level_bytes (led_level [Signal, Vmsig (- 1), Signal, Timer_update] j)" by blast
  have "leds v' 5 = [0, 0, 0, 0]" "leds v' 4 = [0, 0, 0, 0]" "leds v' 3 = [0, 0, 255, 15]" "leds v' 15 = [0, 0, 255, 15]"
    using l by (simp_all add: led_level_def blink_def level_bytes_def)
  then show ?thesis using r by blast
qed

subsection \<open>Where the code goes wrong\<close>

text \<open>The bus scan never moves on: with another slave at a lower address it does not end.\<close>

lemma scan_loop_ends:
  assumes "scan_loop ops v = Some y"
  shows "\<not> (\<forall>v. \<exists>v'. i2c_scan ops 0 v = (1, a, v') \<and> a \<noteq> I2C_PWM_ADDR)"
  using assms
proof (rule scan_loop.raw_induct [rotated])
  fix f ops v y
  assume IH: "\<And>ops v y. f ops v = Some y \<Longrightarrow> \<not> (\<forall>v. \<exists>v'. i2c_scan ops 0 v = (1, a, v') \<and> a \<noteq> I2C_PWM_ADDR)"
    and run: "(let (count, addr, v) = i2c_scan ops 0 v in
      if count \<noteq> 0 then (if addr = I2C_PWM_ADDR then Some (True, v) else f ops v) else Some (False, v)) = Some y"
  show "\<not> (\<forall>v. \<exists>v'. i2c_scan ops 0 v = (1, a, v') \<and> a \<noteq> I2C_PWM_ADDR)"
  proof
    assume other: "\<forall>v. \<exists>v'. i2c_scan ops 0 v = (1, a, v') \<and> a \<noteq> I2C_PWM_ADDR"
    then obtain v' where "i2c_scan ops 0 v = (1, a, v')" "a \<noteq> I2C_PWM_ADDR" by blast
    then have "f ops v' = Some y" using run by simp
    then show False using IH other by blast
  qed
qed

lemma pwm__init_stuck:
  assumes "\<And>v. \<exists>v'. i2c_scan ops 0 v = (1, a, v')" "a \<noteq> I2C_PWM_ADDR"
  shows "pwm__init ops v = None"
proof -
  have "scan_loop ops w = None" for w using scan_loop_ends [of ops w _ a] assms by (metis option.exhaust)
  then show ?thesis by (auto simp: pwm__init_def Let_def split: prod.splits bind_split)
qed

text \<open>The register written as MODE2 is the low byte of the off time of LED 2.\<close>

lemma mode2_is_led2: "MODE2 = off_l (motors ! 2)"
  by (simp add: pwm_consts motors_def)

end
