(* ===== verification/Platform.thy ===== *)
theory Platform
  imports Block_Ops
begin

text \<open>
  The small components of \<open>odroid_vm\<close> around the platform library: \<open>components/gpio/src/gpio.c\<close>, \<open>clk/src/clk.c\<close>,
  \<open>timer/src/timer.c\<close> and \<open>timer/src/pwm.c\<close>, and the helpers of \<open>include/utils.h\<close>. The platform library is external:
  what a function of \<open>gpio.c\<close> does is the list of its calls in order, and the functions that the
  clock and timer components use are arguments.
\<close>

subsection \<open>Helpers\<close>

definition be32_to_cpu :: "u32 \<Rightarrow> u32" where
  "be32_to_cpu x =
    (let a = ui32_bytes x; b = foldl (\<lambda>b i. b[i := a ! (4 - i - 1)]) (replicate 4 0) [0..<4]
     in ui32_of (b ! 0) (b ! 1) (b ! 2) (b ! 3))"

definition clrbits_le32 :: "u32 \<Rightarrow> u32 \<Rightarrow> u32" where
  "clrbits_le32 reg m = reg AND NOT m"

definition setbits_le32 :: "u32 \<Rightarrow> u32 \<Rightarrow> u32" where
  "setbits_le32 reg m = reg OR m"

definition clrsetbits_le32 :: "u32 \<Rightarrow> u32 \<Rightarrow> u32 \<Rightarrow> u32" where
  "clrsetbits_le32 reg clrm setm = (reg AND NOT clrm) OR setm"

lemma be32_to_cpu_bytes: "ui32_bytes (be32_to_cpu x) = rev (ui32_bytes x)"
proof -
  obtain a b c d where x: "ui32_bytes x = [a, b, c, d]" by (simp add: ui32_bytes_def)
  then show ?thesis by (simp add: be32_to_cpu_def upt_rec numeral_eq_Suc ui32_bytes_of)
qed

lemma clrsetbits_le32_bits:
  "n < 32 \<Longrightarrow> bit (clrsetbits_le32 r c s) n \<longleftrightarrow> bit s n \<or> bit r n \<and> \<not> bit c n"
  "clrsetbits_le32 r c s = setbits_le32 (clrbits_le32 r c) s"
  by (auto simp: clrsetbits_le32_def setbits_le32_def clrbits_le32_def bit_simps)

subsection \<open>GPIO\<close>

datatype gpio_pin = XEINT nat | GPA0 nat

datatype gpio_t =
    o_pwm_en | o_spi_can_nss | o_spi_mpu_nss | o_spi_acc_mag_nss | o_spi_gyro_nss | o_spi_baro_nss | o_spi_ext_nss
  | i_spi_can_int | i_spi_mpu_int | i_spi_acc_int | i_spi_mag_int | i_spi_gyro_int | i_spi_ext_int | i_lidar_int | o_can_resetn | i_ppm

datatype gpio_dir = GPIO_DIR_OUT | GPIO_DIR_IRQ_FALL

datatype mux_feature = MUX_UART0 | MUX_UART1 | MUX_UART3 | MUX_SPI1 | MUX_I2C0

datatype irq_group = Irq_grp26 | Irq_grp28 | Irq_grp31 | Xint16_31

datatype gpio_call =
    Mux_init | Gpio_sys_init | Irq_combiner_init
  | Mux_feature_enable mux_feature
  | Gpio_new gpio_pin gpio_dir gpio_t
  | Gpio_set gpio_t
  | Gpio_clr gpio_t
  | Gpio_pending_clear gpio_t
  | Irq_combiner_enable_irq nat
  | CANInt_emit
  | Acknowledge irq_group

text \<open>Pins and combined interrupts by the number of their external interrupt.\<close>

definition PWM_EN :: gpio_pin where "PWM_EN = XEINT 17"
definition CAN_CSn :: gpio_pin where "CAN_CSn = XEINT 16"
definition CAN_INTn :: gpio_pin where "CAN_INTn = XEINT 15"
definition CAN_RESETn :: gpio_pin where "CAN_RESETn = XEINT 25"
definition MPU_CS :: gpio_pin where "MPU_CS = XEINT 14"
definition ACC_MAG_CS :: gpio_pin where "ACC_MAG_CS = XEINT 21"
definition GYRO_CS :: gpio_pin where "GYRO_CS = XEINT 11"
definition BARO_CS :: gpio_pin where "BARO_CS = XEINT 10"
definition SPI_EXT_CS :: gpio_pin where "SPI_EXT_CS = XEINT 13"
definition SPI_EXT_INT :: gpio_pin where "SPI_EXT_INT = XEINT 19"
definition PPM_GPIO :: gpio_pin where "PPM_GPIO = XEINT 5"
definition LIDAR_INT :: gpio_pin where "LIDAR_INT = GPA0 2"
definition CAN_EINT_CIRQ :: nat where "CAN_EINT_CIRQ = 15"
definition MPU_EINT_CIRQ :: nat where "MPU_EINT_CIRQ = 8"
definition PPM_CIRQ :: nat where "PPM_CIRQ = 5"

lemmas pin_defs = PWM_EN_def CAN_CSn_def CAN_INTn_def CAN_RESETn_def MPU_CS_def ACC_MAG_CS_def GYRO_CS_def BARO_CS_def SPI_EXT_CS_def
  SPI_EXT_INT_def PPM_GPIO_def LIDAR_INT_def

definition CS_FUNC :: "gpio_t \<Rightarrow> int \<Rightarrow> gpio_call list" where
  "CS_FUNC o_gpio state = (if state \<noteq> 0 then [Gpio_set o_gpio] else [Gpio_clr o_gpio])"

text \<open>The interrupt handlers; the argument says which inputs are pending.\<close>

definition irq_grp26_int_handle :: "(gpio_t \<Rightarrow> bool) \<Rightarrow> gpio_call list" where
  "irq_grp26_int_handle gpio_is_pending =
    (if gpio_is_pending i_ppm then [Gpio_pending_clear i_ppm] else []) @ [Acknowledge Irq_grp26]"

definition irq_grp28_int_handle :: "(gpio_t \<Rightarrow> bool) \<Rightarrow> gpio_call list" where
  "irq_grp28_int_handle gpio_is_pending =
    (if gpio_is_pending i_spi_mpu_int then [Gpio_pending_clear i_spi_mpu_int] else []) @ [Acknowledge Irq_grp28]"

definition irq_grp31_int_handle :: "(gpio_t \<Rightarrow> bool) \<Rightarrow> gpio_call list" where
  "irq_grp31_int_handle gpio_is_pending =
    (if gpio_is_pending i_spi_can_int then [Gpio_pending_clear i_spi_can_int, CANInt_emit] else []) @ [Acknowledge Irq_grp31]"

definition xint16_31_int_handle :: "(gpio_t \<Rightarrow> bool) \<Rightarrow> gpio_call list" where
  "xint16_31_int_handle gpio_is_pending =
    (if gpio_is_pending i_spi_ext_int then [Gpio_pending_clear i_spi_ext_int] else []) @ [Acknowledge Xint16_31]"

definition CLK_SRC_PERIC0 :: nat where "CLK_SRC_PERIC0 = 0x250"
definition CLK_DIV_PERIC0 :: nat where "CLK_DIV_PERIC0 = 0x558"

definition setup_clocks :: "(nat \<Rightarrow> u32) \<Rightarrow> nat \<Rightarrow> u32" where
  "setup_clocks clk_tree =
    (let val = clk_tree CLK_SRC_PERIC0; val = val AND NOT 0xF0F0; clk_tree = clk_tree(CLK_SRC_PERIC0 := val);
         val = clk_tree CLK_DIV_PERIC0; val = val AND NOT 0xF0F0
     in clk_tree(CLK_DIV_PERIC0 := val))"

definition gpio_pre_init :: "(nat \<Rightarrow> u32) \<Rightarrow> (nat \<Rightarrow> u32) \<times> gpio_call list" where
  "gpio_pre_init clk_tree = (setup_clocks clk_tree,
    [Mux_init, Gpio_sys_init, Irq_combiner_init,
     Mux_feature_enable MUX_UART0, Mux_feature_enable MUX_UART1, Mux_feature_enable MUX_UART3, Mux_feature_enable MUX_SPI1,
     Gpio_new CAN_CSn GPIO_DIR_OUT o_spi_can_nss, Gpio_new MPU_CS GPIO_DIR_OUT o_spi_mpu_nss, Gpio_new ACC_MAG_CS GPIO_DIR_OUT o_spi_acc_mag_nss,
     Gpio_new GYRO_CS GPIO_DIR_OUT o_spi_gyro_nss, Gpio_new BARO_CS GPIO_DIR_OUT o_spi_baro_nss, Gpio_new SPI_EXT_CS GPIO_DIR_OUT o_spi_ext_nss,
     Gpio_set o_spi_can_nss, Gpio_set o_spi_mpu_nss, Gpio_set o_spi_acc_mag_nss, Gpio_set o_spi_gyro_nss, Gpio_set o_spi_baro_nss, Gpio_set o_spi_ext_nss,
     Gpio_new CAN_INTn GPIO_DIR_IRQ_FALL i_spi_can_int, Gpio_new SPI_EXT_INT GPIO_DIR_IRQ_FALL i_spi_ext_int,
     Gpio_new LIDAR_INT GPIO_DIR_IRQ_FALL i_lidar_int, Gpio_new CAN_RESETn GPIO_DIR_OUT o_can_resetn, Gpio_set o_can_resetn,
     Gpio_new PPM_GPIO GPIO_DIR_IRQ_FALL i_ppm,
     Irq_combiner_enable_irq CAN_EINT_CIRQ, Irq_combiner_enable_irq MPU_EINT_CIRQ, Irq_combiner_enable_irq PPM_CIRQ,
     Mux_feature_enable MUX_I2C0, Gpio_new PWM_EN GPIO_DIR_OUT o_pwm_en, Gpio_clr o_pwm_en])"

text \<open>
  A list of calls is in order when every output is configured, as an output, before it is
  driven, and no pin and no variable is configured twice.
\<close>

fun calls_ok :: "gpio_call list \<Rightarrow> (gpio_pin \<times> gpio_dir \<times> gpio_t) list \<Rightarrow> bool" where
  "calls_ok [] cs \<longleftrightarrow> True"
| "calls_ok (Gpio_new p d g # xs) cs \<longleftrightarrow> p \<notin> fst ` set cs \<and> g \<notin> (snd \<circ> snd) ` set cs \<and> calls_ok xs ((p, d, g) # cs)"
| "calls_ok (Gpio_set g # xs) cs \<longleftrightarrow> (GPIO_DIR_OUT, g) \<in> snd ` set cs \<and> calls_ok xs cs"
| "calls_ok (Gpio_clr g # xs) cs \<longleftrightarrow> (GPIO_DIR_OUT, g) \<in> snd ` set cs \<and> calls_ok xs cs"
| "calls_ok (_ # xs) cs \<longleftrightarrow> calls_ok xs cs"

fun driven :: "gpio_call list \<Rightarrow> gpio_t \<Rightarrow> bool option \<Rightarrow> bool option" where
  "driven [] g l = l"
| "driven (Gpio_set h # xs) g l = driven xs g (if g = h then Some True else l)"
| "driven (Gpio_clr h # xs) g l = driven xs g (if g = h then Some False else l)"
| "driven (_ # xs) g l = driven xs g l"

text \<open>
  Initialisation configures every output before driving it, with distinct pins, and leaves all
  chip selects and the reset of the CAN controller high and the PWM enable low.
\<close>

lemma gpio_pre_init_levels:
  "calls_ok (snd (gpio_pre_init t)) []"
  "\<forall>g \<in> {o_spi_can_nss, o_spi_mpu_nss, o_spi_acc_mag_nss, o_spi_gyro_nss, o_spi_baro_nss, o_spi_ext_nss, o_can_resetn}.
    driven (snd (gpio_pre_init t)) g None = Some True"
  "driven (snd (gpio_pre_init t)) o_pwm_en None = Some False"
  by (simp_all add: gpio_pre_init_def pin_defs)

text \<open>The interrupt of the MPU is enabled, but its input, which the handler reads, is never configured.\<close>

lemma mpu_interrupt_unconfigured:
  "Irq_combiner_enable_irq MPU_EINT_CIRQ \<in> set (snd (gpio_pre_init t))"
  "\<forall>p d. Gpio_new p d i_spi_mpu_int \<notin> set (snd (gpio_pre_init t))"
  by (simp_all add: gpio_pre_init_def)

lemma setup_clocks_fields:
  "a = CLK_SRC_PERIC0 \<or> a = CLK_DIV_PERIC0 \<Longrightarrow> setup_clocks t a = clrbits_le32 (t a) 0xF0F0"
  "a \<noteq> CLK_SRC_PERIC0 \<Longrightarrow> a \<noteq> CLK_DIV_PERIC0 \<Longrightarrow> setup_clocks t a = t a"
  by (auto simp: setup_clocks_def clrbits_le32_def CLK_SRC_PERIC0_def CLK_DIV_PERIC0_def Let_def)

subsection \<open>Clock and timer\<close>

record ('v, 'c) clk_ops =
  CLK_SPI1 :: int
  clk_get_clock :: "int \<Rightarrow> 'v \<Rightarrow> 'c"
  clk_get_freq :: "'c \<Rightarrow> 'v \<Rightarrow> u32"
  clk_set_freq :: "'c \<Rightarrow> u32 \<Rightarrow> 'v \<Rightarrow> u32 \<times> 'v"
  exynos5_clock_sys_init :: "'v \<Rightarrow> int \<times> 'v"

definition clktree_get_spi1_freq :: "('v, 'c) clk_ops \<Rightarrow> 'v \<Rightarrow> u32" where
  "clktree_get_spi1_freq ops v = clk_get_freq ops (clk_get_clock ops (CLK_SPI1 ops) v) v"

definition clktree_set_spi1_freq :: "('v, 'c) clk_ops \<Rightarrow> u32 \<Rightarrow> 'v \<Rightarrow> u32 \<times> 'v" where
  "clktree_set_spi1_freq ops rate v = clk_set_freq ops (clk_get_clock ops (CLK_SPI1 ops) v) rate v"

definition clktree__init :: "('v, 'c) clk_ops \<Rightarrow> 'v \<Rightarrow> 'v option" where
  "clktree__init ops v = (let (err, v) = exynos5_clock_sys_init ops v in if err \<noteq> 0 then None else Some v)"

text \<open>The 64-bit time of the platform library, returned as an \<open>int\<close>.\<close>

definition tm_get_time :: "('v \<Rightarrow> 64 word) \<Rightarrow> 'v \<Rightarrow> int" where
  "tm_get_time pwm_get_time timer_drv = sint (ucast (pwm_get_time timer_drv) :: u32)"

text \<open>In nanoseconds it is the time for a little more than two seconds only.\<close>

lemma tm_get_time_exact: "pwm_get_time v < 2 ^ 31 \<Longrightarrow> tm_get_time pwm_get_time v = uint (pwm_get_time v)"
  using signed_take_bit_int_eq_self [of 31 "uint (pwm_get_time v)"] unsigned_greater_eq [of "pwm_get_time v", where ?'a = int]
  by (simp add: tm_get_time_def signed_ucast_eq word_less_def)

lemma tm_get_time_wraps: "tm_get_time (\<lambda>_. 2 ^ 31) v = - (2 ^ 31)"
  by (simp add: tm_get_time_def)

record 'v timer_ops =
  camkes_io_ops :: "'v \<Rightarrow> int \<times> 'v"
  zf_logf_if :: "int \<Rightarrow> 'v \<Rightarrow> 'v option"
  pwm_init :: "'v \<Rightarrow> int \<times> 'v"
  NS_IN_S :: nat
  pwm_set_timeout :: "nat \<Rightarrow> bool \<Rightarrow> 'v \<Rightarrow> 'v"
  timer_update_emit :: "'v \<Rightarrow> 'v"

definition timer_handle_event :: "'v timer_ops \<Rightarrow> 'v \<Rightarrow> 'v" where
  "timer_handle_event ops v = timer_update_emit ops v"

text \<open>A failure of \<open>pwm_init\<close> is reported and otherwise ignored.\<close>

definition timer_pre_init :: "'v timer_ops \<Rightarrow> 'v \<Rightarrow> 'v option" where
  "timer_pre_init ops v = do {
     let (error, v) = camkes_io_ops ops v;
     v \<leftarrow> zf_logf_if ops error v;
     let (error, v) = pwm_init ops v;
     Some (pwm_set_timeout ops (NS_IN_S ops) True v) }"

end
