(* ===== verification/Spec2Isabelle.thy ===== *)
theory Spec2Isabelle
  imports Can_Queue_Conc Can_Bit_Timing Can_Dev Aes_Decrypt Aes_Options Gf_Mul_Units Ping_Reply Uart Pwm Platform
begin

text \<open>
  A verification library for the C code of the CAmkES virtual machine examples: the CAN, SPI, UART,
  PWM, GPIO, clock and timer components and the pilot of \<open>apps/Arm/odroid_vm\<close>, with the AES and GCM
  library the pilot contains, and the ping responder of \<open>apps/Arm/vm_virtio_net\<close>.

  \<^bold>\<open>The program.\<close> On the Odroid board a guest runs beside native components. Two UART drivers receive
  bytes from the ground station and from the flight controller and call the pilot for each
  byte; the pilot collects the bytes of each side and hands them to the UART of the other side,
  signals the PWM component, which drives LEDs over I2C, and restarts the guest. The pilot holds
  the check of packets that arrive encrypted: secure packages over GCM over AES. The CAN
  component drives an MCP2515 controller over the SPI component, with a transmit and a
  receive queue between the interrupt handler and the clients; the GPIO component owns the pins
  and forwards the interrupt of the controller. On another board the ping responder answers ARP
  and echo requests of a guest over virtqueues.

  \<^bold>\<open>How the code is modelled.\<close> A C function is a function on explicit states with the name of the C
  function; a structure is a record, an enumeration or a union a datatype, \<open>uint32_t\<close> and its relatives
  are words, so that overflow wraps, and buffers are lists of bytes. The result type is an
  option where a call may not return: \<open>None\<close> stands for a loop that does not end, a failed assertion or
  a memory access outside a buffer. Loops that may not end are \<open>partial_function\<close>s, and every theorem about
  such a function states that it returns. No fuel is used; the only bounded loop is \<open>uart_run\<close>, which
  makes the given number of turns of an endless loop. The target is a little-endian 32-bit ARM,
  with the options that the headers of the AES library select for it. External libraries, generated
  glue and hardware are arguments: a record of operations over an arbitrary state, with what the code
  relies on as a predicate on these operations (\<open>chip_ok\<close>, \<open>vq_laws\<close>, \<open>pwm_laws\<close>, \<open>uart_laws\<close>); each predicate is
  shown to hold for a concrete instance, on which the theorems are evaluated.

  \<^bold>\<open>Theories.\<close>

  \<^item> \<open>Prelude\<close>: words, bits and lists; the collections of simplification rules. \<open>Fifo\<close>: the interface of a
    bounded queue, as a locale with the lemmas clients need.

  \<^item> \<open>Can_Types\<close> (\<open>include/can_inf.h\<close>), \<open>Can_Queue\<close> (\<open>can/src/queue.c\<close>): frames and the two ring buffers. Both queues
    interpret the FIFO interface; any interleaving of pushes and pops conserves the messages in order.
    \<open>Can_Queue_Conc\<close>: the same functions split into their atomic accesses, run by a producer and a
    consumer thread as a step relation. Every interleaving keeps the lock exclusive and loses
    nothing; with two producers messages are lost.

  \<^item> \<open>Spi_Bus\<close> (\<open>spi/src/spi.c\<close>): transfers and chip selects. \<open>Mcp2515_Spi\<close> (\<open>can/src/spi_cmd.c\<close>, \<open>can/include/mcp2515.h\<close>): the commands of the
    controller, and what a controller does with them. \<open>Mcp2515_Controller\<close> (\<open>can/src/controller.c\<close>): frames in
    transmit and receive buffers, acceptance filters and masks, reset and modes; frames arrive as
    they were sent. \<open>Can_Bit_Timing\<close>: the search for a bit timing; which bit rates are exact.

  \<^item> \<open>Can_Irq\<close> (\<open>can/src/irq.c\<close>) and \<open>Can_Dev\<close> (\<open>can/src/dev.c\<close>): the interrupt handler and the client interface over
    queues and controller: what a receive and a transmit interrupt do, that setup returns, and when
    sending and receiving return.

  \<^item> \<open>Block_Ops\<close> (\<open>aeslib/mode_hdr.h\<close>), \<open>Gf_Mul_Lo\<close> and \<open>Gf_Mul_Units\<close> (\<open>gf_mul_lo.h\<close>), \<open>Gf128_Field\<close>, \<open>Gf128_Mul\<close> (\<open>gf128mul.c\<close>, \<open>gf_convert.c\<close>): blocks as bytes
    and words, the shift primitives in four representations and for three unit sizes, the field with \<open>2 ^ 128\<close> elements as polynomials
    over bits, and the multipliers. All multipliers, with and without tables, compute the product in
    the field; their common contract is the locale \<open>table_multiplier\<close>.

  \<^item> \<open>Aes_Spec\<close>: the AES-128 cipher after FIPS 197. \<open>Aes_Tables\<close> (\<open>aestab.c\<close>, \<open>aestab.h\<close>, \<open>aesopt.h\<close>), \<open>Aes_Cipher\<close> (\<open>aeskey.c\<close>, \<open>aescrypt.c\<close>),
    \<open>Aes_Decrypt\<close>, \<open>Aes_Options\<close>: tables, key schedules and rounds as the macros expand. Encryption refines the
    specification, decryption undoes it, and the other table options compute the same.

  \<^item> \<open>Gcm_Spec\<close>: GCM after SP 800-38D. \<open>Gcm_Mode\<close> (\<open>gcm.c\<close>, \<open>gcm.h\<close>), \<open>Gcm_Auth\<close>, \<open>Gcm_Crypt\<close>, \<open>Gcm_Correct\<close>, \<open>Gcm_Message\<close>, \<open>Gcm_Types\<close>: the functions
    with their alignment-dependent loops, and that they compute the specification, in one or in many
    pieces, accept exactly the right tag, and keep the sizes of every array.

  \<^item> \<open>Commsec\<close> (\<open>commsec.c\<close>, \<open>commsec.h\<close>), \<open>Commsec_Channel\<close>: secure packages. Runs of calls refine a channel contract,
    from which it follows that no initial value is used twice and no package accepted twice.

  \<^item> \<open>Pilot\<close> (\<open>pilot/src/pilot.c\<close>), \<open>Uart\<close> (\<open>uart/src/driver.c\<close>): forwarding between the two lines for every interleaving, the
    check of framed packages, reads in pieces, and the composition of driver loop and pilot.

  \<^item> \<open>Pwm\<close> (\<open>pwm/src/pwm.c\<close>): the levels of all LEDs after any sequence of calls. \<open>Platform\<close> (\<open>gpio/src/gpio.c\<close>, \<open>clk/src/clk.c\<close>,
    \<open>timer/src/timer.c\<close>, \<open>timer/src/pwm.c\<close>, \<open>include/utils.h\<close>): the order of the calls of initialisation, and register helpers.

  \<^item> \<open>Ping_Client\<close> (\<open>PingClient/ping_client.c\<close>), \<open>Ping_Reply\<close>: checksum, ARP and echo replies byte by byte, and the callbacks over
    a virtqueue; every packet of a chain is answered once and the callback returns.

  Theorems named with an error, such as those on a second producer, on filters that overwrite
  each other or on extended identifiers, state what the code does where this is not what it
  should do.

  \<^bold>\<open>Not modelled.\<close> The virtual machine examples that only hand tables of data ports to the virtual
  machine library (\<open>vm_introspect\<close>, \<open>vm_cross_connector\<close>, the x86 boards), the ZeroMQ sample programs, which consist of
  library calls, the CAN self test, and build and assembly descriptions have no behaviour of their
  own that could be stated without the library they call. Of the AES library the preprocessor
  branches for other compilers, other byte orders and key lengths are left out, since the
  configuration removes them; of \<open>utils.h\<close> the delay loop and the arithmetic macros. Printing is left out
  everywhere. The floating-point arithmetic of motor speeds is an argument of \<open>set_motor\<close>.
\<close>

end
